(* ===== verification/Prelude.thy ===== *)
theory Prelude
  imports Main "HOL-Library.Word"
begin

text \<open>
  What the component theories share: the machine types, the fault values that stand for an
  abort or undefined behaviour of the C++ code, C-array updates (\<open>std::copy\<close>, \<open>memcpy\<close>,
  \<open>vector::resize\<close>), the memory image of an integer on a little-endian host, the conversion
  between bytes and characters, and the generic transition system whose locale
  carries every "no reachable state faults" argument of the development.
\<close>

unbundle bit_operations_syntax

named_theorems buf_simps \<open>how each buffer operation acts on the readable bytes\<close>
named_theorems inv_intros \<open>each operation keeps the invariant of its component\<close>

section \<open>Machine types and faults\<close>

type_synonym byte = "8 word"
type_synonym u8 = "8 word"
type_synonym u16 = "16 word"
type_synonym u32 = "32 word"
type_synonym u64 = "64 word"

text \<open>
  A \<open>fault\<close> is an execution that leaves the defined behaviour of the program: a failing
  \<open>assert\<close> (compiled in for debug builds), a null dereference, an access outside an array, a line of
  level FATAL in the log, which aborts.
\<close>

datatype fault = AssertFail | NullDeref | OutOfBounds | Fatal

type_synonym 'a result = "fault + 'a"

definition rbind :: "'a result \<Rightarrow> ('a \<Rightarrow> 'b result) \<Rightarrow> 'b result" where
  "rbind r f = (case r of Inl e \<Rightarrow> Inl e | Inr a \<Rightarrow> f a)"

lemma rbind_simps [simp]:
  "rbind (Inl e) f = Inl e"
  "rbind (Inr a) f = f a"
  by (simp_all add: rbind_def)

lemma rbind_eq_Inr: "rbind r f = Inr b \<longleftrightarrow> (\<exists>a. r = Inr a \<and> f a = Inr b)"
  by (cases r) simp_all

definition c_assert :: "bool \<Rightarrow> 'a result \<Rightarrow> 'a result" where
  "c_assert P r = (if P then r else Inl AssertFail)"

lemma c_assert_simps [simp]:
  "P \<Longrightarrow> c_assert P r = r"
  "\<not> P \<Longrightarrow> c_assert P r = Inl AssertFail"
  by (simp_all add: c_assert_def)

lemma c_assert_eq_Inr: "c_assert P r = Inr b \<longleftrightarrow> P \<and> r = Inr b"
  by (simp add: c_assert_def)

section \<open>Arrays\<close>

text \<open>\<open>write_at i d xs\<close>: copy the elements \<open>d\<close> over \<open>xs\<close> from index \<open>i\<close> on.\<close>

definition write_at :: "nat \<Rightarrow> 'a list \<Rightarrow> 'a list \<Rightarrow> 'a list" where
  "write_at i d xs = take i xs @ d @ drop (i + length d) xs"

text \<open>\<open>segment i j xs\<close>: the elements of the half-open range from \<open>i\<close> to \<open>j\<close>.\<close>

definition segment :: "nat \<Rightarrow> nat \<Rightarrow> 'a list \<Rightarrow> 'a list" where
  "segment i j xs = take (j - i) (drop i xs)"

definition resize :: "'a \<Rightarrow> nat \<Rightarrow> 'a list \<Rightarrow> 'a list" where
  "resize z n xs = take n xs @ replicate (n - length xs) z"

lemma length_write_at [simp]: "i + length d \<le> length xs \<Longrightarrow> length (write_at i d xs) = length xs"
  by (simp add: write_at_def)

lemma length_resize [simp]: "length (resize z n xs) = n"
  by (simp add: resize_def)

lemma length_segment [simp]: "j \<le> length xs \<Longrightarrow> length (segment i j xs) = j - i"
  by (simp add: segment_def)

lemma segment_self [simp]: "segment i i xs = []"
  by (simp add: segment_def)

lemma segment_append_next:
  assumes "i \<le> j" "j \<le> k" "k \<le> length xs"
  shows "segment i j xs @ segment j k xs = segment i k xs"
proof -
  have "take (k - i) (drop i xs) = take ((j - i) + (k - j)) (drop i xs)"
    using assms by simp
  also have "\<dots> = take (j - i) (drop i xs) @ take (k - j) (drop (j - i) (drop i xs))"
    by (rule take_add)
  finally show ?thesis
    using assms by (simp add: segment_def)
qed

lemma segment_drop: "i + n \<le> j \<Longrightarrow> drop n (segment i j xs) = segment (i + n) j xs"
  by (simp add: segment_def drop_take add.commute)

lemma segment_take: "i + n \<le> j \<Longrightarrow> take n (segment i j xs) = segment i (i + n) xs"
  by (simp add: segment_def)

lemma segment_write_before:
  assumes "j \<le> k" "k + length d \<le> length xs"
  shows "segment i j (write_at k d xs) = segment i j xs"
proof -
  have "take j (write_at k d xs) = take j xs"
    using assms by (simp add: write_at_def min_def)
  then have "drop i (take j (write_at k d xs)) = drop i (take j xs)"
    by (rule arg_cong)
  then show ?thesis
    by (simp add: segment_def drop_take)
qed

lemma segment_write_after:
  "k + length d \<le> i \<Longrightarrow> k + length d \<le> length xs \<Longrightarrow> segment i j (write_at k d xs) = segment i j xs"
  by (simp add: segment_def write_at_def)

lemma segment_write_at:
  "i + length d \<le> length xs \<Longrightarrow> segment i (i + length d) (write_at i d xs) = d"
  by (simp add: segment_def write_at_def)

lemma segment_resize: "j \<le> n \<Longrightarrow> j \<le> length xs \<Longrightarrow> segment i j (resize z n xs) = segment i j xs"
proof -
  assume a: "j \<le> n" "j \<le> length xs"
  then have "take j (resize z n xs) = take j xs"
    by (simp add: resize_def min_def)
  then have "drop i (take j (resize z n xs)) = drop i (take j xs)"
    by (rule arg_cong)
  then show ?thesis
    by (simp add: segment_def drop_take)
qed

lemma segment_all: "segment 0 (length xs) xs = xs"
  by (simp add: segment_def)

section \<open>Searching\<close>

text \<open>
  \<open>std::search\<close> gives the first, \<open>std::find_end\<close> the last occurrence of a pattern; both give
  the end of the range (here: the length) when there is none. \<open>std::string::find\<close> and \<open>rfind\<close>
  are the same searches with \<open>npos\<close> (here \<open>None\<close>) for "not found".
\<close>

definition starts_with :: "'a list \<Rightarrow> 'a list \<Rightarrow> bool" where
  "starts_with p xs = (take (length p) xs = p)"

fun str_find :: "'a list \<Rightarrow> 'a list \<Rightarrow> nat option" where
  "str_find p [] = (if p = [] then Some 0 else None)"
| "str_find p (x # xs) =
     (if starts_with p (x # xs) then Some 0 else map_option Suc (str_find p xs))"

fun str_rfind :: "'a list \<Rightarrow> 'a list \<Rightarrow> nat option" where
  "str_rfind p [] = (if p = [] then Some 0 else None)"
| "str_rfind p (x # xs) =
     (case str_rfind p xs of Some k \<Rightarrow> Some (Suc k)
      | None \<Rightarrow> if starts_with p (x # xs) then Some 0 else None)"

definition std_search :: "'a list \<Rightarrow> 'a list \<Rightarrow> nat" where
  "std_search xs p = (case str_find p xs of Some k \<Rightarrow> k | None \<Rightarrow> length xs)"

definition std_find_end :: "'a list \<Rightarrow> 'a list \<Rightarrow> nat" where
  "std_find_end xs p = (case str_rfind p xs of Some k \<Rightarrow> k | None \<Rightarrow> length xs)"

lemma starts_with_Nil [simp]: "starts_with [] xs"
  by (simp add: starts_with_def)

lemma starts_with_Cons [simp]:
  "starts_with (p # ps) (x # xs) \<longleftrightarrow> p = x \<and> starts_with ps xs"
  "\<not> starts_with (p # ps) []"
  by (auto simp: starts_with_def)

lemma starts_with_append [simp]: "starts_with p (p @ xs)"
  by (simp add: starts_with_def)

lemma starts_with_length: "starts_with p xs \<Longrightarrow> length p \<le> length xs"
  unfolding starts_with_def by (metis length_take min.cobounded1)

lemma str_find_Some:
  "str_find p xs = Some k \<Longrightarrow>
     starts_with p (drop k xs) \<and> k + length p \<le> length xs \<and> (\<forall>j<k. \<not> starts_with p (drop j xs))"
proof (induction xs arbitrary: k)
  case Nil
  then show ?case by (simp split: if_splits)
next
  case (Cons x xs)
  show ?case
  proof (cases "starts_with p (x # xs)")
    case True
    with Cons.prems show ?thesis by (auto dest: starts_with_length)
  next
    case False
    with Cons.prems obtain m where m: "str_find p xs = Some m" "k = Suc m" by auto
    with Cons.IH [of m] False show ?thesis by (auto simp: less_Suc_eq_0_disj)
  qed
qed

lemma str_find_None: "str_find p xs = None \<Longrightarrow> \<not> starts_with p (drop j xs)"
proof (induction xs arbitrary: j)
  case Nil
  then show ?case by (cases p) (simp_all split: if_splits)
next
  case (Cons x xs)
  then show ?case by (cases j) (auto split: if_splits)
qed

lemma str_rfind_None: "str_rfind p xs = None \<Longrightarrow> \<not> starts_with p (drop j xs)"
proof (induction xs arbitrary: j)
  case Nil
  then show ?case by (cases p) (simp_all split: if_splits)
next
  case (Cons x xs)
  then show ?case by (cases j) (auto split: if_splits option.splits)
qed

lemma str_rfind_Some:
  assumes "p \<noteq> []" "str_rfind p xs = Some k"
  shows "starts_with p (drop k xs) \<and> k + length p \<le> length xs \<and> (\<forall>j>k. \<not> starts_with p (drop j xs))"
  using assms(2)
proof (induction xs arbitrary: k)
  case Nil
  with assms(1) show ?case by simp
next
  case (Cons x xs)
  show ?case
  proof (cases "str_rfind p xs")
    case None
    with Cons.prems have "starts_with p (x # xs)" "k = 0" by (auto split: if_splits)
    moreover have "\<not> starts_with p (drop j (x # xs))" if "j > 0" for j
      using that str_rfind_None [OF None] by (cases j) simp_all
    ultimately show ?thesis by (auto dest: starts_with_length)
  next
    case (Some m)
    with Cons.prems have k: "k = Suc m" by simp
    have "\<not> starts_with p (drop j (x # xs))" if "j > k" for j
      using that k Cons.IH [OF Some] by (cases j) simp_all
    with k Cons.IH [OF Some] show ?thesis by simp
  qed
qed

lemma str_find_eq_NoneI:
  assumes "\<And>j. \<not> starts_with p (drop j xs)"
  shows "str_find p xs = None"
  using assms str_find_Some [of p xs] by (cases "str_find p xs") auto

lemma str_find_iff_rfind: "p \<noteq> [] \<Longrightarrow> str_find p xs = None \<longleftrightarrow> str_rfind p xs = None"
  using str_find_Some [of p xs] str_rfind_Some [of p xs] str_find_None [of p xs] str_rfind_None [of p xs]
  by (cases "str_find p xs"; cases "str_rfind p xs") auto

lemma starts_with_split: "starts_with p (drop k xs) \<Longrightarrow> k + length p \<le> length xs \<Longrightarrow>
    xs = take k xs @ p @ drop (k + length p) xs"
  unfolding starts_with_def by (metis append_take_drop_id drop_drop add.commute)

lemma starts_with_takeD: "starts_with p (take n xs) \<Longrightarrow> starts_with p xs"
  unfolding starts_with_def by (metis min.absorb1 min.absorb_iff2 take_take linorder_le_cases take_all_iff length_take min_def)

lemma str_find_split:
  assumes "p \<noteq> []" "str_find p xs = Some k"
  shows "xs = take k xs @ p @ drop (k + length p) xs" "k + length p \<le> length xs" "str_find p (take k xs) = None"
proof -
  have f: "starts_with p (drop k xs)" "k + length p \<le> length xs" "\<forall>j<k. \<not> starts_with p (drop j xs)"
    using str_find_Some [OF assms(2)] by auto
  then show "xs = take k xs @ p @ drop (k + length p) xs" "k + length p \<le> length xs"
    by (auto intro: starts_with_split)
  show "str_find p (take k xs) = None"
  proof (rule str_find_eq_NoneI)
    fix j
    show "\<not> starts_with p (drop j (take k xs))"
    proof (cases "j < k")
      case True
      with f(3) show ?thesis by (auto simp: drop_take dest: starts_with_takeD)
    next
      case False
      with assms(1) show ?thesis by (cases p) simp_all
    qed
  qed
qed

lemma str_rfind_split:
  assumes "p \<noteq> []" "str_rfind p xs = Some k"
  shows "xs = take k xs @ p @ drop (k + length p) xs" "k + length p \<le> length xs"
    "str_find p (drop (k + length p) xs) = None"
proof -
  have f: "starts_with p (drop k xs)" "k + length p \<le> length xs" "\<forall>j>k. \<not> starts_with p (drop j xs)"
    using str_rfind_Some [OF assms] by auto
  then show "xs = take k xs @ p @ drop (k + length p) xs" "k + length p \<le> length xs"
    by (auto intro: starts_with_split)
  show "str_find p (drop (k + length p) xs) = None"
    by (rule str_find_eq_NoneI) (use f(3) assms(1) in \<open>simp add: drop_drop\<close>)
qed

lemma str_find_append: "p \<noteq> [] \<Longrightarrow> str_find p (l @ p @ r) \<noteq> None"
  using str_find_None [of p "l @ p @ r" "length l"] by auto

lemma str_find_le_rfind:
  "p \<noteq> [] \<Longrightarrow> str_find p xs = Some k \<Longrightarrow> str_rfind p xs = Some m \<Longrightarrow> k \<le> m"
  using str_find_Some [of p xs k] str_rfind_Some [of p xs m] by (meson not_le)

section \<open>Integers in memory\<close>

text \<open>
  The bytes of an object as \<open>memcpy\<close> sees them on the little-endian hosts this server runs on:
  \<open>le_bytes n w\<close> are the \<open>n\<close> bytes of \<open>w\<close>, least significant first; \<open>le_word\<close> reads them back.
\<close>

definition le_bytes :: "nat \<Rightarrow> 'a::len word \<Rightarrow> byte list" where
  "le_bytes n w = map (\<lambda>i. ucast (drop_bit (8 * i) w)) [0..<n]"

fun le_word :: "byte list \<Rightarrow> 'a::len word" where
  "le_word [] = 0"
| "le_word (b # bs) = ucast b OR push_bit 8 (le_word bs)"

lemma length_le_bytes [simp]: "length (le_bytes n w) = n"
  by (simp add: le_bytes_def)

lemma bit_le_word:
  "bit (le_word bs :: 'a::len word) k \<longleftrightarrow>
     k < LENGTH('a) \<and> k div 8 < length bs \<and> bit (bs ! (k div 8)) (k mod 8)"
proof (induction bs arbitrary: k)
  case Nil
  then show ?case by simp
next
  case (Cons b bs)
  show ?case
  proof (cases "k < 8")
    case True
    then show ?thesis
      by (auto simp: bit_or_iff bit_ucast_iff bit_push_bit_iff dest: bit_imp_le_length)
  next
    case False
    then obtain m where m: "k = m + 8" by (metis add.commute le_Suc_ex not_less)
    have "\<not> bit b k" using False bit_imp_le_length [of b k] by auto
    moreover have "k div 8 = Suc (m div 8)" "k mod 8 = m mod 8" using m by simp_all
    ultimately show ?thesis
      using m by (auto simp: bit_or_iff bit_ucast_iff bit_push_bit_iff Cons.IH)
  qed
qed

lemma le_word_le_bytes:
  assumes "LENGTH('a) \<le> 8 * n"
  shows "le_word (le_bytes n w) = (w :: 'a::len word)"
proof (rule bit_word_eqI)
  fix k
  assume k: "k < LENGTH('a)"
  then have "k div 8 < n" using assms by linarith
  then show "bit (le_word (le_bytes n w) :: 'a word) k = bit w k"
    using k by (simp add: bit_le_word le_bytes_def bit_ucast_iff bit_drop_bit_eq)
qed

lemma le_bytes_le_word:
  assumes "length bs = n" "8 * n \<le> LENGTH('a)"
  shows "le_bytes n (le_word bs :: 'a::len word) = bs"
proof (rule nth_equalityI)
  show "length (le_bytes n (le_word bs :: 'a word)) = length bs"
    using assms by simp
  fix i
  assume "i < length (le_bytes n (le_word bs :: 'a word))"
  then have i: "i < n" by simp
  show "le_bytes n (le_word bs :: 'a word) ! i = bs ! i"
  proof (rule bit_word_eqI)
    fix k
    assume k: "k < LENGTH(8)"
    have "8 * i + k < LENGTH('a)" using i k assms(2) by simp
    then show "bit (le_bytes n (le_word bs :: 'a word) ! i) k = bit (bs ! i) k"
      using i k assms(1) by (simp add: le_bytes_def bit_ucast_iff bit_drop_bit_eq bit_le_word)
  qed
qed

text \<open>\<open>htobe16/32/64\<close> and \<open>be16/32/64toh\<close> reverse the bytes of the integer on such a host.\<close>

definition byte_swap :: "nat \<Rightarrow> 'a::len word \<Rightarrow> 'a word" where
  "byte_swap n w = le_word (rev (le_bytes n w))"

lemma le_bytes_byte_swap:
  "LENGTH('a) = 8 * n \<Longrightarrow> le_bytes n (byte_swap n (w :: 'a::len word)) = rev (le_bytes n w)"
  unfolding byte_swap_def by (rule le_bytes_le_word) simp_all

lemma byte_swap_byte_swap [simp]:
  "LENGTH('a) = 8 * n \<Longrightarrow> byte_swap n (byte_swap n w) = (w :: 'a::len word)"
  by (simp add: byte_swap_def [of n "byte_swap n w"] le_bytes_byte_swap le_word_le_bytes)

section \<open>Bytes and characters\<close>

definition byte_of_char :: "char \<Rightarrow> byte" where
  "byte_of_char c = word_of_nat (of_char c)"

definition char_of_byte :: "byte \<Rightarrow> char" where
  "char_of_byte b = char_of (unat b)"

abbreviation bytes_of :: "string \<Rightarrow> byte list" where
  "bytes_of s \<equiv> map byte_of_char s"

abbreviation string_of :: "byte list \<Rightarrow> string" where
  "string_of bs \<equiv> map char_of_byte bs"

lemma char_of_byte_of_char [simp]: "char_of_byte (byte_of_char c) = c"
  by (simp add: char_of_byte_def byte_of_char_def unat_of_nat)

lemma byte_of_char_of_byte [simp]: "byte_of_char (char_of_byte b) = b"
proof -
  have "unat b < 256" using unsigned_less [of b, where ?'a = nat] by simp
  then show ?thesis by (simp add: char_of_byte_def byte_of_char_def)
qed

lemma string_of_bytes_of [simp]: "string_of (bytes_of s) = s"
  by (induction s) simp_all

lemma sorted_map_dropWhile: "sorted (map f xs) \<Longrightarrow> sorted (map f (dropWhile P xs))"
  by (induction xs) auto

section \<open>Transition systems\<close>

text \<open>
  A component with state is a step function that takes a state and an event (an API call, a
  wake-up, an answer of the kernel) to the next state or to a fault. \<open>run_steps\<close> runs a list of
  events, \<open>admissible\<close> says that each event may happen in the state it meets.
\<close>

fun run_steps :: "('s \<Rightarrow> 'e \<Rightarrow> 's result) \<Rightarrow> 's \<Rightarrow> 'e list \<Rightarrow> 's result" where
  "run_steps st s [] = Inr s"
| "run_steps st s (e # es) = rbind (st s e) (\<lambda>t. run_steps st t es)"

fun admissible :: "('s \<Rightarrow> 'e \<Rightarrow> 's result) \<Rightarrow> ('s \<Rightarrow> 'e \<Rightarrow> bool) \<Rightarrow> 's \<Rightarrow> 'e list \<Rightarrow> bool" where
  "admissible st ok s [] = True"
| "admissible st ok s (e # es) =
     (ok s e \<and> (case st s e of Inl _ \<Rightarrow> True | Inr t \<Rightarrow> admissible st ok t es))"

lemma run_steps_append:
  "run_steps st s (es @ fs) = rbind (run_steps st s es) (\<lambda>t. run_steps st t fs)"
proof (induction es arbitrary: s)
  case (Cons e es)
  then show ?case by (cases "st s e") simp_all
qed simp

lemma admissible_append:
  "admissible st ok s (es @ fs) \<longleftrightarrow> admissible st ok s es \<and> (\<forall>t. run_steps st s es = Inr t \<longrightarrow> admissible st ok t fs)"
proof (induction es arbitrary: s)
  case (Cons e es)
  then show ?case by (cases "st s e") simp_all
qed simp

definition stable :: "('s \<Rightarrow> 'e \<Rightarrow> 's result) \<Rightarrow> ('s \<Rightarrow> 'e \<Rightarrow> bool) \<Rightarrow> ('s \<Rightarrow> bool) \<Rightarrow> ('s \<Rightarrow> bool) \<Rightarrow> bool" where
  "stable st ok I P \<longleftrightarrow> (\<forall>s e t. I s \<longrightarrow> ok s e \<longrightarrow> st s e = Inr t \<longrightarrow> P s \<longrightarrow> P t)"

definition turns ::
  "('s \<Rightarrow> 'e \<Rightarrow> 's result) \<Rightarrow> ('s \<Rightarrow> 'e \<Rightarrow> bool) \<Rightarrow> ('s \<Rightarrow> bool) \<Rightarrow> 'e \<Rightarrow> ('s \<Rightarrow> bool) \<Rightarrow> ('s \<Rightarrow> bool) \<Rightarrow> bool" where
  "turns st ok I e P Q \<longleftrightarrow> (\<forall>s t. I s \<longrightarrow> ok s e \<longrightarrow> st s e = Inr t \<longrightarrow> P s \<longrightarrow> Q t)"

locale transition_system =
  fixes st :: "'s \<Rightarrow> 'e \<Rightarrow> 's result"
    and ok :: "'s \<Rightarrow> 'e \<Rightarrow> bool"
    and inv :: "'s \<Rightarrow> bool"
  assumes step_inv: "inv s \<Longrightarrow> ok s e \<Longrightarrow> \<exists>t. st s e = Inr t \<and> inv t"
begin

lemma run_inv: "inv s \<Longrightarrow> admissible st ok s es \<Longrightarrow> \<exists>t. run_steps st s es = Inr t \<and> inv t"
proof (induction es arbitrary: s)
  case Nil
  then show ?case by simp
next
  case (Cons e es)
  then obtain t where t: "st s e = Inr t" "inv t"
    using step_inv [of s e] by auto
  with Cons.prems have "admissible st ok t es" by simp
  then show ?case using Cons.IH t by simp
qed

lemma run_no_fault: "inv s \<Longrightarrow> admissible st ok s es \<Longrightarrow> run_steps st s es \<noteq> Inl f"
  using run_inv by fastforce

lemma run_result_inv: "inv s \<Longrightarrow> admissible st ok s es \<Longrightarrow> run_steps st s es = Inr t \<Longrightarrow> inv t"
  using run_inv by fastforce

text \<open>A property every step keeps holds at the end of a run; one that a step turns into another is followed through it.\<close>

lemma run_stable:
  "stable st ok inv P \<Longrightarrow> inv s \<Longrightarrow> admissible st ok s es \<Longrightarrow> P s \<Longrightarrow> \<exists>t. run_steps st s es = Inr t \<and> inv t \<and> P t"
proof (induction es arbitrary: s)
  case Nil
  then show ?case by simp
next
  case (Cons e es)
  then obtain t where t: "st s e = Inr t" "inv t" using step_inv [of s e] by auto
  with Cons.prems have "admissible st ok t es" "P t" unfolding stable_def by auto
  then show ?case using Cons.IH [OF Cons.prems(1) t(2)] t(1) by simp
qed

lemma run_leads:
  assumes "stable st ok inv P" "turns st ok inv e P Q"
    and "inv s" "admissible st ok s (es @ e # fs)" "P s"
  shows "\<exists>t. run_steps st s (es @ [e]) = Inr t \<and> inv t \<and> Q t \<and> admissible st ok t fs"
proof -
  have "admissible st ok s es" using assms(4) by (simp add: admissible_append)
  from run_stable [OF assms(1,3) this assms(5)] obtain u where u: "run_steps st s es = Inr u" "inv u" "P u" by blast
  then have a: "admissible st ok u (e # fs)" using assms(4) by (simp add: admissible_append)
  then obtain t where "st u e = Inr t" "inv t" using step_inv [OF u(2), of e] by auto
  with a u assms(2) show ?thesis by (auto simp: run_steps_append turns_def)
qed

end

end
