(* ===== verification/Rtp.thy ===== *)
theory Rtp
  imports Prelude "HOL-Library.Numeral_Type"
begin

text \<open>
  The data the media layer passes around: \<open>src/media/media.h\<close> and \<open>src/media/rtp.h\<close>. A bit field
  of \<open>RtpHeader\<close> is a word of exactly its width, so that an assignment truncates as the C++ one
  does. A heap block behind a \<open>shared_ptr<uint8_t>\<close> is a byte list whose length is the size it was
  allocated with; \<open>memcpy\<close> past the end of either block is the fault \<open>OutOfBounds\<close>.
\<close>

datatype MediaType = H264 | MediaNone

datatype FrameType = VIDEO_FRAME_I | VODEO_FRAME_P | VIDEO_FRAME_B

fun frame_type_code :: "FrameType \<Rightarrow> u8" where
  "frame_type_code VIDEO_FRAME_I = 1"
| "frame_type_code VODEO_FRAME_P = 2"
| "frame_type_code VIDEO_FRAME_B = 3"

datatype MediaChannelId = channel_0 | channel_1

fun channel_num :: "MediaChannelId \<Rightarrow> nat" where
  "channel_num channel_0 = 0"
| "channel_num channel_1 = 1"

definition MAX_MEDIA_CHANNEL :: nat where
  "MAX_MEDIA_CHANNEL = 2"

type_synonym MediaSessionId = u32

record AVFrame =
  frame_buffer :: "byte list"
  frame_size :: u32
  frame_type :: u8
  frame_timestamp :: u32

definition AVFrame_init :: "u32 \<Rightarrow> byte list \<Rightarrow> AVFrame" where
  "AVFrame_init n block = \<lparr>frame_buffer = block, frame_size = n, frame_type = 0, frame_timestamp = 0\<rparr>"

definition RTP_VERSION :: nat where "RTP_VERSION = 2"
definition RTP_HEADER_SIZE :: nat where "RTP_HEADER_SIZE = 12"
definition RTP_TCP_HEAD_SIZE :: nat where "RTP_TCP_HEAD_SIZE = 4"
definition MAX_RTP_PAYLOAD_SIZE :: nat where "MAX_RTP_PAYLOAD_SIZE = 1420"

text \<open>\<open>RtpPacket\<close>'s constructor allocates this many bytes.\<close>

definition RTP_PACKET_BLOCK :: nat where "RTP_PACKET_BLOCK = 1600"

lemmas rtp_sizes = RTP_VERSION_def RTP_HEADER_SIZE_def RTP_TCP_HEAD_SIZE_def MAX_RTP_PAYLOAD_SIZE_def
  RTP_PACKET_BLOCK_def

datatype TransportMode = RTP_OVER_TCP | RTP_OVER_UDP | RTP_OVER_MULTICAST

record RtpHeader =
  hdr_cc :: "4 word"
  hdr_extension :: "1 word"
  hdr_padding :: "1 word"
  hdr_version :: "2 word"
  hdr_payload :: "7 word"
  hdr_marker :: "1 word"
  hdr_seq :: u16
  hdr_ts :: u32
  hdr_ssrc :: u32

text \<open>
  The twelve bytes of the struct in memory: bit fields are filled from the least significant bit,
  the other fields are already in network byte order when they are stored.
\<close>

definition rtp_header_bytes :: "RtpHeader \<Rightarrow> byte list" where
  "rtp_header_bytes h =
     [ucast (hdr_cc h) OR push_bit 4 (ucast (hdr_extension h)) OR push_bit 5 (ucast (hdr_padding h))
        OR push_bit 6 (ucast (hdr_version h)),
      ucast (hdr_payload h) OR push_bit 7 (ucast (hdr_marker h))]
     @ le_bytes 2 (hdr_seq h) @ le_bytes 4 (hdr_ts h) @ le_bytes 4 (hdr_ssrc h)"

record MediaChannelInfo =
  rtpHeader :: RtpHeader
  rtpChannel :: u16
  rtcpChannel :: u16
  rtpPort :: u16
  rtcpPort :: u16
  packetSeq :: u16
  clockRate :: u32
  packetCount :: u64
  octetCount :: u64
  lastRtcpNtpTime :: u64
  isSetup :: bool
  isPlay :: bool
  isRecord :: bool

record RtpPacket =
  pkt_data :: "byte list"
  pkt_size :: u32
  pkt_timestamp :: u32
  pkt_type :: u8
  pkt_last :: u8

definition RtpPacket_init :: "byte list \<Rightarrow> RtpPacket" where
  "RtpPacket_init block =
     \<lparr>pkt_data = block, pkt_size = 0, pkt_timestamp = 0, pkt_type = 0, pkt_last = 0\<rparr>"

definition memcpy :: "byte list \<Rightarrow> nat \<Rightarrow> byte list \<Rightarrow> nat \<Rightarrow> nat \<Rightarrow> byte list result" where
  "memcpy dest d_off source s_off n =
     (if d_off + n \<le> length dest \<and> s_off + n \<le> length source
      then Inr (write_at d_off (segment s_off (s_off + n) source) dest)
      else Inl OutOfBounds)"

lemma length_rtp_header_bytes [simp]: "length (rtp_header_bytes h) = 12"
  by (simp add: rtp_header_bytes_def)

lemma channel_num_less: "channel_num c < MAX_MEDIA_CHANNEL"
  by (cases c) (simp_all add: MAX_MEDIA_CHANNEL_def)

end
