(* ===== verification/H264_Source.thy ===== *)
theory H264_Source
  imports Rtp
begin

text \<open>
  Packetisation of H.264 frames (\<open>src/media/h264_source.cc\<close>, \<open>h264_source.h\<close>,
  \<open>media_source.h\<close>): a frame that fits becomes one packet, a longer one a run of FU-A fragments.
  The callback that delivers packets is a parameter \<open>cb\<close>, a function from the client's state to
  its answer and next state; the blocks \<open>new uint8_t[1600]\<close> returns are a parameter \<open>fresh\<close>
  (the k-th packet gets the k-th block, with whatever bytes it holds).
\<close>

section \<open>The source object\<close>

record MediaSource =
  mediaType :: MediaType
  payloadType :: u32
  sourceClockRate :: u32
  frameRate :: u32

definition H264Source_new :: "u32 \<Rightarrow> MediaSource" where
  "H264Source_new rate =
     \<lparr>mediaType = H264, payloadType = 96, sourceClockRate = 90000, frameRate = rate\<rparr>"

definition setFrameRate :: "u32 \<Rightarrow> MediaSource \<Rightarrow> MediaSource" where
  "setFrameRate rate s = s\<lparr>frameRate := rate\<rparr>"

text \<open>\<open>count\<close>: the steady clock's microseconds.\<close>

definition getTimestamp :: "nat \<Rightarrow> u32" where
  "getTimestamp count = word_of_nat ((count + 500) div 1000 * 90)"

section \<open>One packet\<close>

type_synonym 's send_callback = "MediaChannelId \<Rightarrow> RtpPacket \<Rightarrow> 's \<Rightarrow> bool \<times> 's"

definition single_packet :: "AVFrame \<Rightarrow> byte list \<Rightarrow> RtpPacket result" where
  "single_packet frame block =
     rbind (memcpy block (4 + RTP_HEADER_SIZE) (frame_buffer frame) 0 (unat (frame_size frame)))
       (\<lambda>d. Inr \<lparr>pkt_data = d,
                 pkt_size = frame_size frame + 4 + word_of_nat RTP_HEADER_SIZE,
                 pkt_timestamp = frame_timestamp frame,
                 pkt_type = frame_type frame,
                 pkt_last = 1\<rparr>)"

text \<open>A fragment: the two FU bytes, then \<open>n\<close> bytes of the frame from position \<open>pos\<close>.\<close>

definition fu_packet ::
  "AVFrame \<Rightarrow> byte list \<Rightarrow> byte \<Rightarrow> byte \<Rightarrow> nat \<Rightarrow> nat \<Rightarrow> u32 \<Rightarrow> u8 \<Rightarrow> RtpPacket result" where
  "fu_packet frame block fu0 fu1 pos n psize last_flag =
     (if RTP_HEADER_SIZE + 5 < length block
      then rbind (memcpy (block[RTP_HEADER_SIZE + 4 := fu0, RTP_HEADER_SIZE + 5 := fu1])
                    (4 + RTP_HEADER_SIZE + 2) (frame_buffer frame) pos n)
             (\<lambda>d. Inr \<lparr>pkt_data = d, pkt_size = psize, pkt_timestamp = frame_timestamp frame,
                       pkt_type = frame_type frame, pkt_last = last_flag\<rparr>)
      else Inl OutOfBounds)"

definition send_packet ::
  "'s send_callback option \<Rightarrow> MediaChannelId \<Rightarrow> RtpPacket \<Rightarrow> 's \<Rightarrow> bool \<times> 's" where
  "send_packet cb ch pkt s = (case cb of None \<Rightarrow> (True, s) | Some f \<Rightarrow> f ch pkt s)"

section \<open>handleFrame\<close>

lemma remaining_decreases:
  assumes "word_of_nat MAX_RTP_PAYLOAD_SIZE < (r :: u32) + 2"
  shows "1418 < unat r" and "unat (r - word_of_nat (MAX_RTP_PAYLOAD_SIZE - 2)) = unat r - 1418"
proof -
  have "unat (r + 2) = (unat r + 2) mod 4294967296"
    by (simp add: unat_word_ariths)
  moreover have "1420 < unat (r + 2)"
    using assms by (simp add: word_less_nat_alt rtp_sizes)
  ultimately show *: "1418 < unat r"
    using unsigned_less [of r, where ?'a = nat] by (cases "unat r + 2 < 4294967296") auto
  have "(1418 :: u32) \<le> r"
    using * by (simp add: word_le_nat_alt)
  then show "unat (r - word_of_nat (MAX_RTP_PAYLOAD_SIZE - 2)) = unat r - 1418"
    by (simp add: unat_sub rtp_sizes)
qed

lemma remaining_less:
  "word_of_nat MAX_RTP_PAYLOAD_SIZE < (r :: u32) + 2 \<Longrightarrow>
     unat (r - word_of_nat (MAX_RTP_PAYLOAD_SIZE - 2)) < unat r"
  using remaining_decreases [of r] by simp

text \<open>
  The \<open>while\<close> loop and the block after it. \<open>pos\<close> is how far \<open>frameBuf\<close> has moved, \<open>remaining\<close> is
  \<open>frameSize\<close>, a \<open>uint32_t\<close> whose arithmetic wraps; \<open>k\<close> counts the packets allocated so far.
\<close>

function fu_loop ::
  "'s send_callback option \<Rightarrow> (nat \<Rightarrow> byte list) \<Rightarrow> MediaChannelId \<Rightarrow> AVFrame \<Rightarrow> byte \<Rightarrow>
     nat \<Rightarrow> byte \<Rightarrow> nat \<Rightarrow> u32 \<Rightarrow> 's \<Rightarrow> (bool \<times> 's) result" where
  "fu_loop cb fresh ch frame fu0 k fu1 pos remaining s =
     (if word_of_nat MAX_RTP_PAYLOAD_SIZE < remaining + 2
      then (case fu_packet frame (fresh k) fu0 fu1 pos (MAX_RTP_PAYLOAD_SIZE - 2)
                   (4 + word_of_nat RTP_HEADER_SIZE + word_of_nat MAX_RTP_PAYLOAD_SIZE) 0 of
              Inl e \<Rightarrow> Inl e
            | Inr pkt \<Rightarrow>
                (case send_packet cb ch pkt s of (ok, s') \<Rightarrow>
                   if \<not> ok then Inr (False, s')
                   else fu_loop cb fresh ch frame fu0 (Suc k) (fu1 AND NOT 0x80)
                          (pos + (MAX_RTP_PAYLOAD_SIZE - 2))
                          (remaining - word_of_nat (MAX_RTP_PAYLOAD_SIZE - 2)) s'))
      else (case fu_packet frame (fresh k) fu0 (fu1 OR 0x40) pos (unat remaining)
                   (4 + word_of_nat RTP_HEADER_SIZE + 2 + remaining) 1 of
              Inl e \<Rightarrow> Inl e
            | Inr pkt \<Rightarrow>
                (case send_packet cb ch pkt s of (ok, s') \<Rightarrow>
                   if \<not> ok then Inr (False, s') else Inr (True, s'))))"
  by pat_completeness auto

termination
  by (relation "measure (\<lambda>(cb, fresh, ch, frame, fu0, k, fu1, pos, r, s). unat r)")
    (simp_all add: remaining_less)

declare fu_loop.simps [simp del]

definition handleFrame ::
  "'s send_callback option \<Rightarrow> (nat \<Rightarrow> byte list) \<Rightarrow> nat \<Rightarrow> MediaChannelId \<Rightarrow> AVFrame \<Rightarrow> 's \<Rightarrow> (bool \<times> 's) result" where
  "handleFrame cb fresh now ch frame0 s =
     (let frame = (if frame_timestamp frame0 = 0
                   then frame0\<lparr>frame_timestamp := getTimestamp now\<rparr> else frame0);
          frameSize = frame_size frame
      in if frameSize \<le> word_of_nat MAX_RTP_PAYLOAD_SIZE
         then rbind (single_packet frame (fresh 0))
                (\<lambda>pkt. case send_packet cb ch pkt s of (ok, s') \<Rightarrow>
                   if \<not> ok then Inr (False, s') else Inr (True, s'))
         else (case frame_buffer frame of
                 [] \<Rightarrow> Inl OutOfBounds
               | nal # _ \<Rightarrow>
                   fu_loop cb fresh ch frame ((nal AND 0xE0) OR 28) 0 (0x80 OR (nal AND 0x1f))
                     1 (frameSize - 1) s))"


section \<open>What a receiver makes of the packets\<close>

text \<open>The payload of a packet: what follows the interleaving header and the RTP header.\<close>

definition rtp_payload :: "RtpPacket \<Rightarrow> byte list" where
  "rtp_payload p = segment (4 + RTP_HEADER_SIZE) (unat (pkt_size p)) (pkt_data p)"

text \<open>
  A receiver of RFC 3984 in non-interleaved mode. A payload of type 28 is an FU-A fragment, whose
  start bit opens a NAL unit and whose end bit closes it; the NAL header is put together from both
  FU bytes. A payload of types 24 to 27 or 29 is an aggregate or an FU-B, which this server never
  forms: the receiver stops with \<open>None\<close>, as it does at a protocol violation. Any other payload is a NAL
  unit by itself. A unit, whole or reassembled, is delivered if its type is one that the receiver
  accepts and discarded otherwise; the RFC defines the types 1 to 23 (0, 30 and 31 are undefined).
\<close>

definition nal_type :: "byte list \<Rightarrow> nat" where
  "nal_type u = unat (hd u AND 0x1f)"

definition rfc3984_type :: "nat \<Rightarrow> bool" where
  "rfc3984_type t \<longleftrightarrow> 1 \<le> t \<and> t \<le> 23"

definition structured_type :: "nat \<Rightarrow> bool" where
  "structured_type t \<longleftrightarrow> 24 \<le> t \<and> t \<le> 29"

definition deliver_unit :: "(nat \<Rightarrow> bool) \<Rightarrow> byte list \<Rightarrow> byte list list option \<Rightarrow> byte list list option" where
  "deliver_unit accept u us = (if accept (nal_type u) then map_option (Cons u) us else us)"

fun receive_nals :: "(nat \<Rightarrow> bool) \<Rightarrow> byte list option \<Rightarrow> byte list list \<Rightarrow> byte list list option" where
  "receive_nals accept None [] = Some []"
| "receive_nals accept (Some _) [] = None"
| "receive_nals accept st ((b0 # rest) # ps) =
     (if b0 AND 0x1f = 28
      then (case rest of
              [] \<Rightarrow> None
            | b1 # rest \<Rightarrow>
                let hdr = (b0 AND 0xE0) OR (b1 AND 0x1f) in
                (case st of
                   None \<Rightarrow> if bit b1 7 \<and> \<not> bit b1 6 then receive_nals accept (Some (hdr # rest)) ps else None
                 | Some acc \<Rightarrow>
                     if bit b1 7 \<or> hd acc \<noteq> hdr then None
                     else if bit b1 6 then deliver_unit accept (acc @ rest) (receive_nals accept None ps)
                     else receive_nals accept (Some (acc @ rest)) ps))
      else (case st of
              None \<Rightarrow>
                if structured_type (nal_type (b0 # rest)) then None
                else deliver_unit accept (b0 # rest) (receive_nals accept None ps)
            | Some _ \<Rightarrow> None))"
| "receive_nals accept _ ([] # _) = None"

text \<open>
  The payloads carry the one unit \<open>u\<close>: a receiver gets exactly \<open>u\<close> from them if it accepts the type
  of \<open>u\<close>, and nothing if it does not.
\<close>

definition reassembles :: "byte list list \<Rightarrow> byte list \<Rightarrow> bool" where
  "reassembles ps u \<longleftrightarrow> (\<forall>accept. receive_nals accept None ps = Some (if accept (nal_type u) then [u] else []))"

text \<open>Sending a list of packets until the callback refuses one.\<close>

fun send_all :: "'s send_callback option \<Rightarrow> MediaChannelId \<Rightarrow> RtpPacket list \<Rightarrow> 's \<Rightarrow> bool \<times> 's" where
  "send_all cb ch [] s = (True, s)"
| "send_all cb ch (p # ps) s =
     (case send_packet cb ch p s of (ok, s') \<Rightarrow> if \<not> ok then (False, s') else send_all cb ch ps s')"

definition packet_ok :: "AVFrame \<Rightarrow> RtpPacket \<Rightarrow> bool" where
  "packet_ok frame p \<longleftrightarrow> length (pkt_data p) = RTP_PACKET_BLOCK \<and>
     unat (pkt_size p) = 16 + length (rtp_payload p) \<and> length (rtp_payload p) \<le> MAX_RTP_PAYLOAD_SIZE \<and>
     pkt_timestamp p = frame_timestamp frame \<and> pkt_type p = frame_type frame"

fun last_flags :: "u8 list \<Rightarrow> bool" where
  "last_flags [] = False"
| "last_flags [l] = (l = 1)"
| "last_flags (l # ls) = (l = 0 \<and> last_flags ls)"

lemma last_flags_Cons: "ls \<noteq> [] \<Longrightarrow> last_flags (l # ls) \<longleftrightarrow> l = 0 \<and> last_flags ls"
  by (cases ls) simp_all

lemma single_packet_ok:
  assumes "length block = RTP_PACKET_BLOCK" "unat (frame_size frame) \<le> MAX_RTP_PAYLOAD_SIZE"
    "unat (frame_size frame) \<le> length (frame_buffer frame)"
  shows "\<exists>p. single_packet frame block = Inr p \<and> packet_ok frame p \<and> pkt_last p = 1 \<and>
    rtp_payload p = take (unat (frame_size frame)) (frame_buffer frame)"
proof -
  let ?n = "unat (frame_size frame)"
  let ?d = "write_at 16 (take ?n (frame_buffer frame)) block"
  have n: "?n \<le> 1420" using assms by (simp add: rtp_sizes)
  have sz: "unat (frame_size frame + 4 + 12) = 16 + ?n"
    using n by (simp add: unat_word_ariths)
  have seg: "segment 16 (16 + ?n) ?d = take ?n (frame_buffer frame)"
    using segment_write_at [of 16 "take ?n (frame_buffer frame)" block] n assms
    by (simp add: rtp_sizes)
  have l: "length ?d = 1600"
    using n assms by (simp add: rtp_sizes)
  let ?p = "\<lparr>pkt_data = ?d, pkt_size = frame_size frame + 4 + 12,
       pkt_timestamp = frame_timestamp frame, pkt_type = frame_type frame, pkt_last = 1\<rparr>"
  have "single_packet frame block = Inr ?p"
    using n assms by (simp add: single_packet_def memcpy_def rtp_sizes segment_def)
  moreover have "rtp_payload ?p = take ?n (frame_buffer frame)"
    using seg sz by (simp add: rtp_payload_def rtp_sizes)
  ultimately show ?thesis
    using l sz n assms by (simp add: packet_ok_def rtp_sizes)
qed

lemma fu_packet_ok:
  assumes "length block = RTP_PACKET_BLOCK" "n \<le> MAX_RTP_PAYLOAD_SIZE - 2"
    "pos + n \<le> length (frame_buffer frame)" "unat psize = 18 + n"
  shows "\<exists>p. fu_packet frame block fu0 fu1 pos n psize l = Inr p \<and> packet_ok frame p \<and> pkt_last p = l \<and>
    rtp_payload p = fu0 # fu1 # segment pos (pos + n) (frame_buffer frame)"
proof -
  let ?b = "block[16 := fu0, 17 := fu1]"
  let ?s = "segment pos (pos + n) (frame_buffer frame)"
  let ?d = "write_at 18 ?s ?b"
  have len: "length ?s = n" "length ?b = 1600" "n \<le> 1418"
    using assms by (simp_all add: rtp_sizes)
  have ld: "length ?d = 1600" using len by simp
  have "segment 16 (18 + n) ?d = segment 16 18 ?d @ segment 18 (18 + n) ?d"
    using len ld by (intro segment_append_next [symmetric]) simp_all
  also have "segment 18 (18 + n) ?d = ?s"
    using segment_write_at [of 18 ?s ?b] len by simp
  also have "segment 16 18 ?d = segment 16 18 ?b"
    using len by (intro segment_write_before) simp_all
  also have "segment 16 18 ?b = [fu0, fu1]"
  proof (rule nth_equalityI)
    show "length (segment 16 18 ?b) = length [fu0, fu1]" using len by simp
    fix i
    assume "i < length (segment 16 18 ?b)"
    then have "i < 2" using len by simp
    then have "i = 0 \<or> i = 1" by auto
    then show "segment 16 18 ?b ! i = [fu0, fu1] ! i"
      using len by (auto simp: segment_def)
  qed
  finally have pay: "segment 16 (18 + n) ?d = fu0 # fu1 # ?s" by simp
  let ?p = "\<lparr>pkt_data = ?d, pkt_size = psize, pkt_timestamp = frame_timestamp frame,
       pkt_type = frame_type frame, pkt_last = l\<rparr>"
  have "fu_packet frame block fu0 fu1 pos n psize l = Inr ?p"
    using assms len by (simp add: fu_packet_def memcpy_def rtp_sizes)
  moreover have "rtp_payload ?p = fu0 # fu1 # ?s"
    using pay assms by (simp add: rtp_payload_def rtp_sizes)
  ultimately show ?thesis
    using ld len assms by (simp add: packet_ok_def rtp_sizes)
qed

section \<open>The fragments of a frame\<close>

text \<open>The payloads the loop is meant to produce for the bytes \<open>rest\<close> still to be sent.\<close>

function fu_payloads :: "byte \<Rightarrow> byte \<Rightarrow> byte list \<Rightarrow> byte list list" where
  "fu_payloads fu0 fu1 rest =
     (if 1418 < length rest
      then (fu0 # fu1 # take 1418 rest) # fu_payloads fu0 (fu1 AND NOT 0x80) (drop 1418 rest)
      else [fu0 # (fu1 OR 0x40) # rest])"
  by pat_completeness auto

termination
  by (relation "measure (\<lambda>(fu0, fu1, rest). length rest)") auto

declare fu_payloads.simps [simp del]

lemma fu_loop_packets:
  assumes "\<And>i. length (fresh i) = RTP_PACKET_BLOCK"
    and "pos + unat r \<le> length (frame_buffer frame)" and "unat r + 2 < 2 ^ 32"
  shows "\<exists>pkts. (\<forall>cb s. fu_loop cb fresh ch frame fu0 k fu1 pos r (s :: 's) = Inr (send_all cb ch pkts s)) \<and>
    map rtp_payload pkts = fu_payloads fu0 fu1 (segment pos (pos + unat r) (frame_buffer frame)) \<and>
    list_all (packet_ok frame) pkts \<and> last_flags (map pkt_last pkts)"
  using assms(2,3)
proof (induction "unat r" arbitrary: r k fu1 pos rule: less_induct)
  case less
  have r2: "unat (r + 2) = unat r + 2"
    using less.prems by (simp add: unat_word_ariths)
  let ?seg = "segment pos (pos + unat r) (frame_buffer frame)"
  have lseg: "length ?seg = unat r" using less.prems by simp
  show ?case
  proof (cases "1418 < unat r")
    case True
    then have guard: "word_of_nat MAX_RTP_PAYLOAD_SIZE < r + 2"
      using r2 by (simp add: word_less_nat_alt rtp_sizes)
    note dec = remaining_decreases [OF guard]
    let ?r = "r - word_of_nat (MAX_RTP_PAYLOAD_SIZE - 2)"
    let ?psize = "4 + word_of_nat RTP_HEADER_SIZE + word_of_nat MAX_RTP_PAYLOAD_SIZE :: u32"
    have lt: "unat ?r < unat r" and small: "unat ?r + 2 < 2 ^ 32"
      and bound: "pos + (MAX_RTP_PAYLOAD_SIZE - 2) + unat ?r \<le> length (frame_buffer frame)"
      using dec less.prems True unfolding rtp_sizes by linarith+
    obtain p where p: "fu_packet frame (fresh k) fu0 fu1 pos (MAX_RTP_PAYLOAD_SIZE - 2) ?psize 0 = Inr p"
      "packet_ok frame p" "pkt_last p = 0"
      "rtp_payload p = fu0 # fu1 # segment pos (pos + (MAX_RTP_PAYLOAD_SIZE - 2)) (frame_buffer frame)"
      using fu_packet_ok [OF assms(1), of "MAX_RTP_PAYLOAD_SIZE - 2" pos frame ?psize k fu0 fu1 0]
        less.prems True by (auto simp: rtp_sizes)
    obtain pkts where q: "\<And>cb s. fu_loop cb fresh ch frame fu0 (Suc k) (fu1 AND NOT 0x80) (pos + (MAX_RTP_PAYLOAD_SIZE - 2)) ?r (s :: 's)
          = Inr (send_all cb ch pkts s)"
      "map rtp_payload pkts = fu_payloads fu0 (fu1 AND NOT 0x80)
          (segment (pos + (MAX_RTP_PAYLOAD_SIZE - 2)) (pos + (MAX_RTP_PAYLOAD_SIZE - 2) + unat ?r) (frame_buffer frame))"
      "list_all (packet_ok frame) pkts" "last_flags (map pkt_last pkts)"
      using less.hyps [OF lt bound small, of "Suc k" "fu1 AND NOT 0x80"] by blast
    have "pkts \<noteq> []" using q(4) by auto
    have step: "fu_loop cb fresh ch frame fu0 k fu1 pos r s = Inr (send_all cb ch (p # pkts) s)" for cb :: "'s send_callback option" and s
      using guard p(1) q(1)
      by (subst fu_loop.simps) (simp add: split: prod.splits)
    have pay: "map rtp_payload (p # pkts) = fu_payloads fu0 fu1 ?seg"
      using True p(4) q(2) dec lseg
      by (subst fu_payloads.simps) (simp add: segment_take segment_drop rtp_sizes add.commute)
    have ok: "list_all (packet_ok frame) (p # pkts)" "last_flags (map pkt_last (p # pkts))"
      using p(2,3) q(3,4) \<open>pkts \<noteq> []\<close> by (simp_all add: last_flags_Cons)
    show ?thesis
      by (intro exI [of _ "p # pkts"] conjI allI step pay ok)
  next
    case False
    then have guard: "\<not> word_of_nat MAX_RTP_PAYLOAD_SIZE < r + 2"
      using r2 by (simp add: word_less_nat_alt rtp_sizes)
    let ?psize = "4 + word_of_nat RTP_HEADER_SIZE + 2 + r :: u32"
    have "unat ?psize = 18 + unat r"
      using False by (simp add: unat_word_ariths rtp_sizes)
    then obtain p where p: "fu_packet frame (fresh k) fu0 (fu1 OR 0x40) pos (unat r) ?psize 1 = Inr p"
      "packet_ok frame p" "pkt_last p = 1" "rtp_payload p = fu0 # (fu1 OR 0x40) # ?seg"
      using fu_packet_ok [OF assms(1), of "unat r" pos frame ?psize k fu0 "fu1 OR 0x40" 1]
        less.prems False by (auto simp: rtp_sizes)
    have step: "fu_loop cb fresh ch frame fu0 k fu1 pos r s = Inr (send_all cb ch [p] s)" for cb :: "'s send_callback option" and s
      using guard p(1) by (subst fu_loop.simps) (simp add: split: prod.splits)
    have pay: "map rtp_payload [p] = fu_payloads fu0 fu1 ?seg"
      using False p(4) lseg by (subst fu_payloads.simps) simp
    show ?thesis
      by (rule exI [of _ "[p]"]) (use step pay p in simp)
  qed
qed


section \<open>Reassembly\<close>

lemma byte_bits_eqI: "(\<And>n. n \<in> {0, 1, 2, 3, 4, 5, 6, 7} \<Longrightarrow> bit a n = bit (b :: byte) n) \<Longrightarrow> a = b"
  by (rule bit_word_eqI) (auto simp: numeral_eq_Suc less_Suc_eq)

lemma fu_bits:
  fixes x :: byte
  shows "bit (x OR 0x40) 6"
    and "bit (x OR 0x40) 7 = bit x 7"
    and "bit (0x80 OR (x AND 0x1f)) 7" and "\<not> bit (0x80 OR (x AND 0x1f)) 6"
    and "(x OR 0x40) AND 0x1f = x AND 0x1f"
    and "((x AND 0xE0) OR 28) AND 0x1f = 28"
    and "(((x AND 0xE0) OR 28) AND 0xE0) OR (x AND 0x1f) = x"
    and "(0x80 OR (x AND 0x1f)) AND 0x1f = x AND 0x1f"
    and "(0x80 OR (x AND 0x1f)) AND - 129 = x AND 0x1f"
    and "(x AND 0x1f) AND - 129 = x AND 0x1f"
    and "\<not> bit (x AND 0x1f) 7" and "\<not> bit (x AND 0x1f) 6"
    and "(x AND 0x1f) AND 0x1f = x AND 0x1f"
  by ((rule byte_bits_eqI)?, auto simp: bit_simps)+

lemma receive_fragments:
  "acc \<noteq> [] \<Longrightarrow> hd acc = nal \<Longrightarrow>
     receive_nals accept (Some acc) (fu_payloads ((nal AND 0xE0) OR 28) (nal AND 0x1f) rest @ ps) =
       deliver_unit accept (acc @ rest) (receive_nals accept None ps)"
proof (induction "length rest" arbitrary: rest acc rule: less_induct)
  case less
  show ?case
  proof (cases "1418 < length rest")
    case True
    have "receive_nals accept (Some (acc @ take 1418 rest))
        (fu_payloads ((nal AND 0xE0) OR 28) (nal AND 0x1f) (drop 1418 rest) @ ps) =
        deliver_unit accept ((acc @ take 1418 rest) @ drop 1418 rest) (receive_nals accept None ps)"
      using less.prems True by (intro less.hyps) simp_all
    with True less.prems show ?thesis
      by (subst fu_payloads.simps) (simp add: fu_bits Let_def)
  next
    case False
    with less.prems show ?thesis
      by (subst fu_payloads.simps) (simp add: fu_bits Let_def)
  qed
qed

lemma receive_frame:
  "1418 < length rest \<Longrightarrow>
     receive_nals accept None (fu_payloads ((nal AND 0xE0) OR 28) (0x80 OR (nal AND 0x1f)) rest @ ps) =
       deliver_unit accept (nal # rest) (receive_nals accept None ps)"
  using receive_fragments [of "nal # take 1418 rest" nal accept "drop 1418 rest" ps]
  by (subst fu_payloads.simps) (simp add: fu_bits Let_def)

definition stamp :: "nat \<Rightarrow> AVFrame \<Rightarrow> AVFrame" where
  "stamp now f = (if frame_timestamp f = 0 then f\<lparr>frame_timestamp := getTimestamp now\<rparr> else f)"

text \<open>What \<open>handleFrame\<close> relies on: a non-empty buffer of the announced size, whose arithmetic does not wrap.\<close>

definition frame_wf :: "AVFrame \<Rightarrow> bool" where
  "frame_wf f \<longleftrightarrow> frame_buffer f \<noteq> [] \<and> unat (frame_size f) = length (frame_buffer f) \<and>
     length (frame_buffer f) < 2 ^ 32 - 1"

text \<open>
  A frame short enough for one packet must not have the type of an aggregate or a fragment, which a
  receiver would take it for.
\<close>

definition plain_unit :: "byte list \<Rightarrow> bool" where
  "plain_unit u \<longleftrightarrow> (length u \<le> MAX_RTP_PAYLOAD_SIZE \<longrightarrow> \<not> structured_type (nal_type u))"

lemma rfc3984_plain: "rfc3984_type (nal_type u) \<Longrightarrow> plain_unit u"
  by (simp add: plain_unit_def rfc3984_type_def structured_type_def)

lemma receive_single:
  assumes "p \<noteq> []" "\<not> structured_type (nal_type p)"
  shows "reassembles [p] p"
proof -
  obtain b0 rest where p: "p = b0 # rest" using assms(1) by (cases p) simp_all
  then have "b0 AND 0x1f \<noteq> 28" using assms(2) by (auto simp: structured_type_def nal_type_def)
  with assms(2) show ?thesis by (simp add: reassembles_def deliver_unit_def p)
qed

lemma handleFrame_packets:
  assumes "\<And>i. length (fresh i) = RTP_PACKET_BLOCK" and "frame_wf f"
  shows "\<exists>pkts. (\<forall>cb s. handleFrame cb fresh now ch f (s :: 's) = Inr (send_all cb ch pkts s)) \<and>
    (plain_unit (frame_buffer f) \<longrightarrow> reassembles (map rtp_payload pkts) (frame_buffer f)) \<and>
    list_all (packet_ok (stamp now f)) pkts \<and> last_flags (map pkt_last pkts)"
proof (cases "length (frame_buffer f) \<le> MAX_RTP_PAYLOAD_SIZE")
  case True
  let ?f = "stamp now f"
  have sz: "unat (frame_size ?f) = length (frame_buffer ?f)" and buf: "frame_buffer ?f = frame_buffer f"
    using assms(2) by (simp_all add: stamp_def frame_wf_def)
  then obtain p where p: "single_packet ?f (fresh 0) = Inr p" "packet_ok ?f p" "pkt_last p = 1"
      "rtp_payload p = frame_buffer f"
    using single_packet_ok [OF assms(1), of ?f 0] True by auto
  have guard: "frame_size ?f \<le> word_of_nat MAX_RTP_PAYLOAD_SIZE"
    using True sz buf by (simp add: word_le_nat_alt rtp_sizes)
  have "handleFrame cb fresh now ch f s = Inr (send_all cb ch [p] s)" for cb and s :: 's
    using guard p(1) by (simp add: handleFrame_def stamp_def [symmetric] Let_def split: prod.splits)
  moreover have "reassembles [frame_buffer f] (frame_buffer f)" if "plain_unit (frame_buffer f)"
    using assms(2) True that by (intro receive_single) (simp_all add: frame_wf_def plain_unit_def)
  ultimately show ?thesis
    using p by (intro exI [of _ "[p]"]) simp
next
  case False
  let ?f = "stamp now f"
  obtain nal rest where nr: "frame_buffer f = nal # rest"
    using assms(2) by (cases "frame_buffer f") (simp_all add: frame_wf_def)
  have sz: "unat (frame_size ?f) = Suc (length rest)" and buf: "frame_buffer ?f = nal # rest"
    and big: "1418 < length rest" "length rest + 2 < 2 ^ 32"
    using assms(2) nr False by (simp_all add: stamp_def frame_wf_def rtp_sizes)
  have one: "1 \<le> frame_size ?f" using sz by (simp add: word_le_nat_alt)
  have r: "unat (frame_size ?f - 1) = length rest"
    using one sz by (simp add: unat_sub)
  have guard: "\<not> frame_size ?f \<le> word_of_nat MAX_RTP_PAYLOAD_SIZE"
    using False sz nr by (simp add: word_le_nat_alt rtp_sizes)
  obtain pkts where q:
    "\<And>cb s. fu_loop cb fresh ch ?f ((nal AND 0xE0) OR 28) 0 (0x80 OR (nal AND 0x1f)) 1 (frame_size ?f - 1) (s :: 's)
       = Inr (send_all cb ch pkts s)"
    "map rtp_payload pkts = fu_payloads ((nal AND 0xE0) OR 28) (0x80 OR (nal AND 0x1f)) (segment 1 (1 + length rest) (nal # rest))"
    "list_all (packet_ok ?f) pkts" "last_flags (map pkt_last pkts)"
    using fu_loop_packets [where fresh = fresh and pos = 1 and r = "frame_size ?f - 1" and frame = ?f and ch = ch
        and ?fu0.0 = "(nal AND 0xE0) OR 28" and k = 0 and ?fu1.0 = "0x80 OR (nal AND 0x1f)" and ?'s = 's, OF assms(1)]
      r buf big by auto
  have "segment 1 (1 + length rest) (nal # rest) = rest"
    by (simp add: segment_def)
  then have "(plain_unit (frame_buffer f) \<longrightarrow> reassembles (map rtp_payload pkts) (frame_buffer f))"
    using receive_frame [OF big(1), where ps = "[]" and nal = nal] q(2) nr by (simp add: reassembles_def deliver_unit_def)
  moreover have "handleFrame cb fresh now ch f s = Inr (send_all cb ch pkts s)" for cb and s :: 's
    using guard q(1) buf by (simp add: handleFrame_def stamp_def [symmetric] Let_def)
  ultimately show ?thesis
    using q(3,4) by blast
qed

section \<open>Properties\<close>

text \<open>
  C11: Packetisation is lossless: whatever callback delivers them, \<open>handleFrame\<close> offers it one fixed
  list of packets in order until it refuses one, and from the payloads of that list a
  receiver of RFC 3984 gets back exactly the frame, in single-packet and FU-A mode alike, if the
  type in the frame's first byte is one of the RFC's NAL unit types 1 to 23. A frame of type 0,
  which includes one that starts with its start code, is sent just as well, and that receiver
  discards it; a receiver that lets the type pass gets exactly the frame.
\<close>

theorem handleFrame_roundtrip:
  assumes "\<And>i. length (fresh i) = RTP_PACKET_BLOCK" and "frame_wf f" and "nal_type (frame_buffer f) \<le> 23"
  shows "\<exists>pkts. (\<forall>cb s. handleFrame cb fresh now ch f (s :: 's) = Inr (send_all cb ch pkts s)) \<and>
    receive_nals rfc3984_type None (map rtp_payload pkts) =
      Some (if 1 \<le> nal_type (frame_buffer f) then [frame_buffer f] else []) \<and>
    receive_nals (\<lambda>t. t \<le> 23) None (map rtp_payload pkts) = Some [frame_buffer f]"
proof -
  have "plain_unit (frame_buffer f)" using assms(3) by (simp add: plain_unit_def structured_type_def)
  then show ?thesis
    using handleFrame_packets [where fresh = fresh and now = now and ch = ch and ?'s = 's, OF assms(1,2)] assms(3)
    by (fastforce simp: reassembles_def rfc3984_type_def)
qed

theorem handleFrame_roundtrip_witness:
  "\<exists>pkts. (\<forall>cb s. handleFrame cb (\<lambda>i. replicate 1600 0) 0 channel_0
        \<lparr>frame_buffer = 0x65 # replicate 2999 7, frame_size = 3000, frame_type = 0, frame_timestamp = 9\<rparr> (s :: nat)
      = Inr (send_all cb channel_0 pkts s)) \<and>
    receive_nals rfc3984_type None (map rtp_payload pkts) = Some [0x65 # replicate 2999 7]"
proof -
  let ?f = "\<lparr>frame_buffer = 0x65 # replicate 2999 7, frame_size = 3000, frame_type = 0, frame_timestamp = 9\<rparr>"
  have w: "frame_wf ?f"
    by (simp add: frame_wf_def)
  have l: "length (replicate 1600 (0 :: byte)) = RTP_PACKET_BLOCK"
    by (simp add: rtp_sizes)
  have t: "nal_type (frame_buffer ?f) = 5" by (simp add: nal_type_def)
  then have "nal_type (frame_buffer ?f) \<le> 23" by simp
  from handleFrame_roundtrip [where fresh = "\<lambda>i. replicate 1600 0" and now = 0 and ch = channel_0 and ?'s = nat, OF l w this]
  show ?thesis unfolding t by simp blast
qed

text \<open>
  C28: Bounds of the packets: none of \<open>handleFrame\<close>'s writes leaves the 1600-byte block, every
  packet announces exactly 16 bytes of headers and its payload of at most 1420 bytes, carries the
  frame's (or else the clock's) timestamp, and \<open>last\<close>, the RTP marker, is set on the final
  packet of the frame only.
\<close>

theorem handleFrame_packet_bounds:
  assumes "\<And>i. length (fresh i) = RTP_PACKET_BLOCK" and "frame_wf f"
  shows "\<exists>pkts. handleFrame (Some (\<lambda>c p out. (True, out @ [p]))) fresh now ch f [] = Inr (True, pkts) \<and>
    list_all (packet_ok (stamp now f)) pkts \<and> last_flags (map pkt_last pkts)"
proof -
  have rec: "send_all (Some (\<lambda>c p out. (True, out @ [p]))) ch pkts out = (True, out @ pkts)" for pkts out
    by (induction pkts arbitrary: out) (simp_all add: send_packet_def)
  show ?thesis
    using handleFrame_packets [where fresh = fresh and now = now and ch = ch and ?'s = "RtpPacket list", OF assms] by (auto simp: rec)
qed

theorem handleFrame_packet_bounds_witness:
  "\<exists>pkts. handleFrame (Some (\<lambda>c p out. (True, out @ [p]))) (\<lambda>i. replicate 1600 0) 500 channel_1
      \<lparr>frame_buffer = 0x41 # replicate 1999 1, frame_size = 2000, frame_type = 0, frame_timestamp = 0\<rparr> []
      = Inr (True, pkts) \<and> last_flags (map pkt_last pkts) \<and>
    (\<forall>p \<in> set pkts. pkt_timestamp p = 90)"
proof -
  let ?f = "\<lparr>frame_buffer = 0x41 # replicate 1999 1, frame_size = 2000, frame_type = 0, frame_timestamp = 0\<rparr>"
  have w: "frame_wf ?f"
    by (simp add: frame_wf_def rtp_sizes)
  have l: "length (replicate 1600 (0 :: byte)) = RTP_PACKET_BLOCK"
    by (simp add: rtp_sizes)
  have ts: "frame_timestamp (stamp 500 ?f) = 90"
    by (simp add: stamp_def getTimestamp_def)
  show ?thesis
    using handleFrame_packet_bounds [where fresh = "\<lambda>i. replicate 1600 0" and now = 500 and ch = channel_1, OF l w] ts
    by (auto simp: list_all_iff packet_ok_def)
qed

end
