(* ===== verification/CString.thy ===== *)
theory CString
  imports Prelude
begin

text \<open>
  The C library calls the program formats and parses text with: the part of \<open>sscanf\<close> its format
  strings use (\<open>%s\<close>, \<open>%[^c]\<close>, \<open>%*[^c]\<close>, \<open>%u\<close>, \<open>%hu\<close>, white space and literal characters), the decimal
  conversions of \<open>printf\<close>, and \<open>snprintf\<close>'s truncation. Numbers are read as glibc's
  \<open>strtoul\<close> does (64-bit, saturating, a leading minus negates).
\<close>

section \<open>Characters\<close>

definition is_space :: "char \<Rightarrow> bool" where
  "is_space c \<longleftrightarrow> c = CHR '' '' \<or> (9 \<le> (of_char c :: nat) \<and> (of_char c :: nat) \<le> 13)"

definition is_digit :: "char \<Rightarrow> bool" where
  "is_digit c \<longleftrightarrow> 48 \<le> (of_char c :: nat) \<and> (of_char c :: nat) \<le> 57"

definition digit_val :: "char \<Rightarrow> nat" where
  "digit_val c = of_char c - 48"

definition digit_char :: "nat \<Rightarrow> char" where
  "digit_char d = char_of (48 + d)"

abbreviation crlf :: string where
  "crlf \<equiv> [CHR 0x0D, CHR 0x0A]"

text \<open>\<open>c_str\<close>: what a C function sees of a \<open>std::string\<close>, up to the first NUL.\<close>

definition c_str :: "string \<Rightarrow> string" where
  "c_str s = takeWhile (\<lambda>c. c \<noteq> CHR 0x00) s"

section \<open>Decimal output\<close>

fun nat_str :: "nat \<Rightarrow> string" where
  "nat_str n = (if n < 10 then [digit_char n] else nat_str (n div 10) @ [digit_char (n mod 10)])"

declare nat_str.simps [simp del]

definition int_str :: "int \<Rightarrow> string" where
  "int_str i = (if i < 0 then CHR ''-'' # nat_str (nat (- i)) else nat_str (nat i))"

text \<open>\<open>%u\<close> and \<open>%d\<close> given the same 32-bit argument.\<close>

definition fmt_u :: "u32 \<Rightarrow> string" where
  "fmt_u x = nat_str (unat x)"

definition fmt_d :: "u32 \<Rightarrow> string" where
  "fmt_d x = int_str (sint x)"

text \<open>\<open>snprintf(buf, n, ...)\<close> stores at most \<open>n - 1\<close> characters.\<close>

definition snprintf :: "nat \<Rightarrow> string \<Rightarrow> string" where
  "snprintf n s = take (n - 1) s"

definition strlen :: "string \<Rightarrow> nat" where
  "strlen s = length (c_str s)"

section \<open>Decimal input\<close>

definition digits_val :: "string \<Rightarrow> nat" where
  "digits_val ds = foldl (\<lambda>a c. 10 * a + digit_val c) 0 ds"

definition ulong_max :: nat where
  "ulong_max = 2 ^ 64 - 1"

definition strtoul_val :: "bool \<Rightarrow> nat \<Rightarrow> u64" where
  "strtoul_val neg v =
     (if ulong_max < v then word_of_nat ulong_max
      else if neg then - word_of_nat v else word_of_nat v)"

section \<open>sscanf\<close>

datatype directive = ScanWs | ScanLit char | ScanStr | ScanNot char | SkipNot char | ScanUInt

fun scan_format :: "string \<Rightarrow> directive list" where
  "scan_format [] = []"
| "scan_format (c # cs) =
     (if c = CHR ''%'' then
        (case cs of
           d1 # ds \<Rightarrow>
             (if d1 = CHR ''s'' then ScanStr # scan_format ds
              else if d1 = CHR ''u'' then ScanUInt # scan_format ds
              else if d1 = CHR ''h'' then ScanUInt # scan_format (drop 1 ds)
              else if d1 = CHR ''['' then ScanNot (hd (drop 1 ds)) # scan_format (drop 3 ds)
              else SkipNot (hd (drop 2 ds)) # scan_format (drop 4 ds))
         | [] \<Rightarrow> [])
      else if is_space c then ScanWs # scan_format cs
      else ScanLit c # scan_format cs)"

datatype scanned = SStr string | SNum u64

definition skip_space :: "string \<Rightarrow> string" where
  "skip_space s = dropWhile is_space s"

fun scan_sign :: "string \<Rightarrow> bool \<times> string" where
  "scan_sign [] = (False, [])"
| "scan_sign (c # cs) =
     (if c = CHR ''-'' then (True, cs) else if c = CHR ''+'' then (False, cs) else (False, c # cs))"

text \<open>
  The converted items in order, up to the first directive that fails; the return value of
  \<open>sscanf\<close> is their number (or \<open>EOF\<close> if there is none, which no caller distinguishes).
\<close>

fun sscanf :: "string \<Rightarrow> directive list \<Rightarrow> scanned list" where
  "sscanf s [] = []"
| "sscanf s (ScanWs # ds) = sscanf (skip_space s) ds"
| "sscanf s (ScanLit c # ds) =
     (case s of [] \<Rightarrow> [] | x # xs \<Rightarrow> if x = c then sscanf xs ds else [])"
| "sscanf s (ScanStr # ds) =
     (let s1 = skip_space s; w = takeWhile (\<lambda>c. \<not> is_space c) s1
      in if w = [] then [] else SStr w # sscanf (drop (length w) s1) ds)"
| "sscanf s (ScanNot c # ds) =
     (let w = takeWhile (\<lambda>x. x \<noteq> c) s
      in if w = [] then [] else SStr w # sscanf (drop (length w) s) ds)"
| "sscanf s (SkipNot c # ds) =
     (let w = takeWhile (\<lambda>x. x \<noteq> c) s
      in if w = [] then [] else sscanf (drop (length w) s) ds)"
| "sscanf s (ScanUInt # ds) =
     (case scan_sign (skip_space s) of (neg, s1) \<Rightarrow>
        (let w = takeWhile is_digit s1
         in if w = [] then []
            else SNum (strtoul_val neg (digits_val w)) # sscanf (drop (length w) s1) ds))"

section \<open>Lemmas\<close>

lemma of_char_digit_char [simp]: "d < 10 \<Longrightarrow> (of_char (digit_char d) :: nat) = 48 + d"
  by (simp add: digit_char_def)

lemma digit_val_digit_char [simp]: "d < 10 \<Longrightarrow> digit_val (digit_char d) = d"
  by (simp add: digit_val_def)

lemma is_digit_digit_char [simp]: "d < 10 \<Longrightarrow> is_digit (digit_char d)"
  by (simp add: is_digit_def)

lemma is_digit_not_space: "is_digit c \<Longrightarrow> \<not> is_space c"
  by (auto simp: is_digit_def is_space_def)

lemma is_digit_not_sign: "is_digit c \<Longrightarrow> c \<noteq> CHR ''-'' \<and> c \<noteq> CHR ''+''"
  by (auto simp: is_digit_def)

lemma nat_str_nonempty [simp]: "nat_str n \<noteq> []"
  by (subst nat_str.simps) simp

lemma nat_str_digits: "\<forall>c \<in> set (nat_str n). is_digit c"
proof (induction n rule: nat_str.induct)
  case (1 n)
  then show ?case by (subst nat_str.simps) auto
qed

lemma digits_val_snoc: "digits_val (ds @ [c]) = 10 * digits_val ds + digit_val c"
  by (simp add: digits_val_def)

lemma digits_val_nat_str [simp]: "digits_val (nat_str n) = n"
proof (induction n rule: nat_str.induct)
  case (1 n)
  show ?case
  proof (cases "n < 10")
    case True
    then show ?thesis by (subst nat_str.simps) (simp add: digits_val_def)
  next
    case False
    with 1 have "digits_val (nat_str (n div 10)) = n div 10" by simp
    with False show ?thesis by (subst nat_str.simps) (simp add: digits_val_snoc)
  qed
qed

lemma takeWhile_prefix:
  "\<forall>x \<in> set xs. P x \<Longrightarrow> ys = [] \<or> \<not> P (hd ys) \<Longrightarrow> takeWhile P (xs @ ys) = xs"
  by (induction xs) (auto simp: takeWhile_eq_Nil_iff)

lemma takeWhile_digits:
  "rest = [] \<or> \<not> is_digit (hd rest) \<Longrightarrow> takeWhile is_digit (nat_str n @ rest) = nat_str n"
  by (rule takeWhile_prefix) (simp_all add: nat_str_digits)

lemma nat_str_hd: "is_digit (hd (nat_str n))"
  using nat_str_digits [of n] by (cases "nat_str n") simp_all

lemma skip_space_id: "s = [] \<or> \<not> is_space (hd s) \<Longrightarrow> skip_space s = s"
  by (cases s) (simp_all add: skip_space_def)

lemma skip_space_nat_str [simp]: "skip_space (nat_str n @ rest) = nat_str n @ rest"
  using nat_str_hd [of n] by (intro skip_space_id) (simp add: is_digit_not_space)

lemma scan_sign_nat_str [simp]: "scan_sign (nat_str n @ rest) = (False, nat_str n @ rest)"
  using nat_str_hd [of n] is_digit_not_sign by (cases "nat_str n") (auto dest: is_digit_not_sign)

text \<open>Reading back a printed number.\<close>

lemma sscanf_uint_nat_str:
  "n \<le> ulong_max \<Longrightarrow> rest = [] \<or> \<not> is_digit (hd rest) \<Longrightarrow>
     sscanf (nat_str n @ rest) (ScanUInt # ds) = SNum (word_of_nat n) # sscanf rest ds"
  by (simp add: takeWhile_digits strtoul_val_def)

lemma sscanf_str_word:
  "w \<noteq> [] \<Longrightarrow> \<forall>c \<in> set w. \<not> is_space c \<Longrightarrow> rest = [] \<or> is_space (hd rest) \<Longrightarrow>
     sscanf (w @ rest) (ScanStr # ds) = SStr w # sscanf rest ds"
proof -
  assume a: "w \<noteq> []" "\<forall>c \<in> set w. \<not> is_space c" "rest = [] \<or> is_space (hd rest)"
  then have "skip_space (w @ rest) = w @ rest"
    by (intro skip_space_id) (cases w, simp_all)
  moreover have "takeWhile (\<lambda>c. \<not> is_space c) (w @ rest) = w"
    using a by (intro takeWhile_prefix) auto
  ultimately show ?thesis using a(1) by (simp add: Let_def)
qed

lemma takeWhile_not:
  "d \<notin> set w \<Longrightarrow> rest = [] \<or> hd rest = d \<Longrightarrow> takeWhile (\<lambda>x. x \<noteq> d) (w @ rest) = w"
  by (rule takeWhile_prefix) auto

lemma sscanf_not_word:
  "w \<noteq> [] \<Longrightarrow> d \<notin> set w \<Longrightarrow> rest = [] \<or> hd rest = d \<Longrightarrow>
     sscanf (w @ rest) (ScanNot d # ds) = SStr w # sscanf rest ds"
  by (simp add: Let_def takeWhile_not)

lemma sscanf_skip_word:
  "w \<noteq> [] \<Longrightarrow> d \<notin> set w \<Longrightarrow> rest = [] \<or> hd rest = d \<Longrightarrow>
     sscanf (w @ rest) (SkipNot d # ds) = sscanf rest ds"
  by (simp add: Let_def takeWhile_not)

lemma length_snprintf: "0 < n \<Longrightarrow> length (snprintf n s) < n"
  by (simp add: snprintf_def)

lemma snprintf_fits: "length s < n \<Longrightarrow> snprintf n s = s"
  by (simp add: snprintf_def)

lemma c_str_id: "CHR 0x00 \<notin> set s \<Longrightarrow> c_str s = s"
  unfolding c_str_def by (subst takeWhile_eq_all_conv) auto

lemma c_str_no_nul: "CHR 0x00 \<notin> set (c_str s)"
  unfolding c_str_def by (auto dest: set_takeWhileD)

lemma length_nat_str: "n < 10 ^ k \<Longrightarrow> 0 < k \<Longrightarrow> length (nat_str n) \<le> k"
proof (induction k arbitrary: n)
  case 0
  then show ?case by simp
next
  case (Suc k)
  show ?case
  proof (cases "n < 10")
    case True
    then show ?thesis by (subst nat_str.simps) simp
  next
    case False
    then have "0 < k" using Suc.prems(1) by (cases k) simp_all
    moreover have "n div 10 < 10 ^ k" using Suc.prems(1) by (simp add: less_mult_imp_div_less)
    ultimately have "length (nat_str (n div 10)) \<le> k" using Suc.IH by simp
    with False show ?thesis by (subst nat_str.simps) simp
  qed
qed

lemma unat32_less: "unat (x :: u32) < 4294967296"
  using unsigned_less [of x, where ?'a = nat] by simp

lemma unat16_less: "unat (x :: u16) < 65536"
  using unsigned_less [of x, where ?'a = nat] by simp

lemma length_fmt_u: "length (fmt_u x) \<le> 10"
  unfolding fmt_u_def by (rule length_nat_str) (use unat32_less [of x] in simp_all)

lemma nat_str_no_nul [simp]: "CHR 0x00 \<notin> set (nat_str n)"
  using nat_str_digits [of n] by (auto simp: is_digit_def)

end
