(* ===== verification/Rtp_Connection.thy ===== *)
theory Rtp_Connection
  imports Rtp CString "HOL-Library.Signed_Division"
begin

text \<open>
  One RTSP client's RTP side: \<open>src/media/rtp_connection.h\<close>, \<open>rtp_connection.cc\<close>. The result of
  \<open>_tcpConn.lock()\<close> (the descriptor and name of the TCP connection while it exists), the random
  device and the answers of \<open>socket\<close>, \<open>bind\<close>, \<open>getpeername\<close> and \<open>sendto\<close> are arguments. A per-channel
  array is a function of the channel. What is sent is returned as a list of outputs, the
  descriptors opened and closed as a list of events.
\<close>

section \<open>State\<close>

record RtpConnection =
  isClosed :: bool
  hasIDRFrame :: bool
  transportMode :: TransportMode
  frameType :: u8
  localRtpPort :: "MediaChannelId \<Rightarrow> u16"
  localRtcpPort :: "MediaChannelId \<Rightarrow> u16"
  rtpfd :: "MediaChannelId \<Rightarrow> int"
  rtcpfd :: "MediaChannelId \<Rightarrow> int"
  peerAddr :: u32
  peerRtpAddr :: "MediaChannelId \<Rightarrow> u32 \<times> u16"
  peerRtcpAddr :: "MediaChannelId \<Rightarrow> u32 \<times> u16"
  mediaChannelInfo :: "MediaChannelId \<Rightarrow> MediaChannelInfo"

record tcp_ref =
  tcp_fd :: int
  tcp_name :: string

datatype fd_event = Opened int | Closed int

datatype rtp_out = TcpSend "byte list" | UdpSend int "u32 \<times> u16" "byte list"

definition htonl :: "u32 \<Rightarrow> u32" where "htonl x = byte_swap 4 x"
definition htons :: "u16 \<Rightarrow> u16" where "htons x = byte_swap 2 x"

text \<open>\<open>memset\<close> to zero, then version, random sequence number, timestamp and source.\<close>

definition MediaChannelInfo_init :: "u32 \<Rightarrow> u32 \<Rightarrow> u32 \<Rightarrow> MediaChannelInfo" where
  "MediaChannelInfo_init r1 r2 r3 =
     \<lparr>rtpHeader = \<lparr>hdr_cc = 0, hdr_extension = 0, hdr_padding = 0, hdr_version = word_of_nat RTP_VERSION,
                  hdr_payload = 0, hdr_marker = 0, hdr_seq = 0, hdr_ts = htonl r2, hdr_ssrc = htonl r3\<rparr>,
      rtpChannel = 0, rtcpChannel = 0, rtpPort = 0, rtcpPort = 0, packetSeq = ucast (r1 mod 0xffff),
      clockRate = 0, packetCount = 0, octetCount = 0, lastRtcpNtpTime = 0,
      isSetup = False, isPlay = False, isRecord = False\<rparr>"

text \<open>The other members keep what the memory held.\<close>

definition RtpConnection_new :: "(nat \<Rightarrow> u32) \<Rightarrow> RtpConnection \<Rightarrow> RtpConnection" where
  "RtpConnection_new rd memory =
     memory\<lparr>isClosed := False, hasIDRFrame := False, frameType := 0,
            rtpfd := (\<lambda>chn. 0), rtcpfd := (\<lambda>chn. 0),
            mediaChannelInfo := (\<lambda>chn. let i = 3 * channel_num chn
                                        in MediaChannelInfo_init (rd i) (rd (i + 1)) (rd (i + 2)))\<rparr>"

definition upd_info :: "MediaChannelId \<Rightarrow> (MediaChannelInfo \<Rightarrow> MediaChannelInfo) \<Rightarrow> RtpConnection \<Rightarrow> RtpConnection" where
  "upd_info chn f c = c\<lparr>mediaChannelInfo := (mediaChannelInfo c)(chn := f (mediaChannelInfo c chn))\<rparr>"

definition setClockRate :: "MediaChannelId \<Rightarrow> u32 \<Rightarrow> RtpConnection \<Rightarrow> RtpConnection" where
  "setClockRate chn rate c = upd_info chn (\<lambda>i. i\<lparr>clockRate := rate\<rparr>) c"

definition setPayloadType :: "MediaChannelId \<Rightarrow> u32 \<Rightarrow> RtpConnection \<Rightarrow> RtpConnection" where
  "setPayloadType chn payload c = upd_info chn (\<lambda>i. i\<lparr>rtpHeader := (rtpHeader i)\<lparr>hdr_payload := ucast payload\<rparr>\<rparr>) c"

definition getRtpSessionId :: "u64 \<Rightarrow> u32" where
  "getRtpSessionId this = ucast this"

definition getLocalRtpPort :: "MediaChannelId \<Rightarrow> RtpConnection \<Rightarrow> u16" where
  "getLocalRtpPort chn c = localRtpPort c chn"

definition getLocalRtcpPort :: "MediaChannelId \<Rightarrow> RtpConnection \<Rightarrow> u16" where
  "getLocalRtcpPort chn c = localRtcpPort c chn"

text \<open>The destructor closes every descriptor above 0.\<close>

definition close_fds :: "int \<Rightarrow> int \<Rightarrow> fd_event list" where
  "close_fds a b = (if 0 < a then [Closed a] else []) @ (if 0 < b then [Closed b] else [])"

definition RtpConnection_destroy :: "RtpConnection \<Rightarrow> fd_event list" where
  "RtpConnection_destroy c =
     close_fds (rtpfd c channel_0) (rtcpfd c channel_0) @ close_fds (rtpfd c channel_1) (rtcpfd c channel_1)"

definition getId :: "tcp_ref option \<Rightarrow> string" where
  "getId tcp = (case tcp of None \<Rightarrow> '''' | Some t \<Rightarrow> tcp_name t)"

section \<open>Setup\<close>

definition setupRtpOverTcp ::
  "tcp_ref option \<Rightarrow> MediaChannelId \<Rightarrow> u16 \<Rightarrow> u16 \<Rightarrow> RtpConnection \<Rightarrow> bool \<times> RtpConnection" where
  "setupRtpOverTcp tcp chn rtpChn rtcpChn c =
     (case tcp of
        None \<Rightarrow> (False, c)
      | Some t \<Rightarrow>
          (True,
           (upd_info chn (\<lambda>i. i\<lparr>rtpChannel := rtpChn, rtcpChannel := rtcpChn, isSetup := True\<rparr>) c)
             \<lparr>rtpfd := (rtpfd c)(chn := tcp_fd t), rtcpfd := (rtcpfd c)(chn := tcp_fd t),
              transportMode := RTP_OVER_TCP\<rparr>))"

text \<open>One attempt: the random number, the two sockets and whether each could be bound.\<close>

record udp_attempt =
  att_random :: u32
  att_rtpfd :: int
  att_rtp_bound :: bool
  att_rtcpfd :: int
  att_rtcp_bound :: bool

text \<open>
  The loop makes attempts 0 to 9; at 10 it gives up. \<open>udp_try left att n c\<close> is the loop at
  \<open>n\<close> with \<open>left = 10 - n\<close>.
\<close>

fun udp_try :: "nat \<Rightarrow> (nat \<Rightarrow> udp_attempt) \<Rightarrow> nat \<Rightarrow> MediaChannelId \<Rightarrow> RtpConnection \<Rightarrow> bool \<times> fd_event list \<times> RtpConnection" where
  "udp_try 0 att n chn c = (False, [], c)"
| "udp_try (Suc left) att n chn c =
     (let a = att n;
          port = ucast (att_random a AND 0xfffe);
          c = c\<lparr>localRtpPort := (localRtpPort c)(chn := port), localRtcpPort := (localRtcpPort c)(chn := port + 1),
                rtpfd := (rtpfd c)(chn := att_rtpfd a)\<rparr>
      in if \<not> att_rtp_bound a
         then (case udp_try left att (n + 1) chn c of
                 (ok, evs, c') \<Rightarrow> (ok, Opened (att_rtpfd a) # Closed (att_rtpfd a) # evs, c'))
         else (let c = c\<lparr>rtcpfd := (rtcpfd c)(chn := att_rtcpfd a)\<rparr>
               in if \<not> att_rtcp_bound a
                  then (case udp_try left att (n + 1) chn c of
                          (ok, evs, c') \<Rightarrow>
                            (ok, Opened (att_rtpfd a) # Opened (att_rtcpfd a) #
                                 Closed (att_rtcpfd a) # Closed (att_rtpfd a) # evs, c'))
                  else (True, [Opened (att_rtpfd a), Opened (att_rtcpfd a)], c)))"

definition udp_attempts :: nat where
  "udp_attempts = 10"

text \<open>
  \<open>peer\<close>: the address \<open>getpeername\<close> wrote. Both destination addresses are made from the client's
  RTCP port.
\<close>

definition setupRtpOverUdp ::
  "tcp_ref option \<Rightarrow> u32 \<Rightarrow> (nat \<Rightarrow> udp_attempt) \<Rightarrow> MediaChannelId \<Rightarrow> u16 \<Rightarrow> u16 \<Rightarrow> RtpConnection \<Rightarrow>
     bool \<times> fd_event list \<times> RtpConnection" where
  "setupRtpOverUdp tcp peer att chn rtpP rtcpP c0 =
     (case tcp of
        None \<Rightarrow> (False, [], c0)
      | Some t \<Rightarrow>
          (let c = upd_info chn (\<lambda>i. i\<lparr>rtpPort := rtpP, rtcpPort := rtcpP\<rparr>) (c0\<lparr>peerAddr := peer\<rparr>)
           in case udp_try udp_attempts att 0 chn c of
                (False, evs, c) \<Rightarrow> (False, evs, c)
              | (True, evs, c) \<Rightarrow>
                  (let addr = (peerAddr c, htons (rtcpPort (mediaChannelInfo c chn)));
                       c = c\<lparr>peerRtpAddr := (peerRtpAddr c)(chn := addr), peerRtcpAddr := (peerRtcpAddr c)(chn := addr)\<rparr>
                   in (True, evs, (upd_info chn (\<lambda>i. i\<lparr>isSetup := True\<rparr>) c)\<lparr>transportMode := RTP_OVER_UDP\<rparr>))))"

section \<open>Play, record, teardown\<close>

definition rtp_play :: "RtpConnection \<Rightarrow> RtpConnection" where
  "rtp_play c = c\<lparr>mediaChannelInfo := (\<lambda>chn. let i = mediaChannelInfo c chn in if isSetup i then i\<lparr>isPlay := True\<rparr> else i)\<rparr>"

definition rtp_record :: "RtpConnection \<Rightarrow> RtpConnection" where
  "rtp_record c = c\<lparr>mediaChannelInfo := (\<lambda>chn. let i = mediaChannelInfo c chn in
     if isSetup i then i\<lparr>isRecord := True, isPlay := True\<rparr> else i)\<rparr>"

definition rtp_teardown :: "RtpConnection \<Rightarrow> RtpConnection" where
  "rtp_teardown c =
     (if \<not> isClosed c
      then c\<lparr>isClosed := True,
             mediaChannelInfo := (\<lambda>chn. (mediaChannelInfo c chn)\<lparr>isRecord := False, isPlay := False\<rparr>)\<rparr>
      else c)"

text \<open>\<open>ts\<close>: the steady clock's milliseconds, a 64-bit signed count.\<close>

definition rtpTime :: "u64 \<Rightarrow> MediaChannelInfo \<Rightarrow> u32" where
  "rtpTime ts i = word_of_int (sint (ts * ucast (clockRate i)) sdiv 1000)"

definition info_step :: "u64 \<Rightarrow> string \<Rightarrow> RtpConnection \<Rightarrow> MediaChannelId \<Rightarrow> string \<times> nat \<Rightarrow> string \<times> nat" where
  "info_step ts rtspUrl c chn st =
     (case st of (buf, numChannel) \<Rightarrow>
        if isSetup (mediaChannelInfo c chn)
        then (let buf = (if numChannel \<noteq> 0 then buf @ snprintf (1024 - strlen buf) '','' else buf);
                  buf = buf @ snprintf (1024 - strlen buf)
                    (''url='' @ c_str rtspUrl @ ''/track'' @ nat_str (channel_num chn) @ '';seq=0;rtptime='' @
                     fmt_u (rtpTime ts (mediaChannelInfo c chn)))
              in (buf, numChannel + 1))
        else (buf, numChannel))"

definition getRtpInfo :: "u64 \<Rightarrow> string \<Rightarrow> RtpConnection \<Rightarrow> string" where
  "getRtpInfo ts rtspUrl c =
     fst (info_step ts rtspUrl c channel_1 (info_step ts rtspUrl c channel_0 (snprintf 1024 ''RTP-Info: '', 0)))"

section \<open>Sending\<close>

definition setFrameType :: "u8 \<Rightarrow> RtpConnection \<Rightarrow> RtpConnection" where
  "setFrameType t c =
     (let c = c\<lparr>frameType := t\<rparr>
      in if \<not> hasIDRFrame c \<and> (frameType c = 0 \<or> frameType c = frame_type_code VIDEO_FRAME_I)
         then c\<lparr>hasIDRFrame := True\<rparr> else c)"

definition sending :: "MediaChannelId \<Rightarrow> RtpConnection \<Rightarrow> bool" where
  "sending chn c \<longleftrightarrow>
     (isPlay (mediaChannelInfo c chn) \<or> isRecord (mediaChannelInfo c chn)) \<and> hasIDRFrame c"

definition setRtpHeader :: "MediaChannelId \<Rightarrow> RtpPacket \<Rightarrow> RtpConnection \<Rightarrow> (RtpPacket \<times> RtpConnection) result" where
  "setRtpHeader chn pkt c =
     (if sending chn c
      then (let i = mediaChannelInfo c chn;
                h = (rtpHeader i)\<lparr>hdr_marker := ucast (pkt_last pkt), hdr_ts := htonl (pkt_timestamp pkt),
                                  hdr_seq := htons (packetSeq i)\<rparr>;
                c = upd_info chn (\<lambda>i. i\<lparr>rtpHeader := h, packetSeq := packetSeq i + 1\<rparr>) c
            in rbind (memcpy (pkt_data pkt) 4 (rtp_header_bytes h) 0 RTP_HEADER_SIZE)
                 (\<lambda>d. Inr (pkt\<lparr>pkt_data := d\<rparr>, c)))
      else Inr (pkt, c))"

definition sendRtpOverTcp :: "tcp_ref option \<Rightarrow> MediaChannelId \<Rightarrow> RtpPacket \<Rightarrow> RtpConnection \<Rightarrow> (int \<times> rtp_out list) result" where
  "sendRtpOverTcp tcp chn pkt c =
     (case tcp of
        None \<Rightarrow> Inr (-1, [])
      | Some t \<Rightarrow>
          (let d = write_at 0 [byte_of_char CHR ''$'', ucast (rtpChannel (mediaChannelInfo c chn)),
                               ucast (drop_bit 8 ((pkt_size pkt - 4) AND 0xFF00)),
                               ucast ((pkt_size pkt - 4) AND 0xFF)] (pkt_data pkt)
           in if 4 \<le> length (pkt_data pkt) \<and> unat (pkt_size pkt) \<le> length d
              then Inr (sint (pkt_size pkt), [TcpSend (take (unat (pkt_size pkt)) d)])
              else Inl OutOfBounds))"

text \<open>\<open>sent\<close>: the answer of \<open>sendto\<close>.\<close>

definition sendRtpOverUdp :: "int \<Rightarrow> MediaChannelId \<Rightarrow> RtpPacket \<Rightarrow> RtpConnection \<Rightarrow> (int \<times> rtp_out list \<times> RtpConnection) result" where
  "sendRtpOverUdp sent chn pkt c =
     (if 4 + unat (pkt_size pkt - 4) \<le> length (pkt_data pkt)
      then (let out = UdpSend (rtpfd c chn) (peerRtpAddr c chn)
                        (segment 4 (4 + unat (pkt_size pkt - 4)) (pkt_data pkt))
            in if sent < 0 then Inr (-1, [out], rtp_teardown c) else Inr (sent, [out], c))
      else Inl OutOfBounds)"

text \<open>
  \<open>sendRtpPacket\<close> refuses or hands a task to the connection's loop; \<open>rtp_task\<close> is the task, which
  runs later, with what \<open>lock\<close> answers then.
\<close>

definition sendRtpPacket :: "tcp_ref option \<Rightarrow> MediaChannelId \<Rightarrow> RtpPacket \<Rightarrow> RtpConnection \<Rightarrow> int \<times> (MediaChannelId \<times> RtpPacket) option" where
  "sendRtpPacket tcp chn pkt c =
     (if isClosed c then (-1, None)
      else case tcp of None \<Rightarrow> (-1, None) | Some t \<Rightarrow> (1, Some (chn, pkt)))"

definition rtp_task :: "tcp_ref option \<Rightarrow> int \<Rightarrow> MediaChannelId \<times> RtpPacket \<Rightarrow> RtpConnection \<Rightarrow> (rtp_out list \<times> RtpConnection) result" where
  "rtp_task tcp sent task c0 =
     (case task of (chn, pkt0) \<Rightarrow>
        rbind (setRtpHeader chn pkt0 (setFrameType (pkt_type pkt0) c0))
          (\<lambda>(pkt, c).
             if sending chn c
             then (if transportMode c = RTP_OVER_TCP
                   then rbind (sendRtpOverTcp tcp chn pkt c) (\<lambda>(ret, out). Inr (out, c))
                   else rbind (sendRtpOverUdp sent chn pkt c) (\<lambda>(ret, out, c'). Inr (out, c')))
             else Inr ([], c)))"

end
