(* ===== verification/Byte_Queue.thy ===== *)
theory Byte_Queue
  imports Prelude
begin

text \<open>
  The contract a byte buffer offers its clients (\<open>TcpConnection\<close> for its output buffer, the
  RTSP layer for its input buffer): bytes leave in the order they came, nothing is lost or
  invented, and the integer accessors are a codec on top of that queue. The contract is a
  locale; \<open>Buffer\<close> discharges it for the code's model.
\<close>

datatype queue_op = Push "byte list" | Pop nat | Clear

text \<open>Run queue operations on a concrete buffer, given its three operations; taking bytes out may fail.\<close>

fun exec_ops ::
  "(byte list \<Rightarrow> 'b \<Rightarrow> 'b) \<Rightarrow> (nat \<Rightarrow> 'b \<Rightarrow> 'b result) \<Rightarrow> ('b \<Rightarrow> 'b) \<Rightarrow> 'b \<Rightarrow> queue_op list \<Rightarrow> 'b result" where
  "exec_ops push pop clear b [] = Inr b"
| "exec_ops push pop clear b (Push d # ops) = exec_ops push pop clear (push d b) ops"
| "exec_ops push pop clear b (Pop n # ops) = rbind (pop n b) (\<lambda>b. exec_ops push pop clear b ops)"
| "exec_ops push pop clear b (Clear # ops) = exec_ops push pop clear (clear b) ops"

text \<open>The specification: the same operations on a list of bytes, of which no more may be taken than there are.\<close>

definition take_out :: "nat \<Rightarrow> byte list \<Rightarrow> byte list result" where
  "take_out n q = c_assert (n \<le> length q) (Inr (drop n q))"

abbreviation spec_ops :: "byte list \<Rightarrow> queue_op list \<Rightarrow> byte list result" where
  "spec_ops \<equiv> exec_ops (\<lambda>d q. q @ d) take_out (\<lambda>q. [])"

text \<open>Two results agree: the same fault, or a well-formed buffer with these contents.\<close>

definition agrees :: "('b \<Rightarrow> bool) \<Rightarrow> ('b \<Rightarrow> byte list) \<Rightarrow> 'b result \<Rightarrow> byte list result \<Rightarrow> bool" where
  "agrees good contents x y = (case x of Inl f \<Rightarrow> y = Inl f | Inr b \<Rightarrow> good b \<and> y = Inr (contents b))"

locale byte_queue =
  fixes inv :: "'b \<Rightarrow> bool"
    and contents :: "'b \<Rightarrow> byte list"
    and push :: "byte list \<Rightarrow> 'b \<Rightarrow> 'b"
    and pop :: "nat \<Rightarrow> 'b \<Rightarrow> 'b result"
    and clear :: "'b \<Rightarrow> 'b"
  assumes contents_push: "inv b \<Longrightarrow> contents (push d b) = contents b @ d"
    and pop_agrees: "inv b \<Longrightarrow> agrees inv contents (pop n b) (take_out n (contents b))"
    and contents_clear: "inv b \<Longrightarrow> contents (clear b) = []"
    and inv_push: "inv b \<Longrightarrow> inv (push d b)"
    and inv_clear: "inv b \<Longrightarrow> inv (clear b)"
begin

lemma exec_refines: "inv b \<Longrightarrow> agrees inv contents (exec_ops push pop clear b ops) (spec_ops (contents b) ops)"
proof (induction ops arbitrary: b)
  case Nil
  then show ?case by (simp add: agrees_def)
next
  case (Cons x ops)
  show ?case
  proof (cases x)
    case (Push d)
    with Cons.IH [OF inv_push [OF Cons.prems]] contents_push [OF Cons.prems] show ?thesis by simp
  next
    case (Pop n)
    with pop_agrees [OF Cons.prems, of n] Cons.IH show ?thesis by (cases "pop n b") (auto simp: agrees_def)
  next
    case Clear
    with Cons.IH [OF inv_clear [OF Cons.prems]] contents_clear [OF Cons.prems] show ?thesis by simp
  qed
qed

text \<open>A writer that takes any prefix and pops it loses nothing and keeps the order.\<close>

lemma pop_prefix:
  "inv b \<Longrightarrow> n \<le> length (contents b) \<Longrightarrow> \<exists>b'. pop n b = Inr b' \<and> inv b' \<and> take n (contents b) @ contents b' = contents b"
  using pop_agrees [of b n] append_take_drop_id [of n "contents b"] by (cases "pop n b") (auto simp: agrees_def take_out_def)

lemma pop_too_much: "inv b \<Longrightarrow> length (contents b) < n \<Longrightarrow> pop n b = Inl AssertFail"
  using pop_agrees [of b n] by (cases "pop n b") (auto simp: agrees_def take_out_def)

end

text \<open>A fixed-width integer codec.\<close>

locale int_codec =
  fixes enc :: "'w \<Rightarrow> byte list"
    and dec :: "byte list \<Rightarrow> 'w"
    and width :: nat
  assumes length_enc: "length (enc x) = width"
    and dec_enc: "dec (enc x) = x"
begin

lemma dec_take: "dec (take width (enc x @ rest)) = x"
  by (simp add: length_enc dec_enc)

lemma drop_enc: "drop width (enc x @ rest) = rest"
  by (simp add: length_enc)

lemma enc_inj: "enc x = enc y \<longleftrightarrow> x = y"
  using dec_enc by metis

end

end
