(* ===== verification/Buffer.thy ===== *)
theory Buffer
  imports Byte_Queue
begin

text \<open>
  The application-level buffer of the network library: \<open>muduo/net/Buffer.h\<close>, \<open>Buffer.cc\<close> and
  \<open>Endian.h\<close>. Pointers into the vector are indices of it. An operation whose \<open>assert\<close> depends on
  its caller (\<open>retrieve\<close> and its variants, \<open>peekInt\<close>, \<open>unwrite\<close>, \<open>prepend\<close>, the searches from a given
  place) returns a result, with the failing assertion as a fault. The assertions on the way of an
  append always hold (\<open>buf_append_asserts\<close>, \<open>makeSpace_assert\<close>). \<open>size_t\<close> is \<open>nat\<close>: an index never
  reaches \<open>2 ^ 64\<close> since the vector would have to be that long.
\<close>

section \<open>State and index arithmetic\<close>

record buffer =
  buffer_vec :: "byte list"
  readerIndex :: nat
  writerIndex :: nat

definition kCheapPrepend :: nat where
  "kCheapPrepend = 8"

definition kInitialSize :: nat where
  "kInitialSize = 1024"

definition kCRLF :: "byte list" where
  "kCRLF = [13, 10]"

definition Buffer_init :: "nat \<Rightarrow> buffer" where
  "Buffer_init initialSize =
     \<lparr>buffer_vec = replicate (kCheapPrepend + initialSize) 0,
      readerIndex = kCheapPrepend, writerIndex = kCheapPrepend\<rparr>"

definition buf_swap :: "buffer \<times> buffer \<Rightarrow> buffer \<times> buffer" where
  "buf_swap p = (snd p, fst p)"

definition readableBytes :: "buffer \<Rightarrow> nat" where
  "readableBytes b = writerIndex b - readerIndex b"

definition writableBytes :: "buffer \<Rightarrow> nat" where
  "writableBytes b = length (buffer_vec b) - writerIndex b"

definition prependableBytes :: "buffer \<Rightarrow> nat" where
  "prependableBytes b = readerIndex b"

definition peek :: "buffer \<Rightarrow> nat" where
  "peek b = readerIndex b"

definition beginWrite :: "buffer \<Rightarrow> nat" where
  "beginWrite b = writerIndex b"

text \<open>The bytes between \<open>peek()\<close> and \<open>beginWrite()\<close>.\<close>

definition toStringPiece :: "buffer \<Rightarrow> byte list" where
  "toStringPiece b = segment (peek b) (beginWrite b) (buffer_vec b)"

text \<open>\<open>peek()[i]\<close>, which may lie behind the readable bytes but not outside the vector.\<close>

definition peek_at :: "nat \<Rightarrow> buffer \<Rightarrow> byte result" where
  "peek_at i b = (if peek b + i < length (buffer_vec b) then Inr (buffer_vec b ! (peek b + i)) else Inl OutOfBounds)"

section \<open>Searching\<close>

definition findCRLF :: "buffer \<Rightarrow> nat option" where
  "findCRLF b =
     (let crlf = peek b + std_search (segment (peek b) (beginWrite b) (buffer_vec b)) kCRLF
      in if crlf = beginWrite b then None else Some crlf)"

definition findCRLF_from :: "nat \<Rightarrow> buffer \<Rightarrow> nat option result" where
  "findCRLF_from start b =
     c_assert (peek b \<le> start) (c_assert (start \<le> beginWrite b)
       (let crlf = start + std_search (segment start (beginWrite b) (buffer_vec b)) kCRLF
        in Inr (if crlf = beginWrite b then None else Some crlf)))"

definition findLastCRLF :: "buffer \<Rightarrow> nat option" where
  "findLastCRLF b =
     (let crlf = peek b + std_find_end (segment (peek b) (beginWrite b) (buffer_vec b)) kCRLF
      in if crlf = beginWrite b then None else Some crlf)"

definition findEOL :: "buffer \<Rightarrow> nat option" where
  "findEOL b = map_option (\<lambda>k. peek b + k) (str_find [10] (segment (peek b) (beginWrite b) (buffer_vec b)))"

definition findEOL_from :: "nat \<Rightarrow> buffer \<Rightarrow> nat option result" where
  "findEOL_from start b =
     c_assert (peek b \<le> start) (c_assert (start \<le> beginWrite b)
       (Inr (map_option (\<lambda>k. start + k) (str_find [10] (segment start (beginWrite b) (buffer_vec b))))))"

section \<open>Reading\<close>

definition retrieveAll :: "buffer \<Rightarrow> buffer" where
  "retrieveAll b = b\<lparr>readerIndex := kCheapPrepend, writerIndex := kCheapPrepend\<rparr>"

text \<open>The body of \<open>retrieve\<close> behind its assertion, which is all a build without assertions runs.\<close>

definition advance :: "nat \<Rightarrow> buffer \<Rightarrow> buffer" where
  "advance len b =
     (if len < readableBytes b then b\<lparr>readerIndex := readerIndex b + len\<rparr> else retrieveAll b)"

definition retrieve :: "nat \<Rightarrow> buffer \<Rightarrow> buffer result" where
  "retrieve len b = c_assert (len \<le> readableBytes b) (Inr (advance len b))"

definition retrieveUntil :: "nat \<Rightarrow> buffer \<Rightarrow> buffer result" where
  "retrieveUntil endp b = c_assert (peek b \<le> endp) (c_assert (endp \<le> beginWrite b) (retrieve (endp - peek b) b))"

definition retrieveInt64 :: "buffer \<Rightarrow> buffer result" where
  "retrieveInt64 b = retrieve 8 b"

definition retrieveInt32 :: "buffer \<Rightarrow> buffer result" where
  "retrieveInt32 b = retrieve 4 b"

definition retrieveInt16 :: "buffer \<Rightarrow> buffer result" where
  "retrieveInt16 b = retrieve 2 b"

definition retrieveInt8 :: "buffer \<Rightarrow> buffer result" where
  "retrieveInt8 b = retrieve 1 b"

definition retrieveAsString :: "nat \<Rightarrow> buffer \<Rightarrow> (byte list \<times> buffer) result" where
  "retrieveAsString len b =
     c_assert (len \<le> readableBytes b)
       (rbind (retrieve len b) (\<lambda>b'. Inr (segment (peek b) (peek b + len) (buffer_vec b), b')))"

definition retrieveAllAsString :: "buffer \<Rightarrow> (byte list \<times> buffer) result" where
  "retrieveAllAsString b = retrieveAsString (readableBytes b) b"

section \<open>Writing\<close>

definition makeSpace :: "nat \<Rightarrow> buffer \<Rightarrow> buffer" where
  "makeSpace len b =
     (if writableBytes b + prependableBytes b < len + kCheapPrepend
      then b\<lparr>buffer_vec := resize 0 (writerIndex b + len) (buffer_vec b)\<rparr>
      else let readable = readableBytes b in
        b\<lparr>buffer_vec := write_at kCheapPrepend (segment (readerIndex b) (writerIndex b) (buffer_vec b)) (buffer_vec b),
          readerIndex := kCheapPrepend,
          writerIndex := kCheapPrepend + readable\<rparr>)"

definition ensureWritableBytes :: "nat \<Rightarrow> buffer \<Rightarrow> buffer" where
  "ensureWritableBytes len b = (if writableBytes b < len then makeSpace len b else b)"

definition hasWritten :: "nat \<Rightarrow> buffer \<Rightarrow> buffer" where
  "hasWritten len b = b\<lparr>writerIndex := writerIndex b + len\<rparr>"

definition unwrite :: "nat \<Rightarrow> buffer \<Rightarrow> buffer result" where
  "unwrite len b = c_assert (len \<le> readableBytes b) (Inr (b\<lparr>writerIndex := writerIndex b - len\<rparr>))"

definition buf_append :: "byte list \<Rightarrow> buffer \<Rightarrow> buffer" where
  "buf_append data b =
     (let b1 = ensureWritableBytes (length data) b;
          b2 = b1\<lparr>buffer_vec := write_at (beginWrite b1) data (buffer_vec b1)\<rparr>
      in hasWritten (length data) b2)"

definition prepend :: "byte list \<Rightarrow> buffer \<Rightarrow> buffer result" where
  "prepend data b =
     c_assert (length data \<le> prependableBytes b)
       (let r = readerIndex b - length data
        in Inr (b\<lparr>readerIndex := r, buffer_vec := write_at r data (buffer_vec b)\<rparr>))"

definition shrink :: "nat \<Rightarrow> buffer \<Rightarrow> buffer" where
  "shrink reserve b =
     (let other = Buffer_init kInitialSize;
          other = ensureWritableBytes (readableBytes b + reserve) other;
          other = buf_append (toStringPiece b) other
      in fst (buf_swap (b, other)))"

section \<open>Integers in network byte order\<close>

definition hostToNetwork64 :: "u64 \<Rightarrow> u64" where "hostToNetwork64 x = byte_swap 8 x"
definition hostToNetwork32 :: "u32 \<Rightarrow> u32" where "hostToNetwork32 x = byte_swap 4 x"
definition hostToNetwork16 :: "u16 \<Rightarrow> u16" where "hostToNetwork16 x = byte_swap 2 x"
definition networkToHost64 :: "u64 \<Rightarrow> u64" where "networkToHost64 x = byte_swap 8 x"
definition networkToHost32 :: "u32 \<Rightarrow> u32" where "networkToHost32 x = byte_swap 4 x"
definition networkToHost16 :: "u16 \<Rightarrow> u16" where "networkToHost16 x = byte_swap 2 x"

definition appendInt64 :: "u64 \<Rightarrow> buffer \<Rightarrow> buffer" where
  "appendInt64 x b = buf_append (le_bytes 8 (hostToNetwork64 x)) b"

definition appendInt32 :: "u32 \<Rightarrow> buffer \<Rightarrow> buffer" where
  "appendInt32 x b = buf_append (le_bytes 4 (hostToNetwork32 x)) b"

definition appendInt16 :: "u16 \<Rightarrow> buffer \<Rightarrow> buffer" where
  "appendInt16 x b = buf_append (le_bytes 2 (hostToNetwork16 x)) b"

definition appendInt8 :: "u8 \<Rightarrow> buffer \<Rightarrow> buffer" where
  "appendInt8 x b = buf_append (le_bytes 1 x) b"

definition peekInt64 :: "buffer \<Rightarrow> u64 result" where
  "peekInt64 b = c_assert (8 \<le> readableBytes b) (Inr (networkToHost64 (le_word (segment (peek b) (peek b + 8) (buffer_vec b)))))"

definition peekInt32 :: "buffer \<Rightarrow> u32 result" where
  "peekInt32 b = c_assert (4 \<le> readableBytes b) (Inr (networkToHost32 (le_word (segment (peek b) (peek b + 4) (buffer_vec b)))))"

definition peekInt16 :: "buffer \<Rightarrow> u16 result" where
  "peekInt16 b = c_assert (2 \<le> readableBytes b) (Inr (networkToHost16 (le_word (segment (peek b) (peek b + 2) (buffer_vec b)))))"

definition peekInt8 :: "buffer \<Rightarrow> u8 result" where
  "peekInt8 b = c_assert (1 \<le> readableBytes b) (Inr (le_word (segment (peek b) (peek b + 1) (buffer_vec b))))"

definition readInt64 :: "buffer \<Rightarrow> (u64 \<times> buffer) result" where
  "readInt64 b = rbind (peekInt64 b) (\<lambda>x. rbind (retrieveInt64 b) (\<lambda>b. Inr (x, b)))"

definition readInt32 :: "buffer \<Rightarrow> (u32 \<times> buffer) result" where
  "readInt32 b = rbind (peekInt32 b) (\<lambda>x. rbind (retrieveInt32 b) (\<lambda>b. Inr (x, b)))"

definition readInt16 :: "buffer \<Rightarrow> (u16 \<times> buffer) result" where
  "readInt16 b = rbind (peekInt16 b) (\<lambda>x. rbind (retrieveInt16 b) (\<lambda>b. Inr (x, b)))"

definition readInt8 :: "buffer \<Rightarrow> (u8 \<times> buffer) result" where
  "readInt8 b = rbind (peekInt8 b) (\<lambda>x. rbind (retrieveInt8 b) (\<lambda>b. Inr (x, b)))"

definition prependInt64 :: "u64 \<Rightarrow> buffer \<Rightarrow> buffer result" where
  "prependInt64 x b = prepend (le_bytes 8 (hostToNetwork64 x)) b"

definition prependInt32 :: "u32 \<Rightarrow> buffer \<Rightarrow> buffer result" where
  "prependInt32 x b = prepend (le_bytes 4 (hostToNetwork32 x)) b"

definition prependInt16 :: "u16 \<Rightarrow> buffer \<Rightarrow> buffer result" where
  "prependInt16 x b = prepend (le_bytes 2 (hostToNetwork16 x)) b"

definition prependInt8 :: "u8 \<Rightarrow> buffer \<Rightarrow> buffer result" where
  "prependInt8 x b = prepend (le_bytes 1 x) b"

section \<open>Reading from a descriptor\<close>

text \<open>
  \<open>readv\<close> is the kernel's: it answers with an error number or with the bytes it delivered, at
  most as many as the vectors hold. With less than \<open>sizeof extrabuf\<close> bytes writable the code
  passes the stack buffer as a second vector.
\<close>

definition extrabuf_size :: nat where
  "extrabuf_size = 65536"

definition readFd_capacity :: "buffer \<Rightarrow> nat" where
  "readFd_capacity b =
     (if writableBytes b < extrabuf_size then writableBytes b + extrabuf_size else writableBytes b)"

definition readFd :: "(int + byte list) \<Rightarrow> buffer \<Rightarrow> int \<times> int option \<times> buffer" where
  "readFd answer b =
     (case answer of
        Inl errno \<Rightarrow> (-1, Some errno, b)
      | Inr received \<Rightarrow>
          (let n = length received; writable = writableBytes b in
           if n \<le> writable
           then (int n, None, b\<lparr>buffer_vec := write_at (writerIndex b) received (buffer_vec b),
                                writerIndex := writerIndex b + n\<rparr>)
           else (let b1 = b\<lparr>buffer_vec := write_at (writerIndex b) (take writable received) (buffer_vec b),
                           writerIndex := length (buffer_vec b)\<rparr>
                 in (int n, None, buf_append (drop writable received) b1))))"


section \<open>Invariant and the effect of each operation\<close>

definition buffer_inv :: "buffer \<Rightarrow> bool" where
  "buffer_inv b \<longleftrightarrow> kCheapPrepend \<le> length (buffer_vec b) \<and> readerIndex b \<le> writerIndex b \<and>
     writerIndex b \<le> length (buffer_vec b)"

lemmas index_defs = buffer_inv_def readableBytes_def writableBytes_def prependableBytes_def
  peek_def beginWrite_def toStringPiece_def kCheapPrepend_def

lemma buffer_inv_init [inv_intros]: "buffer_inv (Buffer_init n)"
  by (simp add: Buffer_init_def index_defs)

lemma contents_init [buf_simps]: "toStringPiece (Buffer_init n) = []"
  by (simp add: Buffer_init_def index_defs)

lemma length_contents: "buffer_inv b \<Longrightarrow> length (toStringPiece b) = readableBytes b"
  by (simp add: index_defs)

lemma buffer_inv_retrieveAll [inv_intros]: "buffer_inv b \<Longrightarrow> buffer_inv (retrieveAll b)"
  by (simp add: retrieveAll_def index_defs)

lemma contents_retrieveAll [buf_simps]: "toStringPiece (retrieveAll b) = []"
  by (simp add: retrieveAll_def index_defs)

lemma buffer_inv_advance [inv_intros]: "buffer_inv b \<Longrightarrow> buffer_inv (advance n b)"
  by (auto simp: advance_def retrieveAll_def index_defs)

lemma contents_advance [buf_simps]:
  "buffer_inv b \<Longrightarrow> toStringPiece (advance n b) = drop n (toStringPiece b)"
  by (auto simp: advance_def retrieveAll_def index_defs segment_drop)

lemma retrieve_eq_Inr: "retrieve n b = Inr b' \<longleftrightarrow> n \<le> readableBytes b \<and> b' = advance n b"
  by (auto simp: retrieve_def c_assert_eq_Inr)

lemma retrieve_ok: "n \<le> readableBytes b \<Longrightarrow> retrieve n b = Inr (advance n b)"
  by (simp add: retrieve_def)

lemma makeSpace_assert:
  "writableBytes b < len \<Longrightarrow> \<not> writableBytes b + prependableBytes b < len + kCheapPrepend \<Longrightarrow>
     kCheapPrepend < readerIndex b"
  by (simp add: index_defs)

lemma makeSpace_effect:
  assumes "buffer_inv b" "writableBytes b < len"
  shows "buffer_inv (makeSpace len b) \<and> toStringPiece (makeSpace len b) = toStringPiece b \<and>
     len \<le> writableBytes (makeSpace len b)"
proof (cases "writableBytes b + prependableBytes b < len + kCheapPrepend")
  case True
  with assms show ?thesis
    by (auto simp: makeSpace_def index_defs segment_resize)
next
  case False
  let ?d = "segment (readerIndex b) (writerIndex b) (buffer_vec b)"
  have d: "length ?d = writerIndex b - readerIndex b"
    using assms by (simp add: index_defs)
  have fit: "8 + length ?d \<le> length (buffer_vec b)"
    using False assms d by (simp add: index_defs)
  with False assms d show ?thesis
    using segment_write_at [OF fit] by (auto simp: makeSpace_def index_defs Let_def)
qed

lemma ensureWritableBytes_effect:
  "buffer_inv b \<Longrightarrow> buffer_inv (ensureWritableBytes len b) \<and>
     toStringPiece (ensureWritableBytes len b) = toStringPiece b \<and>
     len \<le> writableBytes (ensureWritableBytes len b)"
  by (simp add: ensureWritableBytes_def makeSpace_effect)

lemma put_effect:
  assumes "buffer_inv b" "length d \<le> writableBytes b"
  shows "buffer_inv (b\<lparr>buffer_vec := write_at (writerIndex b) d (buffer_vec b),
             writerIndex := writerIndex b + length d\<rparr>)"
    and "toStringPiece (b\<lparr>buffer_vec := write_at (writerIndex b) d (buffer_vec b),
             writerIndex := writerIndex b + length d\<rparr>) = toStringPiece b @ d"
proof -
  let ?v = "write_at (writerIndex b) d (buffer_vec b)"
  have fit: "writerIndex b + length d \<le> length (buffer_vec b)"
    using assms by (auto simp: index_defs)
  then show "buffer_inv (b\<lparr>buffer_vec := ?v, writerIndex := writerIndex b + length d\<rparr>)"
    using assms(1) by (simp add: index_defs)
  have "segment (readerIndex b) (writerIndex b + length d) ?v =
      segment (readerIndex b) (writerIndex b) ?v @ segment (writerIndex b) (writerIndex b + length d) ?v"
    using assms(1) fit by (intro segment_append_next [symmetric]) (simp_all add: index_defs)
  also have "\<dots> = segment (readerIndex b) (writerIndex b) (buffer_vec b) @ d"
    using fit by (simp add: segment_write_before segment_write_at)
  finally show "toStringPiece (b\<lparr>buffer_vec := ?v, writerIndex := writerIndex b + length d\<rparr>) =
      toStringPiece b @ d"
    by (simp add: index_defs)
qed

lemma buf_append_effect:
  assumes "buffer_inv b"
  shows "buffer_inv (buf_append d b) \<and> toStringPiece (buf_append d b) = toStringPiece b @ d"
proof -
  have e: "buffer_inv (ensureWritableBytes (length d) b)"
    "toStringPiece (ensureWritableBytes (length d) b) = toStringPiece b"
    "length d \<le> writableBytes (ensureWritableBytes (length d) b)"
    using ensureWritableBytes_effect [OF assms] by auto
  show ?thesis
    using put_effect [OF e(1,3)] e(2)
    by (simp add: buf_append_def Let_def hasWritten_def beginWrite_def)
qed

text \<open>The two assertions on the way of an append hold: the space is there when it is written.\<close>

lemma buf_append_asserts:
  "buffer_inv b \<Longrightarrow> length d \<le> writableBytes (ensureWritableBytes (length d) b)"
  by (simp add: ensureWritableBytes_effect)

lemma buffer_inv_append [inv_intros]: "buffer_inv b \<Longrightarrow> buffer_inv (buf_append d b)"
  by (simp add: buf_append_effect)

lemma contents_append [buf_simps]:
  "buffer_inv b \<Longrightarrow> toStringPiece (buf_append d b) = toStringPiece b @ d"
  by (simp add: buf_append_effect)

lemma prepend_effect:
  assumes "buffer_inv b" "length d \<le> prependableBytes b"
  shows "\<exists>b'. prepend d b = Inr b' \<and> buffer_inv b' \<and> toStringPiece b' = d @ toStringPiece b"
proof -
  let ?r = "readerIndex b - length d"
  let ?v = "write_at ?r d (buffer_vec b)" let ?b = "b\<lparr>readerIndex := ?r, buffer_vec := ?v\<rparr>"
  have r: "?r + length d = readerIndex b" "readerIndex b \<le> writerIndex b" "writerIndex b \<le> length (buffer_vec b)"
    using assms by (simp_all add: index_defs)
  then have len: "length ?v = length (buffer_vec b)" by simp
  then have "buffer_inv ?b" using assms by (auto simp: index_defs)
  moreover have "segment ?r (writerIndex b) ?v = segment ?r (readerIndex b) ?v @ segment (readerIndex b) (writerIndex b) ?v"
    using r len by (intro segment_append_next [symmetric]) simp_all
  moreover have "segment ?r (readerIndex b) ?v = d"
    using segment_write_at [of ?r d "buffer_vec b"] r by simp
  moreover have "segment (readerIndex b) (writerIndex b) ?v = segment (readerIndex b) (writerIndex b) (buffer_vec b)"
    using r by (intro segment_write_after) simp_all
  ultimately have "buffer_inv ?b" "toStringPiece ?b = d @ toStringPiece b" by (simp_all add: index_defs)
  with assms(2) show ?thesis by (simp add: prepend_def Let_def)
qed

lemma shrink_effect:
  "buffer_inv b \<Longrightarrow> buffer_inv (shrink reserve b) \<and> toStringPiece (shrink reserve b) = toStringPiece b"
  by (simp add: shrink_def buf_swap_def Let_def buf_simps inv_intros ensureWritableBytes_effect)

lemma unwrite_effect:
  assumes "buffer_inv b" "n \<le> readableBytes b"
  shows "\<exists>b'. unwrite n b = Inr b' \<and> buffer_inv b' \<and> toStringPiece b' = take (readableBytes b - n) (toStringPiece b)"
proof -
  let ?b = "b\<lparr>writerIndex := writerIndex b - n\<rparr>"
  have "buffer_inv ?b \<and> toStringPiece ?b = take (readableBytes b - n) (toStringPiece b)"
    using assms by (auto simp: index_defs segment_def min_def add.commute)
  with assms(2) show ?thesis by (simp add: unwrite_def)
qed

text \<open>The buffer is a byte queue.\<close>

interpretation buffer_queue: byte_queue buffer_inv toStringPiece buf_append retrieve retrieveAll
  by unfold_locales
    (auto simp: buf_simps inv_intros agrees_def take_out_def retrieve_def length_contents c_assert_def)

lemma retrieveUntil_eq_Inr:
  "retrieveUntil p b = Inr b' \<longleftrightarrow> peek b \<le> p \<and> p \<le> beginWrite b \<and> p - peek b \<le> readableBytes b \<and> b' = advance (p - peek b) b"
  by (auto simp: retrieveUntil_def c_assert_eq_Inr retrieve_eq_Inr)

lemma retrieveUntil_ok:
  "peek b \<le> p \<Longrightarrow> p \<le> beginWrite b \<Longrightarrow> retrieveUntil p b = Inr (advance (p - peek b) b)"
  by (simp add: retrieveUntil_eq_Inr index_defs)

lemma retrieveUntil_drop:
  assumes "buffer_inv b" "j \<le> length (toStringPiece b)"
  shows "retrieveUntil (peek b + j) b = Inr (advance j b)"
proof -
  have "peek b + j \<le> beginWrite b"
    using assms length_contents [OF assms(1)] by (auto simp: buffer_inv_def readableBytes_def peek_def beginWrite_def)
  from retrieveUntil_ok [OF _ this] show ?thesis by simp
qed

section \<open>Integer accessors\<close>

interpretation codec64: int_codec "\<lambda>x. le_bytes 8 (hostToNetwork64 x)" "\<lambda>bs. networkToHost64 (le_word bs)" 8
  by unfold_locales (simp_all add: hostToNetwork64_def networkToHost64_def le_word_le_bytes)

interpretation codec32: int_codec "\<lambda>x. le_bytes 4 (hostToNetwork32 x)" "\<lambda>bs. networkToHost32 (le_word bs)" 4
  by unfold_locales (simp_all add: hostToNetwork32_def networkToHost32_def le_word_le_bytes)

interpretation codec16: int_codec "\<lambda>x. le_bytes 2 (hostToNetwork16 x)" "\<lambda>bs. networkToHost16 (le_word bs)" 2
  by unfold_locales (simp_all add: hostToNetwork16_def networkToHost16_def le_word_le_bytes)

interpretation codec8: int_codec "\<lambda>x :: u8. le_bytes 1 x" "\<lambda>bs. le_word bs" 1
  by unfold_locales (simp_all add: le_word_le_bytes)

text \<open>What travels on the wire is the big-endian image.\<close>

lemma network_bytes:
  "le_bytes 8 (hostToNetwork64 x) = rev (le_bytes 8 x)"
  "le_bytes 4 (hostToNetwork32 y) = rev (le_bytes 4 y)"
  "le_bytes 2 (hostToNetwork16 z) = rev (le_bytes 2 z)"
  by (simp_all add: hostToNetwork64_def hostToNetwork32_def hostToNetwork16_def le_bytes_byte_swap)

lemma segment_peek:
  "buffer_inv b \<Longrightarrow> n \<le> readableBytes b \<Longrightarrow>
     segment (peek b) (peek b + n) (buffer_vec b) = take n (toStringPiece b)"
  by (auto simp: index_defs segment_take)

lemma peek_front:
  assumes "buffer_inv b" "toStringPiece b = d @ rest" "length d = n"
  shows "segment (peek b) (peek b + n) (buffer_vec b) = d" "n \<le> readableBytes b"
proof -
  show le: "n \<le> readableBytes b"
    using length_contents [OF assms(1)] assms(2,3) by simp
  show "segment (peek b) (peek b + n) (buffer_vec b) = d"
    using segment_peek [OF assms(1) le] assms(2,3) by simp
qed

text \<open>A mixed sequence of integers, written and read back.\<close>

datatype netint = N64 u64 | N32 u32 | N16 u16 | N8 u8

fun net_enc :: "netint \<Rightarrow> byte list" where
  "net_enc (N64 x) = rev (le_bytes 8 x)"
| "net_enc (N32 x) = rev (le_bytes 4 x)"
| "net_enc (N16 x) = rev (le_bytes 2 x)"
| "net_enc (N8 x) = [x]"

fun appendNet :: "netint \<Rightarrow> buffer \<Rightarrow> buffer" where
  "appendNet (N64 x) b = appendInt64 x b"
| "appendNet (N32 x) b = appendInt32 x b"
| "appendNet (N16 x) b = appendInt16 x b"
| "appendNet (N8 x) b = appendInt8 x b"

fun prependNet :: "netint \<Rightarrow> buffer \<Rightarrow> buffer result" where
  "prependNet (N64 x) b = prependInt64 x b"
| "prependNet (N32 x) b = prependInt32 x b"
| "prependNet (N16 x) b = prependInt16 x b"
| "prependNet (N8 x) b = prependInt8 x b"

fun readNet :: "netint \<Rightarrow> buffer \<Rightarrow> (netint \<times> buffer) result" where
  "readNet (N64 _) b = rbind (readInt64 b) (\<lambda>(x, b). Inr (N64 x, b))"
| "readNet (N32 _) b = rbind (readInt32 b) (\<lambda>(x, b). Inr (N32 x, b))"
| "readNet (N16 _) b = rbind (readInt16 b) (\<lambda>(x, b). Inr (N16 x, b))"
| "readNet (N8 _) b = rbind (readInt8 b) (\<lambda>(x, b). Inr (N8 x, b))"

fun readAllNet :: "netint list \<Rightarrow> buffer \<Rightarrow> (netint list \<times> buffer) result" where
  "readAllNet [] b = Inr ([], b)"
| "readAllNet (k # ks) b = rbind (readNet k b) (\<lambda>(x, b1). rbind (readAllNet ks b1) (\<lambda>(xs, b2). Inr (x # xs, b2)))"

lemma le_bytes_1 [simp]: "le_bytes (Suc 0) (x :: u8) = [x]"
  by (simp add: le_bytes_def)

lemma append_net:
  "buffer_inv b \<Longrightarrow> buffer_inv (appendNet k b) \<and> toStringPiece (appendNet k b) = toStringPiece b @ net_enc k"
  by (cases k) (simp_all add: appendInt64_def appendInt32_def appendInt16_def appendInt8_def
      buf_simps inv_intros network_bytes)

lemma append_all_net:
  "buffer_inv b \<Longrightarrow> buffer_inv (fold appendNet ks b) \<and>
     toStringPiece (fold appendNet ks b) = toStringPiece b @ concat (map net_enc ks)"
  by (induction ks arbitrary: b) (simp_all add: append_net)

lemma read_net:
  assumes "buffer_inv b" "toStringPiece b = net_enc k @ rest"
  shows "\<exists>b'. readNet k b = Inr (k, b') \<and> buffer_inv b' \<and> toStringPiece b' = rest"
proof (cases k)
  case (N64 x)
  then show ?thesis
    using assms peek_front [of b "rev (le_bytes 8 x)" rest 8] codec64.dec_enc [of x]
    by (simp add: readInt64_def peekInt64_def retrieveInt64_def retrieve_ok inv_intros buf_simps network_bytes)
next
  case (N32 x)
  then show ?thesis
    using assms peek_front [of b "rev (le_bytes 4 x)" rest 4] codec32.dec_enc [of x]
    by (simp add: readInt32_def peekInt32_def retrieveInt32_def retrieve_ok inv_intros buf_simps network_bytes)
next
  case (N16 x)
  then show ?thesis
    using assms peek_front [of b "rev (le_bytes 2 x)" rest 2] codec16.dec_enc [of x]
    by (simp add: readInt16_def peekInt16_def retrieveInt16_def retrieve_ok inv_intros buf_simps network_bytes)
next
  case (N8 x)
  then show ?thesis
    using assms peek_front [of b "[x]" rest 1] codec8.dec_enc [of x]
    by (simp add: readInt8_def peekInt8_def retrieveInt8_def retrieve_ok inv_intros buf_simps)
qed

lemma read_all_net:
  "buffer_inv b \<Longrightarrow> toStringPiece b = concat (map net_enc ks) @ rest \<Longrightarrow>
     \<exists>b'. readAllNet ks b = Inr (ks, b') \<and> buffer_inv b' \<and> toStringPiece b' = rest"
proof (induction ks arbitrary: b)
  case Nil
  then show ?case by simp
next
  case (Cons k ks)
  then obtain b1 where b1: "readNet k b = Inr (k, b1)" "buffer_inv b1"
      "toStringPiece b1 = concat (map net_enc ks) @ rest"
    using read_net [of b k "concat (map net_enc ks) @ rest"] by auto
  with Cons.IH [of b1] show ?case by auto
qed

section \<open>Line ends\<close>

lemma std_search_at_end:
  "p \<noteq> [] \<Longrightarrow> std_search xs p = length xs \<longleftrightarrow> str_find p xs = None"
  by (cases "str_find p xs") (auto simp: std_search_def dest: str_find_Some)

lemma std_find_end_at_end:
  "p \<noteq> [] \<Longrightarrow> std_find_end xs p = length xs \<longleftrightarrow> str_rfind p xs = None"
  by (cases "str_rfind p xs") (auto simp: std_find_end_def dest!: str_rfind_Some)

lemma findCRLF_eq:
  assumes "buffer_inv b"
  shows "findCRLF b = map_option (\<lambda>k. peek b + k) (str_find kCRLF (toStringPiece b))"
proof -
  have "peek b + std_search (toStringPiece b) kCRLF = beginWrite b \<longleftrightarrow>
      std_search (toStringPiece b) kCRLF = length (toStringPiece b)"
    using assms by (auto simp: index_defs)
  also have "\<dots> \<longleftrightarrow> str_find kCRLF (toStringPiece b) = None"
    by (rule std_search_at_end) (simp add: kCRLF_def)
  finally show ?thesis
    by (auto simp: findCRLF_def toStringPiece_def Let_def std_search_def
        split: option.splits)
qed

lemma findLastCRLF_eq:
  assumes "buffer_inv b"
  shows "findLastCRLF b = map_option (\<lambda>k. peek b + k) (str_rfind kCRLF (toStringPiece b))"
proof -
  have "peek b + std_find_end (toStringPiece b) kCRLF = beginWrite b \<longleftrightarrow>
      std_find_end (toStringPiece b) kCRLF = length (toStringPiece b)"
    using assms by (auto simp: index_defs)
  also have "\<dots> \<longleftrightarrow> str_rfind kCRLF (toStringPiece b) = None"
    by (rule std_find_end_at_end) (simp add: kCRLF_def)
  finally show ?thesis
    by (auto simp: findLastCRLF_def toStringPiece_def Let_def std_find_end_def
        split: option.splits)
qed

text \<open>What the parser retrieves behind a line end it has found is there.\<close>

lemma found_retrieves:
  assumes "buffer_inv b" "findCRLF b = Some p \<or> findLastCRLF b = Some p"
  shows "\<exists>n. retrieveUntil (p + 2) b = Inr (advance n b)"
proof -
  have ne: "kCRLF \<noteq> []" "length kCRLF = 2" by (simp_all add: kCRLF_def)
  obtain k where k0: "p = peek b + k" "str_find kCRLF (toStringPiece b) = Some k \<or> str_rfind kCRLF (toStringPiece b) = Some k"
    using assms(2) by (auto simp: findCRLF_eq [OF assms(1)] findLastCRLF_eq [OF assms(1)])
  have k: "p = peek b + k" "k + 2 \<le> length (toStringPiece b)"
    using k0 str_find_Some [of kCRLF "toStringPiece b" k] str_rfind_Some [OF ne(1), of "toStringPiece b" k] ne(2) by auto
  from retrieveUntil_drop [OF assms(1) k(2)] k(1) show ?thesis by (auto simp: add.assoc)
qed

lemma readFd_effect:
  assumes "buffer_inv b" "length received \<le> readFd_capacity b"
  shows "\<exists>b'. readFd (Inr received) b = (int (length received), None, b') \<and> buffer_inv b' \<and>
     toStringPiece b' = toStringPiece b @ received"
proof (cases "length received \<le> writableBytes b")
  case True
  then show ?thesis
    using put_effect [OF assms(1) True] by (simp add: readFd_def Let_def)
next
  case False
  let ?w = "writableBytes b"
  let ?b1 = "b\<lparr>buffer_vec := write_at (writerIndex b) (take ?w received) (buffer_vec b),
              writerIndex := length (buffer_vec b)\<rparr>"
  have w: "length (take ?w received) = ?w" "writerIndex b + ?w = length (buffer_vec b)"
    using False assms(1) by (auto simp: index_defs)
  have "buffer_inv ?b1" "toStringPiece ?b1 = toStringPiece b @ take ?w received"
    using put_effect [OF assms(1), of "take ?w received"] w by simp_all
  then show ?thesis
    using False by (simp add: readFd_def Let_def buf_simps inv_intros)
qed

section \<open>Properties\<close>

text \<open>
  C18: The buffer refines a queue of bytes: over any sequence of appends, retrieves and clears, whichever of the grow
  and move branches of \<open>makeSpace\<close> each append takes, it does what the same operations do on a plain list: either a
  retrieve asks for more than is there, and then the assertion of \<open>retrieve\<close> fails at that point of the sequence on both sides, or
  the invariant holds at the end and the readable bytes are those of the list.
\<close>

theorem buffer_refines_byte_queue:
  assumes "buffer_inv b"
  shows "case exec_ops buf_append retrieve retrieveAll b ops of
      Inl f \<Rightarrow> spec_ops (toStringPiece b) ops = Inl f
    | Inr b' \<Rightarrow> buffer_inv b' \<and> spec_ops (toStringPiece b) ops = Inr (toStringPiece b')"
  using buffer_queue.exec_refines [OF assms, of ops] by (simp add: agrees_def)

theorem buffer_refines_byte_queue_witness:
  "(\<exists>b'. exec_ops buf_append retrieve retrieveAll (Buffer_init 2) [Push [1, 2, 3], Pop 2, Push [4, 5], Push [6]] = Inr b' \<and>
     toStringPiece b' = [3, 4, 5, 6]) \<and>
   exec_ops buf_append retrieve retrieveAll (Buffer_init 2) [Push [1], Pop 2] = Inl AssertFail"
  using buffer_refines_byte_queue [OF buffer_inv_init, of 2 "[Push [1, 2, 3], Pop 2, Push [4, 5], Push [6]]"]
    buffer_refines_byte_queue [OF buffer_inv_init, of 2 "[Push [1], Pop 2]"]
  by (auto simp: contents_init take_out_def split: sum.splits)

text \<open>
  Integers survive the network byte order: a mixed sequence of 8, 16, 32 and 64-bit values
  appended to an empty buffer, followed by any bytes, is read back unchanged and in order, and
  exactly those following bytes remain.
\<close>

theorem netint_append_read:
  assumes "buffer_inv b" and "toStringPiece b = []"
  shows "\<exists>b'. readAllNet ks (buf_append rest (fold appendNet ks b)) = Inr (ks, b') \<and>
           buffer_inv b' \<and> toStringPiece b' = rest"
  using assms append_all_net [OF assms(1), of ks]
  by (intro read_all_net) (simp_all add: buf_simps inv_intros)

theorem netint_append_read_witness:
  "\<exists>b'. readAllNet [N32 1, N16 513, N64 7, N8 255]
       (buf_append [42] (fold appendNet [N32 1, N16 513, N64 7, N8 255] (Buffer_init 4))) =
       Inr ([N32 1, N16 513, N64 7, N8 255], b') \<and> toStringPiece b' = [42]"
  using netint_append_read [OF buffer_inv_init contents_init, of "[N32 1, N16 513, N64 7, N8 255]" "[42]"]
  by blast

text \<open>
  Prepending: a value put into the cheap-prepend area is the next value read, and reading
  it restores exactly the message that was behind it.
\<close>

theorem netint_prepend_read:
  assumes "buffer_inv b" and "length (net_enc k) \<le> prependableBytes b"
  shows "\<exists>b1 b'. prependNet k b = Inr b1 \<and> readNet k b1 = Inr (k, b') \<and> buffer_inv b' \<and> toStringPiece b' = toStringPiece b"
proof -
  obtain b1 where b1: "prepend (net_enc k) b = Inr b1" "buffer_inv b1" "toStringPiece b1 = net_enc k @ toStringPiece b"
    using prepend_effect [OF assms] by blast
  have "prependNet k b = prepend (net_enc k) b"
    by (cases k) (simp_all add: prependInt64_def prependInt32_def prependInt16_def prependInt8_def network_bytes)
  with b1 read_net [OF b1(2,3)] show ?thesis by auto
qed

theorem netint_prepend_read_witness:
  "\<exists>b1 b'. prependNet (N32 258) (buf_append [9, 8] (Buffer_init 4)) = Inr b1 \<and> readNet (N32 258) b1 = Inr (N32 258, b') \<and>
     toStringPiece b' = [9, 8]"
proof -
  let ?b = "buf_append [9, 8] (Buffer_init 4)"
  have "length (net_enc (N32 258)) \<le> prependableBytes ?b"
    by (simp add: buf_append_def ensureWritableBytes_def hasWritten_def Buffer_init_def index_defs Let_def)
  moreover have "buffer_inv ?b" and "toStringPiece ?b = [9, 8]"
    by (simp_all add: inv_intros buf_simps)
  ultimately show ?thesis
    using netint_prepend_read [of ?b "N32 258"] by metis
qed

text \<open>
  Line splitting: \<open>findCRLF\<close> answers the first, \<open>findLastCRLF\<close> the last CR LF among the
  readable bytes and nothing if there is none, so the line taken before the first holds no
  CR LF, and retrieving two bytes past the found position leaves what follows the separator.
\<close>

theorem find_crlf_splits:
  assumes "buffer_inv b"
  shows "case findCRLF b of
           None \<Rightarrow> findLastCRLF b = None \<and> (\<forall>l r. toStringPiece b \<noteq> l @ kCRLF @ r)
         | Some p \<Rightarrow> \<exists>l r q l' r'.
             toStringPiece b = l @ kCRLF @ r \<and> p = peek b + length l \<and> str_find kCRLF l = None \<and>
             retrieveUntil (p + 2) b = Inr (advance (length l + 2) b) \<and> toStringPiece (advance (length l + 2) b) = r \<and>
             findLastCRLF b = Some q \<and> p \<le> q \<and>
             toStringPiece b = l' @ kCRLF @ r' \<and> q = peek b + length l' \<and> str_find kCRLF r' = None \<and>
             retrieveUntil (q + 2) b = Inr (advance (length l' + 2) b) \<and> toStringPiece (advance (length l' + 2) b) = r'"
proof -
  have ne: "kCRLF \<noteq> []" and two: "length kCRLF = 2"
    by (simp_all add: kCRLF_def)
  let ?x = "toStringPiece b"
  show ?thesis
  proof (cases "str_find kCRLF ?x")
    case None
    moreover have "str_rfind kCRLF ?x = None" using None str_find_iff_rfind [OF ne] by metis
    moreover have "?x \<noteq> l @ kCRLF @ r" for l r using None str_find_append [OF ne] by metis
    ultimately show ?thesis using assms by (simp add: findCRLF_eq findLastCRLF_eq)
  next
    case (Some k)
    then obtain m where m: "str_rfind kCRLF ?x = Some m"
      using str_find_iff_rfind [OF ne, of ?x] by (cases "str_rfind kCRLF ?x") auto
    note f = str_find_split [OF ne Some] and g = str_rfind_split [OF ne m]
    have "k \<le> m" using str_find_le_rfind [OF ne Some m] .
    have rest: "toStringPiece (advance (j + 2) b) = drop (j + 2) ?x" for j
      using assms by (simp add: buf_simps)
    have until: "retrieveUntil (peek b + j + 2) b = Inr (advance (j + 2) b)" if "j + 2 \<le> length ?x" for j
      using retrieveUntil_drop [OF assms that] by (simp only: add.assoc)
    have k2: "k + 2 \<le> length ?x" and m2: "m + 2 \<le> length ?x"
      using f(2) g(2) two by simp_all
    then have lens: "length (take k ?x) = k" "length (take m ?x) = m" by simp_all
    show ?thesis
      unfolding findCRLF_eq [OF assms] findLastCRLF_eq [OF assms] Some m option.map option.case
      by (rule exI [of _ "take k ?x"], rule exI [of _ "drop (k + 2) ?x"], rule exI [of _ "peek b + m"],
          rule exI [of _ "take m ?x"], rule exI [of _ "drop (m + 2) ?x"])
        (unfold lens, intro conjI refl f(1) [unfolded two] f(3) g(1) [unfolded two] g(3) [unfolded two] rest until k2 m2 \<open>k \<le> m\<close> add_left_mono)
  qed
qed

theorem find_crlf_splits_witness:
  "case findCRLF (buf_append [97, 13, 10, 98, 13, 10, 99] (Buffer_init 8)) of
     None \<Rightarrow> False
   | Some p \<Rightarrow> \<exists>b. retrieveUntil (p + 2) (buf_append [97, 13, 10, 98, 13, 10, 99] (Buffer_init 8)) = Inr b"
proof -
  let ?b = "buf_append [97, 13, 10, 98, 13, 10, 99] (Buffer_init 8)"
  have i: "buffer_inv ?b" and c: "toStringPiece ?b = [97, 13, 10, 98, 13, 10, 99]"
    by (simp_all add: inv_intros buf_simps)
  have "findCRLF ?b = Some (peek ?b + 1)"
    by (simp add: findCRLF_eq [OF i] c kCRLF_def)
  with find_crlf_splits [OF i] show ?thesis by auto
qed

text \<open>
  One \<open>readFd\<close> takes everything the kernel delivered: for any answer within the capacity of
  the two vectors the received bytes are appended to the readable ones in order (also when they
  spilled into the stack buffer), the count is returned, and on an error nothing changes but the
  saved errno.
\<close>

theorem readFd_appends:
  assumes "buffer_inv b" and "\<forall>d. answer = Inr d \<longrightarrow> length d \<le> readFd_capacity b"
  shows "case answer of
           Inl e \<Rightarrow> readFd answer b = (-1, Some e, b)
         | Inr d \<Rightarrow> \<exists>b'. readFd answer b = (int (length d), None, b') \<and> buffer_inv b' \<and>
                     toStringPiece b' = toStringPiece b @ d"
proof (cases answer)
  case (Inl e)
  then show ?thesis by (simp add: readFd_def)
next
  case (Inr d)
  then show ?thesis using readFd_effect [OF assms(1)] assms(2) by simp
qed

theorem readFd_appends_witness:
  "\<exists>b'. readFd (Inr (replicate 5 7)) (Buffer_init 2) = (5, None, b') \<and> toStringPiece b' = replicate 5 7"
proof -
  have "\<forall>d. (Inr (replicate 5 7) :: int + byte list) = Inr d \<longrightarrow> length d \<le> readFd_capacity (Buffer_init 2)"
    by (simp add: readFd_capacity_def Buffer_init_def index_defs extrabuf_size_def)
  from readFd_appends [OF buffer_inv_init this] show ?thesis
    by (auto simp: contents_init)
qed

end
