(* ===== verification/Rtsp_Message.thy ===== *)
theory Rtsp_Message
  imports Buffer CString Rtp
begin

text \<open>
  RTSP messages: \<open>src/media/rtsp_message.cc\<close>, \<open>rtsp_message.h\<close> and the URL parser of \<open>rtsp.h\<close>. The
  input is the connection's \<open>Buffer\<close>; a message is the string between two of its positions. The
  character arrays the \<open>%s\<close> conversions write into have fixed sizes: a word that does not
  fit with its NUL is the fault \<open>OutOfBounds\<close>. The two \<open>unordered_map\<close>s are maps; \<open>emplace\<close> keeps an
  existing entry.
\<close>

section \<open>State of a request\<close>

datatype Method = OPTIONS | DESCRIBE | SETUP | PLAY | TEARDOWN | GET_PARAMETER | RTCP | METHOD_NONE

datatype RtspRequestParseState = kParseRequestLine | kParseHeadersLine | kGotAll

type_synonym params = "string \<rightharpoonup> string \<times> u32"

record RtspRequest =
  req_method :: Method
  req_channelId :: MediaChannelId
  req_transport :: TransportMode
  requestLineParam :: params
  headerLineParam :: params
  parse_state :: RtspRequestParseState

text \<open>The first three members have no initialiser: the constructor leaves what the memory held.\<close>

definition RtspRequest_init :: "Method \<Rightarrow> MediaChannelId \<Rightarrow> TransportMode \<Rightarrow> RtspRequest" where
  "RtspRequest_init m c t =
     \<lparr>req_method = m, req_channelId = c, req_transport = t,
      requestLineParam = Map.empty, headerLineParam = Map.empty, parse_state = kParseRequestLine\<rparr>"

definition gotAll :: "RtspRequest \<Rightarrow> bool" where
  "gotAll r \<longleftrightarrow> parse_state r = kGotAll"

definition req_reset :: "RtspRequest \<Rightarrow> RtspRequest" where
  "req_reset r = r\<lparr>parse_state := kParseRequestLine, requestLineParam := Map.empty, headerLineParam := Map.empty\<rparr>"

definition emplace :: "string \<Rightarrow> string \<times> u32 \<Rightarrow> params \<Rightarrow> params" where
  "emplace k v m = (case m k of None \<Rightarrow> m(k \<mapsto> v) | Some _ \<Rightarrow> m)"

section \<open>Stores of sscanf\<close>

text \<open>The k-th conversion goes to an array of \<open>caps ! k\<close> characters (0 for a number).\<close>

fun fits :: "nat list \<Rightarrow> scanned list \<Rightarrow> bool" where
  "fits (c # caps) (SStr w # vs) = (length w < c \<and> fits caps vs)"
| "fits (c # caps) (SNum n # vs) = fits caps vs"
| "fits caps vs = True"

definition scan_into :: "nat list \<Rightarrow> string \<Rightarrow> directive list \<Rightarrow> scanned list result" where
  "scan_into caps s fmt = (let vs = sscanf s fmt in if fits caps vs then Inr vs else Inl OutOfBounds)"

definition fmt_request_line :: "directive list" where
  "fmt_request_line = scan_format ''%s %s %s''"

definition fmt_url_port :: "directive list" where
  "fmt_url_port = scan_format ''%[^:]:%hu/%s''"

definition fmt_url :: "directive list" where
  "fmt_url = scan_format ''%[^/]/%s''"

definition fmt_header_u :: "directive list" where
  "fmt_header_u = scan_format ''%*[^:]: %u''"

definition fmt_transport :: "directive list" where
  "fmt_transport = scan_format ''%*[^;];%*[^;];%*[^=]=%hu-%hu''"

lemma fmts:
  "fmt_request_line = [ScanStr, ScanWs, ScanStr, ScanWs, ScanStr]"
  "fmt_url_port = [ScanNot CHR '':'', ScanLit CHR '':'', ScanUInt, ScanLit CHR ''/'', ScanStr]"
  "fmt_url = [ScanNot CHR ''/'', ScanLit CHR ''/'', ScanStr]"
  "fmt_header_u = [SkipNot CHR '':'', ScanLit CHR '':'', ScanWs, ScanUInt]"
  "fmt_transport = [SkipNot CHR '';'', ScanLit CHR '';'', SkipNot CHR '';'', ScanLit CHR '';'',
     SkipNot CHR ''='', ScanLit CHR ''='', ScanUInt, ScanLit CHR ''-'', ScanUInt]"
  by (simp_all add: fmt_request_line_def fmt_url_port_def fmt_url_def fmt_header_u_def fmt_transport_def
      is_space_def)

section \<open>The request line\<close>

definition method_of :: "string \<Rightarrow> Method option" where
  "method_of s =
     (if s = ''OPTIONS'' then Some OPTIONS
      else if s = ''DESCRIBE'' then Some DESCRIBE
      else if s = ''SETUP'' then Some SETUP
      else if s = ''PLAY'' then Some PLAY
      else if s = ''TEARDOWN'' then Some TEARDOWN
      else if s = ''GET_PARAMETER'' then Some GET_PARAMETER
      else None)"

text \<open>
  The part of an URL behind \<open>rtsp://\<close>, with the two attempts of the code: host, port and path, or
  host and path with the default port. The first attempt writes into \<open>ip\<close> even when it fails.
\<close>

definition parse_url_tail :: "nat \<Rightarrow> string \<Rightarrow> (string \<times> u16 \<times> string) option result" where
  "parse_url_tail suffix_cap u =
     rbind (scan_into [16, 0, suffix_cap] u fmt_url_port)
       (\<lambda>v1. case v1 of
          [SStr ip, SNum port, SStr suffix] \<Rightarrow> Inr (Some (ip, ucast port, suffix))
        | _ \<Rightarrow>
          rbind (scan_into [16, suffix_cap] u fmt_url)
            (\<lambda>v2. case v2 of
               [SStr ip, SStr suffix] \<Rightarrow> Inr (Some (ip, 554, suffix))
             | _ \<Rightarrow> Inr None))"

definition parseRequestLine :: "string \<Rightarrow> RtspRequest \<Rightarrow> (bool \<times> RtspRequest) result" where
  "parseRequestLine message r =
     rbind (scan_into [32, 128, 16] (c_str message) fmt_request_line)
       (\<lambda>vs. case vs of
          [SStr m, SStr url, SStr version] \<Rightarrow>
            (case method_of m of
               None \<Rightarrow> Inr (False, r\<lparr>req_method := METHOD_NONE\<rparr>)
             | Some k \<Rightarrow>
                 (let r1 = r\<lparr>req_method := k\<rparr> in
                  if take 7 url \<noteq> ''rtsp://'' then Inr (False, r1)
                  else rbind (parse_url_tail 64 (drop 7 url))
                    (\<lambda>tail. case tail of
                       None \<Rightarrow> Inr (False, r1)
                     | Some (ip, port, suffix) \<Rightarrow>
                         (let p = requestLineParam r1;
                              p = emplace ''url'' (url, 0) p;
                              p = emplace ''url_ip'' (ip, 0) p;
                              p = emplace ''url_port'' ('''', ucast port) p;
                              p = emplace ''url_suffix'' (suffix, 0) p;
                              p = emplace ''version'' (version, 0) p;
                              p = emplace ''method'' (m, 0) p
                          in Inr (True, r1\<lparr>requestLineParam := p, parse_state := kParseHeadersLine\<rparr>)))))
        | _ \<Rightarrow> Inr (False, r))"

section \<open>The header lines\<close>

definition parseCSeq :: "string \<Rightarrow> RtspRequest \<Rightarrow> bool \<times> RtspRequest" where
  "parseCSeq message r =
     (case str_find ''CSeq'' message of
        None \<Rightarrow> (False, r)
      | Some pos \<Rightarrow>
          (let cseq = (case sscanf (c_str (drop pos message)) fmt_header_u of [SNum n] \<Rightarrow> ucast n | _ \<Rightarrow> 0)
           in (True, r\<lparr>headerLineParam := emplace ''cseq'' ('''', cseq) (headerLineParam r)\<rparr>)))"

definition parseAccept :: "string \<Rightarrow> bool" where
  "parseAccept message \<longleftrightarrow> \<not> (str_rfind ''Accept'' message = None \<or> str_rfind ''sdp'' message = None)"

definition emplace_header :: "string \<Rightarrow> u16 \<Rightarrow> RtspRequest \<Rightarrow> RtspRequest" where
  "emplace_header k v r = r\<lparr>headerLineParam := emplace k ('''', ucast v) (headerLineParam r)\<rparr>"

definition parseTransport :: "string \<Rightarrow> RtspRequest \<Rightarrow> bool \<times> RtspRequest" where
  "parseTransport message r =
     (case str_find ''Transport'' message of
        None \<Rightarrow> (False, r)
      | Some _ \<Rightarrow>
         (case str_find ''RTP/AVP/TCP'' message of
            Some pos \<Rightarrow>
              (let r1 = r\<lparr>req_transport := RTP_OVER_TCP\<rparr> in
               case sscanf (c_str (drop pos message)) fmt_transport of
                 [SNum a, SNum b] \<Rightarrow>
                   (True, emplace_header ''rtcp_channel'' (ucast b) (emplace_header ''rtp_channel'' (ucast a) r1))
               | _ \<Rightarrow> (False, r1))
          | None \<Rightarrow>
             (case str_find ''RTP/AVP'' message of
                Some pos \<Rightarrow>
                  (if str_find ''unicast'' (drop pos message) \<noteq> None
                   then (let r1 = r\<lparr>req_transport := RTP_OVER_UDP\<rparr> in
                         case sscanf (c_str (drop pos message)) fmt_transport of
                           [SNum a, SNum b] \<Rightarrow>
                             (True, emplace_header ''rtcp_port'' (ucast b) (emplace_header ''rtp_port'' (ucast a) r1))
                         | _ \<Rightarrow> (False, r1))
                   else if str_find ''multicast'' (drop pos message) \<noteq> None
                   then (True, emplace_header ''rtcp_port'' 0 (emplace_header ''rtp_port'' 0
                           (r\<lparr>req_transport := RTP_OVER_MULTICAST\<rparr>)))
                   else (False, r))
              | None \<Rightarrow> (False, r))))"

definition parseSessionId :: "string \<Rightarrow> bool" where
  "parseSessionId message =
     (case str_find ''Session'' message of
        None \<Rightarrow> False
      | Some pos \<Rightarrow> length (sscanf (c_str (drop pos message)) fmt_header_u) = 1)"

definition parseMediaChannel :: "RtspRequest \<Rightarrow> RtspRequest" where
  "parseMediaChannel r =
     (case requestLineParam r ''url'' of
        Some (url, _) \<Rightarrow> if str_find ''track1'' url \<noteq> None then r\<lparr>req_channelId := channel_1\<rparr>
                        else r\<lparr>req_channelId := channel_0\<rparr>
      | None \<Rightarrow> r\<lparr>req_channelId := channel_0\<rparr>)"

definition parseHeadersLine :: "string \<Rightarrow> RtspRequest \<Rightarrow> bool \<times> RtspRequest" where
  "parseHeadersLine message r0 =
     (case parseCSeq message r0 of (ok, r) \<Rightarrow>
        if \<not> ok \<and> headerLineParam r ''cseq'' = None then (False, r)
        else (case req_method r of
                OPTIONS \<Rightarrow> (True, r\<lparr>parse_state := kGotAll\<rparr>)
              | DESCRIBE \<Rightarrow> (True, if parseAccept message then r\<lparr>parse_state := kGotAll\<rparr> else r)
              | SETUP \<Rightarrow>
                  (case parseTransport message r of (found, r1) \<Rightarrow>
                     (True, if found then (parseMediaChannel r1)\<lparr>parse_state := kGotAll\<rparr> else r1))
              | PLAY \<Rightarrow> (True, if parseSessionId message then r\<lparr>parse_state := kGotAll\<rparr> else r)
              | TEARDOWN \<Rightarrow> (True, r\<lparr>parse_state := kGotAll\<rparr>)
              | GET_PARAMETER \<Rightarrow> (True, r\<lparr>parse_state := kGotAll\<rparr>)
              | _ \<Rightarrow> (True, r)))"

section \<open>parseRequest\<close>

text \<open>
  The body of the loop in each parse state. The loop goes round again only after the request
  line has been read, so it makes at most two turns: \<open>request_turn\<close>, then \<open>headers_turn\<close>.
\<close>

definition text_until :: "nat \<Rightarrow> buffer \<Rightarrow> string" where
  "text_until p b = string_of (segment (peek b) p (buffer_vec b))"

definition headers_turn :: "bool \<Rightarrow> buffer \<Rightarrow> RtspRequest \<Rightarrow> (bool \<times> buffer \<times> RtspRequest) result" where
  "headers_turn ret b r =
     (case findLastCRLF b of
        None \<Rightarrow> Inr (ret, b, r)
      | Some lastCrlf \<Rightarrow>
          (case parseHeadersLine (text_until lastCrlf b) r of (ok, r') \<Rightarrow>
             rbind (retrieveUntil (lastCrlf + 2) b) (\<lambda>b'. Inr (ok, b', r'))))"

definition request_turn :: "buffer \<Rightarrow> RtspRequest \<Rightarrow> (bool \<times> buffer \<times> RtspRequest) result" where
  "request_turn b r =
     (case findCRLF b of
        None \<Rightarrow> Inr (True, b, r)
      | Some firstCrlf \<Rightarrow>
          rbind (parseRequestLine (text_until firstCrlf b) r)
            (\<lambda>(ok, r'). rbind (retrieveUntil (firstCrlf + 2) b) (\<lambda>b'. Inr (ok, b', r'))))"

definition parseRequest :: "buffer \<Rightarrow> RtspRequest \<Rightarrow> (bool \<times> buffer \<times> RtspRequest) result" where
  "parseRequest b r =
     rbind (peek_at 0 b)
       (\<lambda>c. if c = byte_of_char CHR ''$'' then Inr (True, b, r\<lparr>req_method := RTCP\<rparr>)
            else (case parse_state r of
                    kParseRequestLine \<Rightarrow>
                      rbind (request_turn b r)
                        (\<lambda>(ret, b1, r1).
                           if parse_state r1 = kParseHeadersLine then headers_turn ret b1 r1
                           else Inr (ret, b1, r1))
                  | kParseHeadersLine \<Rightarrow> headers_turn True b r
                  | kGotAll \<Rightarrow> Inr (True, retrieveAll b, r)))"

section \<open>Accessors\<close>

definition num_param :: "params \<Rightarrow> string \<Rightarrow> u32" where
  "num_param m k = (case m k of Some (_, n) \<Rightarrow> n | None \<Rightarrow> 0)"

definition str_param :: "params \<Rightarrow> string \<Rightarrow> string" where
  "str_param m k = (case m k of Some (s, _) \<Rightarrow> s | None \<Rightarrow> '''')"

definition getCSeq :: "RtspRequest \<Rightarrow> u32" where
  "getCSeq r = num_param (headerLineParam r) ''cseq''"

definition getRtspUrl :: "RtspRequest \<Rightarrow> string" where
  "getRtspUrl r = str_param (requestLineParam r) ''url''"

definition getRtspUrlSuffix :: "RtspRequest \<Rightarrow> string" where
  "getRtspUrlSuffix r = str_param (requestLineParam r) ''url_suffix''"

definition getIp :: "RtspRequest \<Rightarrow> string" where
  "getIp r = str_param (requestLineParam r) ''url_ip''"

definition getRtpChannel :: "RtspRequest \<Rightarrow> u8" where
  "getRtpChannel r = ucast (num_param (headerLineParam r) ''rtp_channel'')"

definition getRtcpChannel :: "RtspRequest \<Rightarrow> u8" where
  "getRtcpChannel r = ucast (num_param (headerLineParam r) ''rtcp_channel'')"

definition getRtpPort :: "RtspRequest \<Rightarrow> u16" where
  "getRtpPort r = ucast (num_param (headerLineParam r) ''rtp_port'')"

definition getRtcpPort :: "RtspRequest \<Rightarrow> u16" where
  "getRtcpPort r = ucast (num_param (headerLineParam r) ''rtcp_port'')"

end
