(* ===== verification/Rtsp_Reply.thy ===== *)
theory Rtsp_Reply
  imports Rtsp_Message
begin

text \<open>
  The texts the server answers with (\<open>RtspRequest::build*Res\<close>) and the client side of the same
  file (\<open>RtspResponse\<close>). A builder returns what its buffer of \<open>bufSize\<close> characters holds as a
  C string; the number it returns is \<open>strlen\<close> of that.
\<close>

section \<open>Replies of the server\<close>

definition buildOptionRes :: "RtspRequest \<Rightarrow> nat \<Rightarrow> string" where
  "buildOptionRes r bufSize = snprintf bufSize
     (''RTSP/1.0 200 OK'' @ crlf @
      ''CSeq: '' @ fmt_u (getCSeq r) @ crlf @
      ''Public: OPTIONS, DESCRIBE, SETUP, TRARDOWN, PLAT'' @ crlf @
      crlf)"

definition buildDescribeRes :: "RtspRequest \<Rightarrow> nat \<Rightarrow> string \<Rightarrow> string" where
  "buildDescribeRes r bufSize strSdp = snprintf bufSize
     (''RTSP/1.0 200 OK'' @ crlf @
      ''CSeq: '' @ fmt_u (getCSeq r) @ crlf @
      ''Content-Length: '' @ int_str (int (strlen strSdp)) @ crlf @
      ''Content-Type: application/sdp'' @ crlf @
      crlf @
      c_str strSdp)"

definition buildSetupMulticastRes :: "RtspRequest \<Rightarrow> nat \<Rightarrow> string \<Rightarrow> u16 \<Rightarrow> u32 \<Rightarrow> string" where
  "buildSetupMulticastRes r bufSize strMulticastIp port sessionId = snprintf bufSize
     (''RTSP/1.0 200 OK'' @ crlf @
      ''CSeq: '' @ fmt_u (getCSeq r) @ crlf @
      ''Transport: RTP/AVP;multicast;destination='' @ c_str strMulticastIp @ '';source='' @ c_str (getIp r) @
        '';port='' @ fmt_u (ucast port) @ ''-0;ttl=255'' @ crlf @
      ''Session: '' @ fmt_u sessionId @ crlf @
      crlf)"

definition buildSetupTcpRes :: "RtspRequest \<Rightarrow> nat \<Rightarrow> u16 \<Rightarrow> u16 \<Rightarrow> u32 \<Rightarrow> string" where
  "buildSetupTcpRes r bufSize rtpChn rtcpChn sessionId = snprintf bufSize
     (''RTSP/1.0 200 OK'' @ crlf @
      ''CSeq: '' @ fmt_u (getCSeq r) @ crlf @
      ''Transport: RTP/AVP/TCP;unicast;interleaved='' @ nat_str (unat rtpChn) @ ''-'' @ nat_str (unat rtcpChn) @ crlf @
      ''Session: '' @ fmt_u sessionId @ crlf @
      crlf)"

definition buildSetupUdpRes :: "RtspRequest \<Rightarrow> nat \<Rightarrow> u16 \<Rightarrow> u16 \<Rightarrow> u32 \<Rightarrow> string" where
  "buildSetupUdpRes r bufSize rtpChn rtcpChn sessionId = snprintf bufSize
     (''RTSP/1.0 200 OK'' @ crlf @
      ''CSeq: '' @ fmt_u (getCSeq r) @ crlf @
      ''Transport: RTP/AVP;unicast;client_port='' @ nat_str (unat (getRtpPort r)) @ ''-'' @ nat_str (unat (getRtcpPort r)) @
        '';server_port='' @ nat_str (unat rtpChn) @ ''-'' @ nat_str (unat rtcpChn) @ crlf @
      ''Session: '' @ fmt_u sessionId @ crlf @
      crlf)"

text \<open>\<open>buildPlayRes\<close> prints in up to three steps, each behind what is already there.\<close>

definition snprintf_more :: "nat \<Rightarrow> string \<Rightarrow> string \<Rightarrow> string" where
  "snprintf_more bufSize buf s = buf @ snprintf (bufSize - strlen buf) s"

definition buildPlayRes :: "RtspRequest \<Rightarrow> nat \<Rightarrow> string option \<Rightarrow> u32 \<Rightarrow> string" where
  "buildPlayRes r bufSize rtpInfo sessionId =
     (let buf = snprintf bufSize
            (''RTSP/1.0 200 OK'' @ crlf @
             ''CSeq: '' @ fmt_d (getCSeq r) @ crlf @
             ''Range: npt=0.000-'' @ crlf @
             ''Session: '' @ fmt_u sessionId @ ''; timeout=60'' @ crlf);
          buf = (case rtpInfo of None \<Rightarrow> buf | Some info \<Rightarrow> snprintf_more bufSize buf (c_str info @ crlf))
      in snprintf_more bufSize buf crlf)"

definition buildTeardownRes :: "RtspRequest \<Rightarrow> nat \<Rightarrow> u32 \<Rightarrow> string" where
  "buildTeardownRes r bufSize sessionId = snprintf bufSize
     (''RTSP/1.0 200 OK'' @ crlf @
      ''CSeq: '' @ fmt_d (getCSeq r) @ crlf @
      ''Session: '' @ fmt_u sessionId @ crlf @
      crlf)"

definition buildGetParamterRes :: "RtspRequest \<Rightarrow> nat \<Rightarrow> u32 \<Rightarrow> string" where
  "buildGetParamterRes r bufSize sessionId = snprintf bufSize
     (''RTSP/1.0 200 OK'' @ crlf @
      ''CSeq: '' @ fmt_d (getCSeq r) @ crlf @
      ''Session: '' @ fmt_u sessionId @ crlf @
      crlf)"

definition buildNotFoundRes :: "RtspRequest \<Rightarrow> nat \<Rightarrow> string" where
  "buildNotFoundRes r bufSize = snprintf bufSize
     (''RTSP/1.0 404 Stream Not Found'' @ crlf @
      ''CSeq: '' @ fmt_u (getCSeq r) @ crlf @
      crlf)"

definition buildServerErrorRes :: "RtspRequest \<Rightarrow> nat \<Rightarrow> string" where
  "buildServerErrorRes r bufSize = snprintf bufSize
     (''RTSP/1.0 500 Internal Server Error'' @ crlf @
      ''CSeq: '' @ fmt_u (getCSeq r) @ crlf @
      crlf)"

definition buildUnsupportedRes :: "RtspRequest \<Rightarrow> nat \<Rightarrow> string" where
  "buildUnsupportedRes r bufSize = snprintf bufSize
     (''RTSP/1.0 461 Unsupported transport'' @ crlf @
      ''CSeq: '' @ fmt_d (getCSeq r) @ crlf @
      crlf)"

section \<open>The client side\<close>

datatype ClientMethod = C_OPTIONS | C_DESCRIBE | C_ANNOUNCE | C_SETUP | C_RECORD | C_RTCP | C_NONE

record RtspResponse =
  resp_method :: ClientMethod
  resp_cseq :: u32
  resp_userAgent :: string
  resp_rtspUrl :: string
  resp_session :: string

definition RtspResponse_init :: "ClientMethod \<Rightarrow> RtspResponse" where
  "RtspResponse_init m =
     \<lparr>resp_method = m, resp_cseq = 0, resp_userAgent = '''', resp_rtspUrl = '''', resp_session = ''''\<rparr>"

definition setUserAgent :: "string \<Rightarrow> RtspResponse \<Rightarrow> RtspResponse" where
  "setUserAgent ua c = c\<lparr>resp_userAgent := c_str ua\<rparr>"

definition setRtspUrl :: "string \<Rightarrow> RtspResponse \<Rightarrow> RtspResponse" where
  "setRtspUrl url c = c\<lparr>resp_rtspUrl := c_str url\<rparr>"

text \<open>
  \<open>buffer->peek()\<close> read as a C string: nothing ends it at the writable end, so it runs to the next
  NUL byte of the vector, and outside of it if there is none.
\<close>

definition peek_c_string :: "buffer \<Rightarrow> string result" where
  "peek_c_string b =
     (let rest = drop (peek b) (buffer_vec b)
      in if 0 \<in> set rest then Inr (string_of (takeWhile (\<lambda>x. x \<noteq> 0) rest)) else Inl OutOfBounds)"

text \<open>
  \<open>retrieveUntil\<close> is called with a string literal, which lies in no buffer: \<open>literal_offset\<close> is
  what the pointer subtraction makes of it, and the assertions hold only if that is at most what is readable.
\<close>

definition parseResponse :: "nat \<Rightarrow> buffer \<Rightarrow> RtspResponse \<Rightarrow> (bool \<times> buffer \<times> RtspResponse) result" where
  "parseResponse literal_offset b c =
     rbind (peek_c_string b)
       (\<lambda>s. if str_find (crlf @ crlf) s \<noteq> None
            then if str_find ''OK'' s = None then Inr (False, b, c)
                 else rbind
                   (case str_find ''Session'' s of
                      None \<Rightarrow> Inr c
                    | Some pos \<Rightarrow>
                        rbind (scan_into [50] (drop pos s) (scan_format ''%*[^:]: %s''))
                          (\<lambda>vs. Inr (case vs of [SStr w] \<Rightarrow> c\<lparr>resp_session := w\<rparr> | _ \<Rightarrow> c)))
                   (\<lambda>c'. rbind (retrieve literal_offset b) (\<lambda>b'. Inr (True, b', c'\<lparr>resp_cseq := resp_cseq c' + 1\<rparr>)))
            else Inr (True, b, c))"

definition buildOptionReq :: "RtspResponse \<Rightarrow> nat \<Rightarrow> string \<times> RtspResponse" where
  "buildOptionReq c bufSize =
     (snprintf bufSize
        (''OPTIONS '' @ c_str (resp_rtspUrl c) @ '' RTSP/1.0'' @ crlf @
         ''CSeq: '' @ fmt_u (resp_cseq c + 1) @ crlf @
         ''User-Agent: '' @ c_str (resp_userAgent c) @ crlf @
         crlf),
      c\<lparr>resp_method := C_OPTIONS\<rparr>)"

definition buildDescribeReq :: "RtspResponse \<Rightarrow> nat \<Rightarrow> string \<times> RtspResponse" where
  "buildDescribeReq c bufSize =
     (snprintf bufSize
        (''DESCRIBE '' @ c_str (resp_rtspUrl c) @ '' RTSP/1.0'' @ crlf @
         ''CSeq: '' @ fmt_u (resp_cseq c + 1) @ crlf @
         ''Accept: application/sdp'' @ crlf @
         ''User-Agent: '' @ c_str (resp_userAgent c) @ crlf @
         crlf),
      c\<lparr>resp_method := C_DESCRIBE\<rparr>)"

definition buildAnnounceReq :: "RtspResponse \<Rightarrow> nat \<Rightarrow> string \<Rightarrow> string \<times> RtspResponse" where
  "buildAnnounceReq c bufSize strSdp =
     (snprintf bufSize
        (''ANNOUNCE '' @ c_str (resp_rtspUrl c) @ '' RTSP/1.0'' @ crlf @
         ''Content-Type: application/sdp'' @ crlf @
         ''CSeq: '' @ fmt_u (resp_cseq c + 1) @ crlf @
         ''User-Agent: '' @ c_str (resp_userAgent c) @ crlf @
         ''Session: '' @ c_str (resp_session c) @ crlf @
         ''Content-Length: '' @ int_str (int (strlen strSdp)) @ crlf @
         crlf @
         c_str strSdp),
      c\<lparr>resp_method := C_ANNOUNCE\<rparr>)"

definition buildSetupTcpReq :: "RtspResponse \<Rightarrow> nat \<Rightarrow> int \<Rightarrow> string \<times> RtspResponse" where
  "buildSetupTcpReq c bufSize trackId =
     (let (i0, i1) = (if trackId = 1 then (2, 3) else (0, 1)) :: nat \<times> nat in
      (snprintf bufSize
        (''SETUP '' @ c_str (resp_rtspUrl c) @ ''/track'' @ int_str trackId @ '' RTSP/1.0'' @ crlf @
         ''Transport: RTP/AVP/TCP;unicast;mode=record;interleaved='' @ nat_str i0 @ ''-'' @ nat_str i1 @ crlf @
         ''CSeq: '' @ fmt_u (resp_cseq c + 1) @ crlf @
         ''User-Agent: '' @ c_str (resp_userAgent c) @ crlf @
         ''Session: '' @ c_str (resp_session c) @ crlf @
         crlf),
       c\<lparr>resp_method := C_SETUP\<rparr>))"

definition buildRecordReq :: "RtspResponse \<Rightarrow> nat \<Rightarrow> string \<times> RtspResponse" where
  "buildRecordReq c bufSize =
     (snprintf bufSize
        (''RECORD '' @ c_str (resp_rtspUrl c) @ '' RTSP/1.0'' @ crlf @
         ''Range: npt=0.000-'' @ crlf @
         ''CSeq: '' @ fmt_u (resp_cseq c + 1) @ crlf @
         ''User-Agent: '' @ c_str (resp_userAgent c) @ crlf @
         ''Session: '' @ c_str (resp_session c) @ crlf @
         crlf),
      c\<lparr>resp_method := C_RECORD\<rparr>)"

end
