(* ===== verification/Media_Session.thy ===== *)
theory Media_Session
  imports H264_Source Rtp_Connection Rtsp_Reply
begin

text \<open>
  A media session: \<open>src/media/media_session.h\<close>, \<open>media_session.cc\<close>, the SDP lines of
  \<open>h264_source.cc\<close> and the address lookup of \<open>address.h\<close>. The \<open>std::map\<close> of clients is a list
  sorted by descriptor; a \<open>weak_ptr\<close> is the number of an \<open>RtpConnection\<close> object, and \<open>live\<close> says which
  objects exist, \<open>tcp\<close> what locking their TCP connection gives. The mutexes make
  every operation one step. Tasks posted to the clients' loops are appended to one list.
\<close>

section \<open>State\<close>

record MediaSession =
  ms_id :: MediaSessionId
  ms_suffix :: string
  ms_sdp :: string
  ms_sources :: "MediaChannelId \<Rightarrow> MediaSource option"
  ms_clients :: "(int \<times> nat) list"
  ms_notify :: bool

text \<open>\<open>_sessionId = ++_lastMediaSessionId\<close>, a global counter that starts at 1.\<close>

definition MediaSession_new :: "string \<Rightarrow> u32 \<Rightarrow> MediaSession \<times> u32" where
  "MediaSession_new suffix lastId =
     (\<lparr>ms_id = lastId + 1, ms_suffix = suffix, ms_sdp = '''', ms_sources = (\<lambda>chn. None), ms_clients = [],
       ms_notify = False\<rparr>, lastId + 1)"

definition setRtspUrlSuffix :: "string \<Rightarrow> MediaSession \<Rightarrow> MediaSession" where
  "setRtspUrlSuffix suffix ss = ss\<lparr>ms_suffix := suffix\<rparr>"

definition setNotifyCallback :: "MediaSession \<Rightarrow> MediaSession" where
  "setNotifyCallback ss = ss\<lparr>ms_notify := True\<rparr>"

definition getNumClient :: "MediaSession \<Rightarrow> u32" where
  "getNumClient ss = word_of_nat (length (ms_clients ss))"

definition addMediaSource :: "MediaChannelId \<Rightarrow> MediaSource \<Rightarrow> MediaSession \<Rightarrow> bool \<times> MediaSession" where
  "addMediaSource chn source ss = (True, ss\<lparr>ms_sources := (ms_sources ss)(chn := Some source)\<rparr>)"

definition removeMediaSource :: "MediaChannelId \<Rightarrow> MediaSession \<Rightarrow> bool \<times> MediaSession" where
  "removeMediaSource chn ss = (True, ss\<lparr>ms_sources := (ms_sources ss)(chn := None)\<rparr>)"

definition getMediaSource :: "MediaChannelId \<Rightarrow> MediaSession \<Rightarrow> MediaSource option" where
  "getMediaSource chn ss = ms_sources ss chn"

section \<open>Clients\<close>

text \<open>The second component: the calls of the notification callback, if one is set.\<close>

definition notification :: "MediaSession \<Rightarrow> (MediaSessionId \<times> u32) list" where
  "notification ss = (if ms_notify ss then [(ms_id ss, getNumClient ss)] else [])"

definition addClient :: "int \<Rightarrow> nat \<Rightarrow> MediaSession \<Rightarrow> bool \<times> (MediaSessionId \<times> u32) list \<times> MediaSession" where
  "addClient rtspfd rtpConn ss =
     (if map_of (ms_clients ss) rtspfd = None
      then (let ss' = ss\<lparr>ms_clients := insort_key fst (rtspfd, rtpConn) (ms_clients ss)\<rparr>
            in (True, notification ss', ss'))
      else (False, [], ss))"

definition removeClient :: "int \<Rightarrow> MediaSession \<Rightarrow> (MediaSessionId \<times> u32) list \<times> MediaSession" where
  "removeClient rtspfd ss =
     (if map_of (ms_clients ss) rtspfd \<noteq> None
      then (let ss' = ss\<lparr>ms_clients := filter (\<lambda>(fd, r). fd \<noteq> rtspfd) (ms_clients ss)\<rparr>
            in (notification ss', ss'))
      else ([], ss))"

section \<open>Session description\<close>

record ifreq =
  ifr_flags :: int
  ifr_name :: string
  ifr_addr :: string

text \<open>
  \<open>getLocalIpAddress\<close>: \<open>sock\<close> is whether the socket could be created, \<open>ifs\<close> what the
  \<open>SIOCGIFCONF\<close> call delivered, if it succeeded. The pointer moves on only behind a loopback interface.
\<close>

definition AF_INET :: int where
  "AF_INET = 2"

fun first_address :: "nat \<Rightarrow> ifreq list \<Rightarrow> string" where
  "first_address 0 ifs = ''0.0.0.0''"
| "first_address (Suc i) [] = ''0.0.0.0''"
| "first_address (Suc i) (r # rs) =
     (if ifr_flags r = AF_INET
      then (if ifr_name r \<noteq> ''lo'' then ifr_addr r else first_address i rs)
      else first_address i (r # rs))"

definition getLocalIpAddress :: "bool \<Rightarrow> ifreq list option \<Rightarrow> string" where
  "getLocalIpAddress sock ifs =
     (if \<not> sock then ''0.0.0.0''
      else case ifs of None \<Rightarrow> ''0.0.0.0'' | Some rs \<Rightarrow> first_address (length rs) rs)"

definition getMediaDescription :: "u16 \<Rightarrow> string" where
  "getMediaDescription port = ''m=video '' @ nat_str (unat port) @ '' RTP/AVP 96''"

definition getAttribute :: string where
  "getAttribute = ''a=rtpmap:96 H264/90000''"

definition sdp_track :: "MediaSession \<Rightarrow> MediaChannelId \<Rightarrow> string \<Rightarrow> string" where
  "sdp_track ss chn buf =
     (case ms_sources ss chn of
        None \<Rightarrow> buf
      | Some src \<Rightarrow>
          (let buf = snprintf_more 1024 buf (c_str (getMediaDescription 0) @ crlf);
               buf = snprintf_more 1024 buf (c_str getAttribute @ crlf)
           in snprintf_more 1024 buf (''a=control:track'' @ nat_str (channel_num chn) @ crlf)))"

definition getSdpMessage :: "string \<Rightarrow> int \<Rightarrow> string \<Rightarrow> MediaSession \<Rightarrow> string \<times> MediaSession" where
  "getSdpMessage ip now sessionName ss =
     (if ms_sdp ss \<noteq> '''' then (ms_sdp ss, ss)
      else (let buf = snprintf 1024
                  (''v=0'' @ crlf @
                   ''o=- 9'' @ int_str now @ '' 1 IN IP4 '' @ c_str ip @ crlf @
                   ''t= 0 0'' @ crlf @
                   ''a= control:*'' @ crlf);
                buf = (if sessionName \<noteq> '''' then snprintf_more 1024 buf (''s='' @ c_str sessionName @ crlf) else buf);
                buf = sdp_track ss channel_1 (sdp_track ss channel_0 buf);
                sdp = c_str buf
            in (sdp, ss\<lparr>ms_sdp := sdp\<rparr>)))"

section \<open>Sending a frame to the clients\<close>

type_synonym live_conns = "nat \<rightharpoonup> RtpConnection"
type_synonym tcp_conns = "nat \<Rightarrow> tcp_ref option"
type_synonym posted = "nat \<times> MediaChannelId \<times> RtpPacket"

record cast_state =
  cs_clients :: "(int \<times> nat) list"
  cs_tasks :: "posted list"

text \<open>A packet of its own for a client: a new block, the first \<open>size\<close> bytes copied.\<close>

definition copy_packet :: "byte list \<Rightarrow> RtpPacket \<Rightarrow> RtpPacket result" where
  "copy_packet block pkt =
     rbind (memcpy block 0 (pkt_data pkt) 0 (unat (pkt_size pkt)))
       (\<lambda>d. Inr \<lparr>pkt_data = d, pkt_size = pkt_size pkt, pkt_timestamp = pkt_timestamp pkt,
                 pkt_type = pkt_type pkt, pkt_last = pkt_last pkt\<rparr>)"

text \<open>
  The first loop of the callback, under the lock: expired clients are erased, each connected
  client goes to the front of the list, and the packet is copied once per connection name.
\<close>

fun collect ::
  "live_conns \<Rightarrow> tcp_conns \<Rightarrow> (nat \<Rightarrow> byte list) \<Rightarrow> RtpPacket \<Rightarrow> (int \<times> nat) list \<Rightarrow>
     (string \<rightharpoonup> RtpPacket) \<Rightarrow> nat list \<Rightarrow> ((int \<times> nat) list \<times> (string \<rightharpoonup> RtpPacket) \<times> nat list) result" where
  "collect live tcp fresh pkt [] packets conns = Inr ([], packets, conns)"
| "collect live tcp fresh pkt ((fd, r) # cs) packets conns =
     (if live r = None then collect live tcp fresh pkt cs packets conns
      else let id = getId (tcp r) in
        rbind (if id = '''' then Inr (packets, conns)
               else rbind (if packets id = None
                           then rbind (copy_packet (fresh r) pkt) (\<lambda>p. Inr (packets(id \<mapsto> p)))
                           else Inr packets)
                      (\<lambda>packets'. Inr (packets', r # conns)))
          (\<lambda>(packets', conns').
             rbind (collect live tcp fresh pkt cs packets' conns')
               (\<lambda>(cs', packets'', conns''). Inr ((fd, r) # cs', packets'', conns''))))"

text \<open>The second loop: each client of the list gets its copy.\<close>

fun deliver :: "live_conns \<Rightarrow> tcp_conns \<Rightarrow> MediaChannelId \<Rightarrow> (string \<rightharpoonup> RtpPacket) \<Rightarrow> nat list \<Rightarrow> posted list" where
  "deliver live tcp chn packets [] = []"
| "deliver live tcp chn packets (r # rs) =
     (let id = getId (tcp r) in
      (if id \<noteq> '''' then
         (case packets id of
            None \<Rightarrow> []
          | Some p \<Rightarrow>
              (case live r of
                 None \<Rightarrow> []
               | Some c \<Rightarrow> (case snd (sendRtpPacket (tcp r) chn p c) of None \<Rightarrow> [] | Some (ch, p') \<Rightarrow> [(r, ch, p')])))
       else []) @ deliver live tcp chn packets rs)"

definition send_frame_callback :: "live_conns \<Rightarrow> tcp_conns \<Rightarrow> (nat \<Rightarrow> nat \<Rightarrow> byte list) \<Rightarrow> cast_state result send_callback" where
  "send_frame_callback live tcp fresh chn pkt rcs =
     (True,
      rbind rcs (\<lambda>cs.
        rbind (collect live tcp (fresh (length (cs_tasks cs))) pkt (cs_clients cs) Map.empty [])
          (\<lambda>(clients', packets, conns).
             Inr (cs\<lparr>cs_clients := clients', cs_tasks := cs_tasks cs @ deliver live tcp chn packets conns\<rparr>))))"

text \<open>\<open>blocks\<close> and \<open>fresh\<close>: the uninitialised contents of the source's and of the copies' new blocks.\<close>

definition session_handleFrame ::
  "live_conns \<Rightarrow> tcp_conns \<Rightarrow> (nat \<Rightarrow> nat \<Rightarrow> byte list) \<Rightarrow> (nat \<Rightarrow> byte list) \<Rightarrow> nat \<Rightarrow> MediaChannelId \<Rightarrow> AVFrame \<Rightarrow>
     MediaSession \<Rightarrow> (bool \<times> posted list \<times> MediaSession) result" where
  "session_handleFrame live tcp fresh blocks now chn frame ss =
     (case ms_sources ss chn of
        None \<Rightarrow> Inr (False, [], ss)
      | Some src \<Rightarrow>
          rbind (handleFrame (Some (send_frame_callback live tcp fresh)) blocks now chn frame
                   (Inr \<lparr>cs_clients = ms_clients ss, cs_tasks = []\<rparr>))
            (\<lambda>(ok, rcs). rbind rcs (\<lambda>cs. Inr (True, cs_tasks cs, ss\<lparr>ms_clients := cs_clients cs\<rparr>))))"

end
