(* ===== verification/Rtsp.thy ===== *)
theory Rtsp
  imports Media_Session
begin

text \<open>
  What RTSP connections and the server share: the base class of \<open>src/media/rtsp.h\<close>, the tables of
  media sessions of \<open>RtspServer\<close> (a connection reaches them through the virtual
  \<open>lookMediaSession\<close>) and the store of \<open>RtpConnection\<close> objects, which connections own and
  sessions know by number. \<open>rtpTcps\<close> is the TCP connection each object was made for: the RTSP
  connection that owns the object holds it too, so \<open>lock\<close> succeeds as long as the object exists.
\<close>

section \<open>State\<close>

record RtspUrlInfo =
  info_url :: string
  info_ip :: string
  info_port :: u16
  info_suffix :: string

record Rtsp =
  rtspVersion :: string
  rtspUrlInfo :: RtspUrlInfo
  mediaSessions :: "MediaSessionId \<rightharpoonup> MediaSession"
  rtspSuffixMap :: "string \<rightharpoonup> MediaSessionId"
  rtpConns :: live_conns
  rtpTcps :: tcp_conns
  nextRtp :: nat

definition setVersion :: "string \<Rightarrow> 'a Rtsp_scheme \<Rightarrow> 'a Rtsp_scheme" where
  "setVersion v s = s\<lparr>rtspVersion := v\<rparr>"

definition getVersion :: "'a Rtsp_scheme \<Rightarrow> string" where
  "getVersion s = rtspVersion s"

definition getRtspUrlInfo :: "'a Rtsp_scheme \<Rightarrow> string" where
  "getRtspUrlInfo s = info_url (rtspUrlInfo s)"

text \<open>
  \<open>parseRtspUrl\<close> looks at \<open>url.c_str() + 7\<close> without a look at the length. \<open>ip\<close> has 16 characters,
  \<open>suffix\<close> 128.
\<close>

definition parseRtspUrl :: "string \<Rightarrow> 'a Rtsp_scheme \<Rightarrow> (bool \<times> 'a Rtsp_scheme) result" where
  "parseRtspUrl url s =
     (if length url < 7 then Inl OutOfBounds
      else rbind (parse_url_tail 128 (c_str (drop 7 url)))
        (\<lambda>tail. case tail of
           None \<Rightarrow> Inr (False, s)
         | Some (ip, port, suffix) \<Rightarrow>
             Inr (True, s\<lparr>rtspUrlInfo := \<lparr>info_url = url, info_ip = ip, info_port = port, info_suffix = suffix\<rparr>\<rparr>)))"

section \<open>Media sessions\<close>

text \<open>
  \<open>lookMediaSession\<close> by suffix reads \<open>_mediaSessions[id]\<close>: an id without a session would give (and
  insert) a null pointer.
\<close>

definition lookMediaSession_suffix :: "string \<Rightarrow> 'a Rtsp_scheme \<Rightarrow> MediaSession option" where
  "lookMediaSession_suffix suffix s =
     (case rtspSuffixMap s suffix of None \<Rightarrow> None | Some k \<Rightarrow> mediaSessions s k)"

definition lookMediaSession_id :: "MediaSessionId \<Rightarrow> 'a Rtsp_scheme \<Rightarrow> MediaSession option" where
  "lookMediaSession_id sessionId s = mediaSessions s sessionId"

text \<open>The base class's own look-ups, for an \<open>Rtsp\<close> that is no server.\<close>

definition Rtsp_lookMediaSession_suffix :: "string \<Rightarrow> MediaSession option" where
  "Rtsp_lookMediaSession_suffix suffix = None"

definition Rtsp_lookMediaSession_id :: "MediaSessionId \<Rightarrow> MediaSession option" where
  "Rtsp_lookMediaSession_id sessionId = None"

text \<open>A write through the pointer \<open>lookMediaSession\<close> returned; a write through an \<open>RtpConnection\<close> pointer.\<close>

definition put_session :: "MediaSession \<Rightarrow> 'a Rtsp_scheme \<Rightarrow> 'a Rtsp_scheme" where
  "put_session ss s = s\<lparr>mediaSessions := (mediaSessions s)(ms_id ss \<mapsto> ss)\<rparr>"

definition put_rtp :: "nat \<Rightarrow> RtpConnection \<Rightarrow> 'a Rtsp_scheme \<Rightarrow> 'a Rtsp_scheme" where
  "put_rtp r c s = s\<lparr>rtpConns := (rtpConns s)(r \<mapsto> c)\<rparr>"

definition addMediaSession :: "MediaSession \<Rightarrow> 'a Rtsp_scheme \<Rightarrow> MediaSessionId \<times> 'a Rtsp_scheme" where
  "addMediaSession ss s =
     (if rtspSuffixMap s (ms_suffix ss) \<noteq> None then (0, s)
      else (ms_id ss,
            s\<lparr>rtspSuffixMap := (rtspSuffixMap s)(ms_suffix ss \<mapsto> ms_id ss),
              mediaSessions := (if mediaSessions s (ms_id ss) = None
                                then (mediaSessions s)(ms_id ss \<mapsto> ss) else mediaSessions s)\<rparr>))"

definition removeMediaSession :: "MediaSessionId \<Rightarrow> 'a Rtsp_scheme \<Rightarrow> 'a Rtsp_scheme" where
  "removeMediaSession sessionId s =
     (case mediaSessions s sessionId of
        None \<Rightarrow> s
      | Some ss \<Rightarrow> s\<lparr>rtspSuffixMap := (rtspSuffixMap s)(ms_suffix ss := None),
                     mediaSessions := (mediaSessions s)(sessionId := None)\<rparr>)"

section \<open>The two tables agree\<close>

text \<open>
  The invariant of the session tables: every session is filed under its own id, which is never
  0 (the answer of a refused \<open>addMediaSession\<close> and a connection's id before DESCRIBE), and the two maps are inverse to each other.
\<close>

definition tables_inv :: "'a Rtsp_scheme \<Rightarrow> bool" where
  "tables_inv s \<longleftrightarrow>
     mediaSessions s 0 = None \<and>
     (\<forall>k ss. mediaSessions s k = Some ss \<longrightarrow> ms_id ss = k \<and> rtspSuffixMap s (ms_suffix ss) = Some k) \<and>
     (\<forall>suffix k. rtspSuffixMap s suffix = Some k \<longrightarrow> (\<exists>ss. mediaSessions s k = Some ss \<and> ms_suffix ss = suffix))"

definition Rtsp_init :: "string \<Rightarrow> RtspUrlInfo \<Rightarrow> Rtsp" where
  "Rtsp_init version info =
     \<lparr>rtspVersion = version, rtspUrlInfo = info, mediaSessions = Map.empty, rtspSuffixMap = Map.empty,
      rtpConns = Map.empty, rtpTcps = (\<lambda>r. None), nextRtp = 0\<rparr>"

lemma tables_inv_init: "tables_inv (Rtsp_init v i)"
  by (simp add: tables_inv_def Rtsp_init_def)

lemma tables_inv_put:
  assumes "tables_inv s" "mediaSessions s (ms_id ss) = Some old" "ms_suffix ss = ms_suffix old"
  shows "tables_inv (put_session ss s)"
proof -
  have "ms_id ss \<noteq> 0" using assms(1,2) by (auto simp: tables_inv_def)
  moreover have "rtspSuffixMap s (ms_suffix ss) = Some (ms_id ss)"
    using assms by (auto simp: tables_inv_def)
  moreover have "\<exists>x. ((mediaSessions s)(ms_id ss \<mapsto> ss)) k = Some x \<and> ms_suffix x = suffix"
    if "rtspSuffixMap s suffix = Some k" for suffix k
    using that assms unfolding tables_inv_def by (cases "k = ms_id ss") force+
  ultimately show ?thesis
    using assms(1) unfolding tables_inv_def put_session_def by auto
qed

lemma tables_inv_frame:
  "mediaSessions s' = mediaSessions s \<Longrightarrow> rtspSuffixMap s' = rtspSuffixMap s \<Longrightarrow> tables_inv s' = tables_inv s"
  by (simp add: tables_inv_def)

lemma tables_inv_add:
  assumes "tables_inv s" "ms_id ss \<noteq> 0" "mediaSessions s (ms_id ss) = None"
  shows "tables_inv (snd (addMediaSession ss s))"
proof (cases "rtspSuffixMap s (ms_suffix ss)")
  case None
  then show ?thesis
    using assms unfolding tables_inv_def addMediaSession_def by (auto split: if_splits) (metis option.distinct(1))+
next
  case (Some k)
  then show ?thesis using assms by (simp add: addMediaSession_def)
qed

lemma tables_inv_remove:
  assumes "tables_inv s"
  shows "tables_inv (removeMediaSession sessionId s)"
proof (cases "mediaSessions s sessionId")
  case None
  then show ?thesis using assms by (simp add: removeMediaSession_def)
next
  case (Some ss)
  then show ?thesis
    using assms unfolding tables_inv_def removeMediaSession_def by (auto split: if_splits) (metis option.inject)+
qed

end
