(* ===== verification/Rtsp_Connection.thy ===== *)
theory Rtsp_Connection
  imports Rtsp
begin

text \<open>
  One RTSP client: \<open>src/media/rtsp_connection.h\<close>, \<open>rtsp_connection.cc\<close>. A handler takes the shared
  state (\<open>Rtsp\<close>), the connection and what the environment answers during the call, and returns the
  outputs in order, both states updated, or the fault of a null \<open>_rtpConnPtr\<close>. A
  member function called through that pointer while it is null is the fault \<open>NullDeref\<close>.
\<close>

section \<open>State\<close>

datatype ConnectionMode = RTSP_SERVER | RTSP_PUSHER

datatype ConnectionState = START_CONNECT | START_PLAY | START_PUSH

record RtspConnection =
  tcpConn :: tcp_ref
  connMode :: ConnectionMode
  connState :: ConnectionState
  sessionId :: MediaSessionId
  rtspRequest :: RtspRequest
  rtspResponse :: RtspResponse
  rtpConnPtr :: "nat option"

text \<open>
  What the world outside answers during one call: the local address, the time, the address of each
  \<open>RtpConnection\<close> object, the memory of a new one, the random device, the peer's address, the socket
  attempts, and the distance of a string literal from the buffer's read pointer.
\<close>

record env =
  env_ip :: string
  env_time :: int
  env_address :: "nat \<Rightarrow> u64"
  env_memory :: RtpConnection
  env_random :: "nat \<Rightarrow> u32"
  env_peer :: u32
  env_attempts :: "nat \<Rightarrow> udp_attempt"
  env_literal :: nat

datatype rtsp_out =
    Message string
  | Shutdown
  | ForceCloseWithDelay nat
  | Descriptors "fd_event list"
  | Notify "(MediaSessionId \<times> u32) list"

type_synonym 'a handler = "'a Rtsp_scheme \<Rightarrow> RtspConnection \<Rightarrow> (rtsp_out list \<times> 'a Rtsp_scheme \<times> RtspConnection) result"

definition RtspConnection_new :: "RtspRequest \<Rightarrow> ClientMethod \<Rightarrow> tcp_ref \<Rightarrow> RtspConnection" where
  "RtspConnection_new memory m conn =
     \<lparr>tcpConn = conn, connMode = RTSP_SERVER, connState = START_CONNECT, sessionId = 0,
      rtspRequest = RtspRequest_init (req_method memory) (req_channelId memory) (req_transport memory),
      rtspResponse = RtspResponse_init m, rtpConnPtr = None\<rparr>"

definition isPlayState :: "RtspConnection \<Rightarrow> bool" where
  "isPlayState c \<longleftrightarrow> connState c = START_PLAY"

definition isRecordState :: "RtspConnection \<Rightarrow> bool" where
  "isRecordState c \<longleftrightarrow> connState c = START_PUSH"

definition MAX_RTSP_MESSAGE_SIZE :: nat where
  "MAX_RTSP_MESSAGE_SIZE = 2048"

section \<open>RTCP\<close>

text \<open>
  The length field is put together from two \<open>char\<close>s, which are signed: each is sign-extended to
  an \<open>int\<close> first. The comparison is between a \<open>uint32_t\<close> sum and a \<open>size_t\<close>.
\<close>

definition rtcp_size :: "byte \<Rightarrow> byte \<Rightarrow> u32" where
  "rtcp_size hi lo = push_bit 8 (scast hi) OR scast lo"

definition handleRtcp :: "buffer \<Rightarrow> buffer result" where
  "handleRtcp buf =
     rbind (peek_at 0 buf)
       (\<lambda>c. if c = byte_of_char CHR ''$'' \<and> 4 < readableBytes buf
            then rbind (peek_at 2 buf) (\<lambda>hi. rbind (peek_at 3 buf) (\<lambda>lo.
                   let pktSize = rtcp_size hi lo
                   in if readableBytes buf \<le> unat (pktSize + 4)
                      then retrieve (unat (pktSize + 4)) buf else Inr buf))
            else Inr buf)"

section \<open>Commands\<close>

definition session_number :: "env \<Rightarrow> nat \<Rightarrow> u32" where
  "session_number e r = ucast (ucast (getRtpSessionId (env_address e r)) :: u16)"

definition with_rtp :: "RtspConnection \<Rightarrow> 'a Rtsp_scheme \<Rightarrow> (nat \<Rightarrow> RtpConnection \<Rightarrow> 'b result) \<Rightarrow> 'b result" where
  "with_rtp c s f =
     (case rtpConnPtr c of
        None \<Rightarrow> Inl NullDeref
      | Some r \<Rightarrow> (case rtpConns s r of None \<Rightarrow> Inl NullDeref | Some rtp \<Rightarrow> f r rtp))"

definition handleCmdOption :: "'a handler" where
  "handleCmdOption s c = Inr ([Message (buildOptionRes (rtspRequest c) 1024)], s, c)"

text \<open>\<open>_rtpConnPtr.reset(new RtpConnection(_tcpConn))\<close> when there is none yet.\<close>

definition ensure_rtp :: "env \<Rightarrow> 'a Rtsp_scheme \<Rightarrow> RtspConnection \<Rightarrow> nat \<times> 'a Rtsp_scheme \<times> RtspConnection" where
  "ensure_rtp e s c =
     (case rtpConnPtr c of
        Some r \<Rightarrow> (r, s, c)
      | None \<Rightarrow>
          (let r = nextRtp s
           in (r, s\<lparr>rtpConns := (rtpConns s)(r \<mapsto> RtpConnection_new (env_random e) (env_memory e)),
                 rtpTcps := (rtpTcps s)(r := Some (tcpConn c)), nextRtp := r + 1\<rparr>,
               c\<lparr>rtpConnPtr := Some r\<rparr>)))"

definition describe_track :: "MediaSession \<Rightarrow> MediaChannelId \<Rightarrow> RtpConnection \<Rightarrow> RtpConnection" where
  "describe_track ss chn rtp =
     (case getMediaSource chn ss of
        None \<Rightarrow> rtp
      | Some source \<Rightarrow> setPayloadType chn (payloadType source) (setClockRate chn (sourceClockRate source) rtp))"

definition handleCmdDescribe :: "env \<Rightarrow> 'a handler" where
  "handleCmdDescribe e s0 c0 =
     (case ensure_rtp e s0 c0 of (r, s, c) \<Rightarrow>
        case lookMediaSession_suffix (getRtspUrlSuffix (rtspRequest c)) s of
          None \<Rightarrow> Inr ([Message (buildNotFoundRes (rtspRequest c) 1024)], s, c)
        | Some ss \<Rightarrow>
            (let c = c\<lparr>sessionId := ms_id ss\<rparr>;
                 added = addClient (tcp_fd (tcpConn c)) r ss;
                 notes = fst (snd added); ss = snd (snd added)
             in with_rtp c s (\<lambda>r rtp.
                  let rtp = describe_track ss channel_1 (describe_track ss channel_0 rtp);
                      described = getSdpMessage (env_ip e) (env_time e) (getVersion s) ss;
                      sdp = fst described; ss = snd described;
                      reply = (if sdp = '''' then buildServerErrorRes (rtspRequest c) 1024
                               else buildDescribeRes (rtspRequest c) 1024 sdp)
                  in Inr ([Notify notes, Message reply], put_rtp r rtp (put_session ss s), c))))"

definition server_error :: "'a handler" where
  "server_error s c = Inr ([Message (buildServerErrorRes (rtspRequest c) 1024)], s, c)"

definition handleCmdSetup :: "env \<Rightarrow> 'a handler" where
  "handleCmdSetup e s c =
     (let req = rtspRequest c; chn = req_channelId req in
      case lookMediaSession_id (sessionId c) s of
        None \<Rightarrow> server_error s c
      | Some ss \<Rightarrow>
          (case req_transport req of
             RTP_OVER_TCP \<Rightarrow>
               with_rtp c s (\<lambda>r rtp.
                 let rtpChn = ucast (getRtpChannel req); rtcpChn = ucast (getRtcpChannel req);
                     rtp = snd (setupRtpOverTcp (Some (tcpConn c)) chn rtpChn rtcpChn rtp)
                 in Inr ([Message (buildSetupTcpRes req 1024 rtpChn rtcpChn (session_number e r))], put_rtp r rtp s, c))
           | RTP_OVER_UDP \<Rightarrow>
               with_rtp c s (\<lambda>r rtp.
                 case setupRtpOverUdp (Some (tcpConn c)) (env_peer e) (env_attempts e) chn (getRtpPort req) (getRtcpPort req) rtp of
                   (ok, evs, rtp) \<Rightarrow>
                     if ok then Inr ([Descriptors evs,
                                      Message (buildSetupUdpRes req 1024 (getLocalRtpPort chn rtp) (getLocalRtcpPort chn rtp) (session_number e r))],
                                     put_rtp r rtp s, c)
                     else rbind (server_error (put_rtp r rtp s) c) (\<lambda>(outs, s, c). Inr (Descriptors evs # outs, s, c)))
           | RTP_OVER_MULTICAST \<Rightarrow> Inr ([Message (buildUnsupportedRes req 1024)], s, c)))"

definition handleCmdPlay :: "env \<Rightarrow> 'a handler" where
  "handleCmdPlay e s c0 =
     (let c = c0\<lparr>connState := START_PLAY\<rparr>
      in with_rtp c s (\<lambda>r rtp.
           Inr ([Message (buildPlayRes (rtspRequest c) 1024 None (session_number e r))], put_rtp r (rtp_play rtp) s, c)))"

definition handleCmdTeardown :: "env \<Rightarrow> 'a handler" where
  "handleCmdTeardown e s c =
     with_rtp c s (\<lambda>r rtp.
       Inr ([Message (buildTeardownRes (rtspRequest c) 1024 (session_number e r)), Shutdown, ForceCloseWithDelay 3],
            put_rtp r (rtp_teardown rtp) s, c))"

definition handleCmdGetParamter :: "env \<Rightarrow> 'a handler" where
  "handleCmdGetParamter e s c =
     with_rtp c s (\<lambda>r rtp. Inr ([Message (buildGetParamterRes (rtspRequest c) 1024 (session_number e r))], s, c))"

definition handle_command :: "env \<Rightarrow> Method \<Rightarrow> 'a handler" where
  "handle_command e m s c =
     (case m of
        OPTIONS \<Rightarrow> handleCmdOption s c
      | DESCRIBE \<Rightarrow> handleCmdDescribe e s c
      | SETUP \<Rightarrow> handleCmdSetup e s c
      | PLAY \<Rightarrow> handleCmdPlay e s c
      | TEARDOWN \<Rightarrow> handleCmdTeardown e s c
      | GET_PARAMETER \<Rightarrow> handleCmdGetParamter e s c
      | _ \<Rightarrow> Inr ([], s, c))"

section \<open>Messages\<close>

definition handleRtspRequest ::
  "env \<Rightarrow> buffer \<Rightarrow> 'a Rtsp_scheme \<Rightarrow> RtspConnection \<Rightarrow> (bool \<times> rtsp_out list \<times> buffer \<times> 'a Rtsp_scheme \<times> RtspConnection) result" where
  "handleRtspRequest e buf s c0 =
     rbind (parseRequest buf (rtspRequest c0))
       (\<lambda>(ok, buf, req).
          let c = c0\<lparr>rtspRequest := req\<rparr> in
          if \<not> ok then Inr (False, [], buf, s, c)
          else if req_method req = RTCP then rbind (handleRtcp buf) (\<lambda>buf. Inr (True, [], buf, s, c))
          else if \<not> gotAll req then Inr (True, [], buf, s, c)
          else rbind (handle_command e (req_method req) s c)
                 (\<lambda>(outs, s, c).
                    Inr (True, outs, buf, s,
                         if gotAll (rtspRequest c) then c\<lparr>rtspRequest := req_reset (rtspRequest c)\<rparr> else c)))"

text \<open>The senders of the pushing client have empty bodies, so a response changes nothing but the parser's state.\<close>

definition handleRtspResponse :: "env \<Rightarrow> buffer \<Rightarrow> RtspConnection \<Rightarrow> (buffer \<times> RtspConnection) result" where
  "handleRtspResponse e buf c =
     rbind (parseResponse (env_literal e) buf (rtspResponse c))
       (\<lambda>(ok, buf, resp). Inr (buf, c\<lparr>rtspResponse := resp\<rparr>))"

definition handleRtspMessage ::
  "env \<Rightarrow> buffer \<Rightarrow> 'a Rtsp_scheme \<Rightarrow> RtspConnection \<Rightarrow> (rtsp_out list \<times> buffer \<times> 'a Rtsp_scheme \<times> RtspConnection) result" where
  "handleRtspMessage e buf s c =
     rbind (case connMode c of
              RTSP_SERVER \<Rightarrow> rbind (handleRtspRequest e buf s c) (\<lambda>(ok, outs, buf, s, c). Inr (outs, buf, s, c))
            | RTSP_PUSHER \<Rightarrow> rbind (handleRtspResponse e buf c) (\<lambda>(buf, c). Inr ([], buf, s, c)))
       (\<lambda>(outs, buf, s, c).
          Inr (outs, if MAX_RTSP_MESSAGE_SIZE < readableBytes buf then retrieveAll buf else buf, s, c))"

end
