(* ===== verification/Rtsp_Server.thy ===== *)
theory Rtsp_Server
  imports Rtsp_Connection
begin

text \<open>
  The server: \<open>src/media/rtsp_server.h\<close>, \<open>rtsp_server.cc\<close>. It adds to the shared state the map of
  connections by name, the input buffer the network library keeps for each, and the tasks
  \<open>sendRtpPacket\<close> has posted to the loop. A step is one callback or one call of the API; the mutex makes
  the calls of the frame thread steps of their own.
\<close>

section \<open>State and callbacks\<close>

record RtspServer = Rtsp +
  rtspConnMap :: "string \<rightharpoonup> RtspConnection"
  inputBuffers :: "string \<Rightarrow> buffer"
  loopTasks :: "posted list"

definition RtspServer_new :: "RtspUrlInfo \<Rightarrow> RtspServer" where
  "RtspServer_new info =
     \<lparr>rtspVersion = '''', rtspUrlInfo = info, mediaSessions = Map.empty, rtspSuffixMap = Map.empty,
      rtpConns = Map.empty, rtpTcps = (\<lambda>r. None), nextRtp = 0,
      rtspConnMap = Map.empty, inputBuffers = (\<lambda>name. Buffer_init kInitialSize), loopTasks = []\<rparr>"

text \<open>Releasing a connection releases the \<open>RtpConnection\<close> it owns.\<close>

definition destroy_conn :: "RtspConnection \<Rightarrow> RtspServer \<Rightarrow> rtsp_out list \<times> RtspServer" where
  "destroy_conn c s =
     (case rtpConnPtr c of
        None \<Rightarrow> ([], s)
      | Some r \<Rightarrow>
          ((case rtpConns s r of None \<Rightarrow> [] | Some rtp \<Rightarrow> [Descriptors (RtpConnection_destroy rtp)]),
           s\<lparr>rtpConns := (rtpConns s)(r := None)\<rparr>))"

definition release_name :: "string \<Rightarrow> RtspServer \<Rightarrow> rtsp_out list \<times> RtspServer" where
  "release_name name s =
     (case rtspConnMap s name of
        None \<Rightarrow> ([], s)
      | Some c \<Rightarrow> (case destroy_conn c s of (outs, s) \<Rightarrow> (outs, s\<lparr>rtspConnMap := (rtspConnMap s)(name := None)\<rparr>)))"

text \<open>\<open>memory\<close>, \<open>m\<close>: what the uninitialised members of the new request and response hold.\<close>

definition onConnection :: "bool \<Rightarrow> tcp_ref \<Rightarrow> RtspRequest \<Rightarrow> ClientMethod \<Rightarrow> RtspServer \<Rightarrow> rtsp_out list \<times> RtspServer" where
  "onConnection connected conn memory m s =
     (if connected
      then (case release_name (tcp_name conn) s of
              (outs, s) \<Rightarrow>
                (outs, s\<lparr>rtspConnMap := (rtspConnMap s)(tcp_name conn \<mapsto> RtspConnection_new memory m conn),
                         inputBuffers := (inputBuffers s)(tcp_name conn := Buffer_init kInitialSize)\<rparr>))
      else release_name (tcp_name conn) s)"

text \<open>
  \<open>_rtspConnMap[name]\<close> makes a null entry for a name it does not know, and the call through it
  faults. \<open>received\<close> is what the last read appended to the input buffer.
\<close>

definition onMessage :: "env \<Rightarrow> string \<Rightarrow> byte list \<Rightarrow> RtspServer \<Rightarrow> (rtsp_out list \<times> RtspServer) result" where
  "onMessage e name received s =
     (case rtspConnMap s name of
        None \<Rightarrow> Inl NullDeref
      | Some c \<Rightarrow>
          rbind (handleRtspMessage e (buf_append received (inputBuffers s name)) s c)
            (\<lambda>(outs, buf, s, c).
               Inr (outs, s\<lparr>rtspConnMap := (rtspConnMap s)(name \<mapsto> c), inputBuffers := (inputBuffers s)(name := buf)\<rparr>)))"

definition pushFrame ::
  "(nat \<Rightarrow> nat \<Rightarrow> byte list) \<Rightarrow> (nat \<Rightarrow> byte list) \<Rightarrow> nat \<Rightarrow> MediaSessionId \<Rightarrow> MediaChannelId \<Rightarrow> AVFrame \<Rightarrow> RtspServer \<Rightarrow>
     (bool \<times> RtspServer) result" where
  "pushFrame fresh blocks now k chn frame s =
     (case mediaSessions s k of
        None \<Rightarrow> Inr (False, s)
      | Some ss \<Rightarrow>
          if getNumClient ss \<noteq> 0
          then rbind (session_handleFrame (rtpConns s) (rtpTcps s) fresh blocks now chn frame ss)
                 (\<lambda>(ok, ps, ss'). Inr (ok, (put_session ss' s)\<lparr>loopTasks := loopTasks s @ ps\<rparr>))
          else Inr (False, s))"

text \<open>
  The loop runs its next task. The task's closure holds a plain \<open>this\<close> pointer: if the object is
  gone by then, running it is a fault.
\<close>

definition run_task :: "int \<Rightarrow> RtspServer \<Rightarrow> ((nat \<times> rtp_out) list \<times> RtspServer) result" where
  "run_task sent s =
     (case loopTasks s of
        [] \<Rightarrow> Inr ([], s)
      | (r, chn, pkt) # rest \<Rightarrow>
          (case rtpConns s r of
             None \<Rightarrow> Inl NullDeref
           | Some rtp \<Rightarrow>
               rbind (rtp_task (rtpTcps s r) sent (chn, pkt) rtp)
                 (\<lambda>(out, rtp'). Inr (map (Pair r) out, (put_rtp r rtp' s)\<lparr>loopTasks := rest\<rparr>))))"

text \<open>The loop runs the tasks queued by now, each once.\<close>

fun run_loop :: "nat \<Rightarrow> int \<Rightarrow> RtspServer \<Rightarrow> ((nat \<times> rtp_out) list \<times> RtspServer) result" where
  "run_loop 0 sent s = Inr ([], s)"
| "run_loop (Suc n) sent s =
     rbind (run_task sent s) (\<lambda>(outs, s1). rbind (run_loop n sent s1) (\<lambda>(outs', s2). Inr (outs @ outs', s2)))"

definition drain :: "int \<Rightarrow> RtspServer \<Rightarrow> ((nat \<times> rtp_out) list \<times> RtspServer) result" where
  "drain sent s = run_loop (length (loopTasks s)) sent s"

end
