(* ===== verification/Rtsp_Parse_Lemmas.thy ===== *)
theory Rtsp_Parse_Lemmas
  imports Rtsp_Message
begin

text \<open>
  What the RTSP parser makes of text: searching in concatenations, the text between two buffer
  positions, the invariant of a request between two calls of \<open>parseRequest\<close>, and the parser's
  result on the requests a well-behaved client writes.
\<close>

section \<open>Searching in concatenations\<close>

lemma str_find_skip:
  assumes "p \<noteq> []" "hd p \<notin> set l"
  shows "str_find p (l @ r) = map_option (\<lambda>k. length l + k) (str_find p r)"
  using assms(2)
proof (induction l)
  case Nil
  then show ?case by (simp add: option.map_ident)
next
  case (Cons x l)
  obtain c ps where p: "p = c # ps" using assms(1) by (cases p) auto
  with Cons.prems have "\<not> starts_with p ((x # l) @ r)" by auto
  with Cons show ?case by (cases "str_find p r") simp_all
qed

lemma str_find_here: "p \<noteq> [] \<Longrightarrow> str_find p (p @ r) = Some 0"
  by (cases p) simp_all

lemma str_find_at: "p \<noteq> [] \<Longrightarrow> hd p \<notin> set l \<Longrightarrow> str_find p (l @ p @ r) = Some (length l)"
  by (simp add: str_find_skip str_find_here)

lemma str_find_absent: "p \<noteq> [] \<Longrightarrow> hd p \<notin> set l \<Longrightarrow> str_find p l = None"
  using str_find_skip [of p l "[]"] by simp

lemma str_rfind_end: "p \<noteq> [] \<Longrightarrow> str_rfind p (l @ p) = Some (length l)"
proof -
  assume p: "p \<noteq> []"
  have "starts_with p (drop (length l) (l @ p))"
    by (simp add: starts_with_def)
  then have "str_rfind p (l @ p) \<noteq> None"
    using str_rfind_None [of p "l @ p" "length l"] by blast
  then obtain m where m: "str_rfind p (l @ p) = Some m" by blast
  note sp = str_rfind_Some [OF p m]
  have "\<not> m < length l" using sp by (auto simp: starts_with_def)
  moreover have "m \<le> length l" using sp by simp
  ultimately show ?thesis using m by simp
qed

lemma starts_with_map: "inj f \<Longrightarrow> starts_with (map f p) (map f xs) = starts_with p xs"
  by (simp add: starts_with_def take_map inj_map_eq_map)

lemma str_find_map: "inj f \<Longrightarrow> str_find (map f p) (map f xs) = str_find p xs"
proof (induction xs)
  case (Cons x xs)
  then show ?case using starts_with_map [of f p "x # xs"] by simp
qed simp

lemma str_rfind_map: "inj f \<Longrightarrow> str_rfind (map f p) (map f xs) = str_rfind p xs"
proof (induction xs)
  case (Cons x xs)
  then show ?case using starts_with_map [of f p "x # xs"] by (simp split: option.splits)
qed simp

lemma inj_byte_of_char: "inj byte_of_char"
  by (rule inj_on_inverseI [of _ char_of_byte]) simp

lemma kCRLF_bytes: "kCRLF = bytes_of crlf"
  by (simp add: kCRLF_def byte_of_char_def)

section \<open>Lines of a buffer that holds text\<close>

lemma text_until_prefix:
  "buffer_inv b \<Longrightarrow> toStringPiece b = bytes_of s \<Longrightarrow> k \<le> length s \<Longrightarrow> text_until (peek b + k) b = take k s"
proof -
  assume a: "buffer_inv b" "toStringPiece b = bytes_of s" "k \<le> length s"
  have "k \<le> readableBytes b" using length_contents [OF a(1)] a(2,3) by simp
  with a show ?thesis
    by (simp add: text_until_def segment_peek take_map [symmetric] del: map_map)
qed

lemma findCRLF_text:
  "buffer_inv b \<Longrightarrow> toStringPiece b = bytes_of (l @ crlf @ r) \<Longrightarrow> CHR 0x0D \<notin> set l \<Longrightarrow>
     findCRLF b = Some (peek b + length l)"
  using str_find_at [of crlf l r]
  by (simp add: findCRLF_eq kCRLF_bytes str_find_map [OF inj_byte_of_char] del: map_append map_map list.map)

lemma findLastCRLF_text:
  "buffer_inv b \<Longrightarrow> toStringPiece b = bytes_of (l @ crlf) \<Longrightarrow> findLastCRLF b = Some (peek b + length l)"
  using str_rfind_end [of crlf l]
  by (simp add: findLastCRLF_eq kCRLF_bytes str_rfind_map [OF inj_byte_of_char] del: map_append map_map list.map)

lemma request_turn_text:
  assumes "buffer_inv b" "toStringPiece b = bytes_of (l @ crlf @ r)" "CHR 0x0D \<notin> set l"
    and "parseRequestLine l q = Inr (ok, q')"
  shows "\<exists>b'. request_turn b q = Inr (ok, b', q') \<and> buffer_inv b' \<and> toStringPiece b' = bytes_of r"
proof -
  have f: "findCRLF b = Some (peek b + length l)"
    using findCRLF_text [OF assms(1,2,3)] .
  have t: "text_until (peek b + length l) b = l"
    using text_until_prefix [OF assms(1,2), of "length l"] by simp
  have "retrieveUntil (peek b + length l + 2) b = Inr (advance (length l + 2) b)"
    using retrieveUntil_drop [OF assms(1), of "length l + 2"] assms(2) by (simp add: add.assoc)
  moreover have "toStringPiece (advance (length l + 2) b) = bytes_of r"
    using assms(1,2) by (simp add: buf_simps)
  ultimately show ?thesis
    using f t assms(1,4) by (simp add: request_turn_def inv_intros)
qed

lemma headers_turn_text:
  assumes "buffer_inv b" "toStringPiece b = bytes_of (l @ crlf)" "parseHeadersLine l q = (ok, q')"
  shows "\<exists>b'. headers_turn ret b q = Inr (ok, b', q') \<and> buffer_inv b' \<and> toStringPiece b' = []"
proof -
  have f: "findLastCRLF b = Some (peek b + length l)"
    using findLastCRLF_text [OF assms(1,2)] .
  have t: "text_until (peek b + length l) b = l"
    using text_until_prefix [OF assms(1,2), of "length l"] by simp
  have "retrieveUntil (peek b + length l + 2) b = Inr (advance (length l + 2) b)"
    using retrieveUntil_drop [OF assms(1), of "length l + 2"] assms(2) by (simp add: add.assoc)
  moreover have "toStringPiece (advance (length l + 2) b) = []"
    using assms(1,2) by (simp add: buf_simps)
  ultimately show ?thesis
    using f t assms(1,3) by (simp add: headers_turn_def inv_intros)
qed

lemma peek_at_text:
  "buffer_inv b \<Longrightarrow> toStringPiece b = bytes_of (c # s) \<Longrightarrow> peek_at 0 b = Inr (byte_of_char c)"
proof -
  assume a: "buffer_inv b" "toStringPiece b = bytes_of (c # s)"
  then have "0 < readableBytes b" using length_contents [OF a(1)] by simp
  then have i: "peek b < length (buffer_vec b)" using a(1) by (auto simp: index_defs)
  have "buffer_vec b ! peek b = toStringPiece b ! 0"
    using i \<open>0 < readableBytes b\<close> by (simp add: index_defs segment_def)
  with a i show ?thesis by (simp add: peek_at_def)
qed

section \<open>The invariant of a request\<close>

definition line_keys :: "string set" where
  "line_keys = {''url'', ''url_ip'', ''url_port'', ''url_suffix'', ''version'', ''method''}"

definition req_inv :: "RtspRequest \<Rightarrow> bool" where
  "req_inv r \<longleftrightarrow>
     (parse_state r = kParseRequestLine \<longrightarrow> requestLineParam r = Map.empty \<and> headerLineParam r = Map.empty) \<and>
     (parse_state r \<noteq> kParseRequestLine \<longrightarrow> line_keys \<subseteq> dom (requestLineParam r) \<and> req_method r \<noteq> METHOD_NONE) \<and>
     (parse_state r = kGotAll \<longrightarrow> ''cseq'' \<in> dom (headerLineParam r))"

lemma dom_emplace [simp]: "dom (emplace k v m) = insert k (dom m)"
  by (auto simp: emplace_def split: option.splits)

lemma emplace_same [simp]: "m k = None \<Longrightarrow> emplace k v m k = Some v"
  by (simp add: emplace_def)

lemma emplace_other [simp]: "k \<noteq> k' \<Longrightarrow> emplace k v m k' = m k'"
  by (simp add: emplace_def split: option.splits)

lemma emplace_keeps: "m k = Some w \<Longrightarrow> emplace k' v m k = Some w"
  by (cases "k = k'") (simp_all add: emplace_def split: option.splits)

lemma req_inv_init: "req_inv (RtspRequest_init m c t)"
  by (simp add: req_inv_def RtspRequest_init_def)

lemma req_inv_reset: "req_inv (req_reset r)"
  by (simp add: req_inv_def req_reset_def)

lemma method_of_cases: "method_of s = Some k \<Longrightarrow> k \<noteq> METHOD_NONE \<and> k \<noteq> RTCP"
  by (auto simp: method_of_def split: if_splits)

text \<open>The two shapes a pattern on the converted items leaves.\<close>

lemma case_str3:
  "(case vs of [SStr a, SStr b, SStr c] \<Rightarrow> f a b c | _ \<Rightarrow> d) = x \<Longrightarrow>
     (\<exists>a b c. vs = [SStr a, SStr b, SStr c] \<and> f a b c = x) \<or> d = x"
  by (auto split: list.splits scanned.splits)

lemma parseRequestLine_cases:
  assumes "parseRequestLine s r = Inr (ok, r')"
  obtains (refused) k where "\<not> ok" "r' = r\<lparr>req_method := k\<rparr>"
  | (read) m k url version ip port suffix where "ok" "method_of m = Some k"
      "sscanf (c_str s) fmt_request_line = [SStr m, SStr url, SStr version]"
      "take 7 url = ''rtsp://''" "parse_url_tail 64 (drop 7 url) = Inr (Some (ip, port, suffix))"
      "r' = r\<lparr>req_method := k, parse_state := kParseHeadersLine, requestLineParam :=
         emplace ''method'' (m, 0) (emplace ''version'' (version, 0) (emplace ''url_suffix'' (suffix, 0)
           (emplace ''url_port'' ('''', ucast port) (emplace ''url_ip'' (ip, 0)
             (emplace ''url'' (url, 0) (requestLineParam r))))))\<rparr>"
proof -
  obtain vs where vs: "scan_into [32, 128, 16] (c_str s) fmt_request_line = Inr vs"
    using assms by (auto simp: parseRequestLine_def rbind_eq_Inr)
  then have sc: "vs = sscanf (c_str s) fmt_request_line"
    by (simp add: scan_into_def Let_def split: if_splits)
  note e = assms [unfolded parseRequestLine_def vs rbind_simps]
  from case_str3 [OF e] show ?thesis
  proof (elim disjE exE conjE)
    fix m url version
    assume v: "vs = [SStr m, SStr url, SStr version]"
      and f: "(case method_of m of None \<Rightarrow> Inr (False, r\<lparr>req_method := METHOD_NONE\<rparr>)
        | Some k \<Rightarrow> (let r1 = r\<lparr>req_method := k\<rparr> in
                  if take 7 url \<noteq> ''rtsp://'' then Inr (False, r1)
                  else rbind (parse_url_tail 64 (drop 7 url))
                    (\<lambda>tail. case tail of
                       None \<Rightarrow> Inr (False, r1)
                     | Some (ip, port, suffix) \<Rightarrow>
                         (let p = requestLineParam r1;
                              p = emplace ''url'' (url, 0) p;
                              p = emplace ''url_ip'' (ip, 0) p;
                              p = emplace ''url_port'' ('''', ucast port) p;
                              p = emplace ''url_suffix'' (suffix, 0) p;
                              p = emplace ''version'' (version, 0) p;
                              p = emplace ''method'' (m, 0) p
                          in Inr (True, r1\<lparr>requestLineParam := p, parse_state := kParseHeadersLine\<rparr>)))))
        = Inr (ok, r')"
    show ?thesis
    proof (cases "method_of m")
      case None
      then show ?thesis using f by (intro refused [of METHOD_NONE]) auto
    next
      case (Some k)
      show ?thesis
      proof (cases "take 7 url = ''rtsp://''")
        case False
        then show ?thesis using f Some by (intro refused [of k]) auto
      next
        case True
        then obtain tail where t: "parse_url_tail 64 (drop 7 url) = Inr tail"
          using f Some by (cases "parse_url_tail 64 (drop 7 url)") (auto simp: Let_def)
        show ?thesis
        proof (cases tail)
          case None
          then show ?thesis using f Some True t by (intro refused [of k]) auto
        next
          case (Some tl)
          obtain ip port suffix where tl: "tl = (ip, port, suffix)" by (cases tl)
          show ?thesis
            by (rule read [of m k url version ip port suffix])
              (use f \<open>method_of m = Some k\<close> True t Some tl v sc in \<open>auto simp: Let_def\<close>)
        qed
      qed
    qed
  next
    assume "Inr (False, r) = (Inr (ok, r') :: (bool \<times> RtspRequest) result)"
    then show ?thesis by (intro refused [of "req_method r"]) auto
  qed
qed

lemma parseRequestLine_inv:
  assumes "req_inv r" "parse_state r = kParseRequestLine" "parseRequestLine s r = Inr (ok, r')"
  shows "req_inv r' \<and> (ok \<longleftrightarrow> parse_state r' = kParseHeadersLine) \<and> (\<not> ok \<longrightarrow> parse_state r' = kParseRequestLine)"
  using assms(3)
proof (cases rule: parseRequestLine_cases)
  case (refused k)
  then show ?thesis using assms(1,2) by (simp add: req_inv_def)
next
  case (read m k url version ip port suffix)
  then show ?thesis using assms(1,2) method_of_cases [OF read(2)] by (simp add: req_inv_def line_keys_def)
qed

lemma parseCSeq_frame:
  "parseCSeq s r = (ok, r') \<Longrightarrow>
     req_method r' = req_method r \<and> parse_state r' = parse_state r \<and> requestLineParam r' = requestLineParam r \<and>
     dom (headerLineParam r) \<subseteq> dom (headerLineParam r') \<and> (ok \<longrightarrow> ''cseq'' \<in> dom (headerLineParam r'))"
  by (auto simp: parseCSeq_def emplace_def Let_def split: option.splits)

lemma parseTransport_frame:
  "parseTransport s r = (ok, r') \<Longrightarrow>
     req_method r' = req_method r \<and> parse_state r' = parse_state r \<and> requestLineParam r' = requestLineParam r \<and>
     dom (headerLineParam r) \<subseteq> dom (headerLineParam r')"
  by (auto simp: parseTransport_def emplace_header_def emplace_def Let_def
      split: option.splits list.splits scanned.splits if_splits)

lemma parseMediaChannel_frame:
  "req_method (parseMediaChannel r) = req_method r \<and> parse_state (parseMediaChannel r) = parse_state r \<and>
     requestLineParam (parseMediaChannel r) = requestLineParam r \<and>
     headerLineParam (parseMediaChannel r) = headerLineParam r"
  by (simp add: parseMediaChannel_def split: option.splits)

lemma parseHeadersLine_inv:
  assumes "req_inv r" "parse_state r = kParseHeadersLine" "parseHeadersLine s r = (ok, r')"
  shows "req_inv r' \<and> req_method r' = req_method r \<and> parse_state r' \<noteq> kParseRequestLine"
proof -
  obtain c r1 where c: "parseCSeq s r = (c, r1)" by (cases "parseCSeq s r") auto
  note f1 = parseCSeq_frame [OF c]
  obtain t r2 where t: "parseTransport s r1 = (t, r2)" by (cases "parseTransport s r1") auto
  note f2 = parseTransport_frame [OF t] parseMediaChannel_frame [of r2]
  show ?thesis
  proof (cases "\<not> c \<and> headerLineParam r1 ''cseq'' = None")
    case True
    with assms c f1 show ?thesis by (auto simp: parseHeadersLine_def req_inv_def)
  next
    case False
    then have cseq: "''cseq'' \<in> dom (headerLineParam r1)" using f1 by auto
    with False assms c f1 f2 t show ?thesis
      by (cases "req_method r1") (auto simp: parseHeadersLine_def req_inv_def split: if_splits)
  qed
qed

lemma headers_turn_inv:
  assumes "req_inv r" "parse_state r = kParseHeadersLine" "headers_turn ret b r = Inr (ok, b', r')"
  shows "req_inv r' \<and> req_method r' = req_method r \<and> parse_state r' \<noteq> kParseRequestLine"
  using assms parseHeadersLine_inv [of r]
  by (auto simp: headers_turn_def rbind_eq_Inr split: option.splits prod.splits)

lemma headers_turn_buffer:
  "buffer_inv b \<Longrightarrow> headers_turn ret b r = Inr (ok, b', r') \<Longrightarrow> buffer_inv b'"
  by (auto simp: headers_turn_def inv_intros rbind_eq_Inr retrieveUntil_eq_Inr split: option.splits prod.splits)

lemma headers_turn_total:
  assumes "buffer_inv b"
  shows "\<exists>ok b' r'. headers_turn ret b r = Inr (ok, b', r')"
proof (cases "findLastCRLF b")
  case (Some p)
  then obtain n where "retrieveUntil (p + 2) b = Inr (advance n b)" using found_retrieves [OF assms] by blast
  with Some show ?thesis by (simp add: headers_turn_def split: prod.split)
qed (simp add: headers_turn_def)

lemma parseRequest_inv:
  assumes "req_inv r" "buffer_inv b" "parseRequest b r = Inr (ok, b', r')"
  shows "req_inv r' \<and> buffer_inv b'"
proof (cases "peek_at 0 b = Inr (byte_of_char CHR ''$'')")
  case True
  with assms show ?thesis by (auto simp: parseRequest_def req_inv_def)
next
  case False
  then obtain c where c: "peek_at 0 b = Inr c" "c \<noteq> byte_of_char CHR ''$''"
    using assms(3) by (cases "peek_at 0 b") (auto simp: parseRequest_def)
  show ?thesis
  proof (cases "parse_state r")
    case kParseRequestLine
    then obtain ret b1 r1 where t: "request_turn b r = Inr (ret, b1, r1)"
      using assms(3) c by (auto simp: parseRequest_def rbind_eq_Inr)
    have i1: "req_inv r1" "buffer_inv b1"
      using t assms(1,2) kParseRequestLine parseRequestLine_inv [OF assms(1) kParseRequestLine]
      by (auto simp: request_turn_def rbind_eq_Inr retrieveUntil_eq_Inr inv_intros split: option.splits)
    show ?thesis
      using assms(3) c t i1 kParseRequestLine headers_turn_inv [OF i1(1)] headers_turn_buffer [OF i1(2)]
      by (auto simp: parseRequest_def split: if_splits)
  next
    case kParseHeadersLine
    then show ?thesis
      using assms c headers_turn_inv [OF assms(1) kParseHeadersLine] headers_turn_buffer [OF assms(2)]
      by (auto simp: parseRequest_def)
  next
    case kGotAll
    then show ?thesis using assms c by (auto simp: parseRequest_def inv_intros)
  qed
qed

end
