(* ===== verification/Rtsp_Requests.thy ===== *)
theory Rtsp_Requests
  imports Rtsp_Parse_Lemmas
begin

text \<open>
  What the parser of \<open>Rtsp_Message\<close> makes of the requests an RTSP client writes: the grammar of
  those requests as a rendering function, and the theorem that parsing inverts it.
\<close>

section \<open>Requests as a client writes them\<close>

datatype wire_request =
    W_OPTIONS
  | W_DESCRIBE
  | W_SETUP_UDP u16 u16
  | W_SETUP_TCP u16 u16
  | W_PLAY u32
  | W_TEARDOWN u32
  | W_GET_PARAMETER u32

fun wire_method :: "wire_request \<Rightarrow> Method \<times> string" where
  "wire_method W_OPTIONS = (OPTIONS, ''OPTIONS'')"
| "wire_method W_DESCRIBE = (DESCRIBE, ''DESCRIBE'')"
| "wire_method (W_SETUP_UDP a b) = (SETUP, ''SETUP'')"
| "wire_method (W_SETUP_TCP a b) = (SETUP, ''SETUP'')"
| "wire_method (W_PLAY s) = (PLAY, ''PLAY'')"
| "wire_method (W_TEARDOWN s) = (TEARDOWN, ''TEARDOWN'')"
| "wire_method (W_GET_PARAMETER s) = (GET_PARAMETER, ''GET_PARAMETER'')"

fun wire_header :: "wire_request \<Rightarrow> string" where
  "wire_header W_OPTIONS = ''''"
| "wire_header W_DESCRIBE = ''Accept: application/sdp'' @ crlf"
| "wire_header (W_SETUP_UDP a b) =
     ''Transport: RTP/AVP;unicast;client_port='' @ nat_str (unat a) @ ''-'' @ nat_str (unat b) @ crlf"
| "wire_header (W_SETUP_TCP a b) =
     ''Transport: RTP/AVP/TCP;unicast;interleaved='' @ nat_str (unat a) @ ''-'' @ nat_str (unat b) @ crlf"
| "wire_header (W_PLAY s) = ''Session: '' @ fmt_u s @ crlf"
| "wire_header (W_TEARDOWN s) = ''Session: '' @ fmt_u s @ crlf"
| "wire_header (W_GET_PARAMETER s) = ''Session: '' @ fmt_u s @ crlf"

definition url_text :: "string \<Rightarrow> u16 \<Rightarrow> string \<Rightarrow> string" where
  "url_text ip port suffix = ''rtsp://'' @ ip @ '':'' @ nat_str (unat port) @ ''/'' @ suffix"

definition request_line :: "wire_request \<Rightarrow> string \<Rightarrow> string" where
  "request_line w url = snd (wire_method w) @ '' '' @ url @ '' RTSP/1.0''"

definition request_headers :: "wire_request \<Rightarrow> u32 \<Rightarrow> string \<Rightarrow> string" where
  "request_headers w cseq agent =
     ''CSeq: '' @ fmt_u cseq @ crlf @ wire_header w @ ''User-Agent: '' @ agent @ crlf"

definition request_text :: "wire_request \<Rightarrow> string \<Rightarrow> u32 \<Rightarrow> string \<Rightarrow> string" where
  "request_text w url cseq agent = request_line w url @ crlf @ request_headers w cseq agent @ crlf"

definition url_part :: "nat \<Rightarrow> string \<Rightarrow> bool" where
  "url_part cap s \<longleftrightarrow> s \<noteq> [] \<and> length s < cap \<and> (\<forall>c \<in> set s. \<not> is_space c \<and> c \<noteq> CHR 0x00)"

definition valid_url :: "string \<Rightarrow> string \<Rightarrow> bool" where
  "valid_url ip suffix \<longleftrightarrow> url_part 16 ip \<and> CHR '':'' \<notin> set ip \<and> url_part 64 suffix"

section \<open>The request line\<close>

lemma ucast_of_port [simp]: "ucast (ucast (p :: u16) :: u64) = p"
  by (rule bit_word_eqI) (simp add: bit_ucast_iff)

lemma ucast_of_u32 [simp]: "ucast (ucast (n :: u32) :: u64) = n"
  by (rule bit_word_eqI) (simp add: bit_ucast_iff)

lemma ucast_of_port32 [simp]: "ucast (ucast (p :: u16) :: u32) = p"
  by (rule bit_word_eqI) (simp add: bit_ucast_iff)

lemma ucast_of_port8 [simp]: "ucast (ucast (p :: u16) :: u32) = (ucast p :: u8)"
  by (rule bit_word_eqI) (simp add: bit_ucast_iff)

lemma u16_le_ulong: "unat (p :: u16) \<le> ulong_max"
  using unat16_less [of p] by (simp add: ulong_max_def)

lemma u32_le_ulong: "unat (p :: u32) \<le> ulong_max"
  using unat32_less [of p] by (simp add: ulong_max_def)

lemma parse_url_tail_text:
  assumes "valid_url ip suffix"
  shows "parse_url_tail 64 (ip @ '':'' @ nat_str (unat port) @ ''/'' @ suffix) = Inr (Some (ip, port, suffix))"
proof -
  have "sscanf (ip @ '':'' @ nat_str (unat port) @ ''/'' @ suffix) fmt_url_port =
      [SStr ip, SNum (word_of_nat (unat port)), SStr suffix]"
    using assms sscanf_str_word [of suffix "[]" "[]"]
    by (simp add: fmts valid_url_def url_part_def sscanf_not_word sscanf_uint_nat_str u16_le_ulong is_digit_def
        del: sscanf.simps(4,5,7))
  then show ?thesis
    using assms by (simp add: parse_url_tail_def scan_into_def valid_url_def url_part_def)
qed

lemma length_port_str: "length (nat_str (unat (p :: u16))) \<le> 5"
  by (rule length_nat_str) (use unat16_less [of p] in simp_all)

lemma nat_str_url: "c \<in> set (nat_str n) \<Longrightarrow> \<not> is_space c \<and> c \<noteq> CHR 0x00"
  using nat_str_digits [of n] by (auto simp: is_digit_not_space)

lemma url_text_part: "valid_url ip suffix \<Longrightarrow> url_part 128 (url_text ip port suffix)"
proof -
  assume a: "valid_url ip suffix"
  have "length (url_text ip port suffix) < 128"
    using a length_port_str [of port] by (simp add: url_text_def valid_url_def url_part_def)
  moreover have "\<forall>c \<in> set (''rtsp://''). \<not> is_space c \<and> c \<noteq> CHR 0x00"
    "\<forall>c \<in> set ('':''). \<not> is_space c \<and> c \<noteq> CHR 0x00" "\<forall>c \<in> set (''/''). \<not> is_space c \<and> c \<noteq> CHR 0x00"
    "\<forall>c \<in> set (nat_str (unat port)). \<not> is_space c \<and> c \<noteq> CHR 0x00"
    using nat_str_url by (simp_all add: is_space_def)
  then have "\<forall>c \<in> set (url_text ip port suffix). \<not> is_space c \<and> c \<noteq> CHR 0x00"
    using a unfolding url_text_def set_append ball_Un url_part_def valid_url_def by blast
  moreover have "url_text ip port suffix \<noteq> []"
    by (simp add: url_text_def)
  ultimately show ?thesis
    by (simp add: url_part_def)
qed

lemma url_text_prefix:
  "take 7 (url_text ip port suffix) = ''rtsp://''"
  "drop 7 (url_text ip port suffix) = ip @ '':'' @ nat_str (unat port) @ ''/'' @ suffix"
  by (simp_all add: url_text_def)

lemma method_of_wire: "method_of (snd (wire_method w)) = Some (fst (wire_method w))"
  by (cases w) (simp_all add: method_of_def)

lemma wire_method_word:
  "url_part 32 (snd (wire_method w))"
  by (cases w) (simp_all add: url_part_def is_space_def)

lemma scan_request_line:
  assumes "url_part 32 m" "url_part 128 url" "url_part 16 v"
  shows "scan_into [32, 128, 16] (c_str (m @ '' '' @ url @ '' '' @ v)) fmt_request_line =
    Inr [SStr m, SStr url, SStr v]"
proof -
  have id: "c_str (m @ CHR '' '' # url @ CHR '' '' # v) = m @ CHR '' '' # url @ CHR '' '' # v"
    using assms by (intro c_str_id) (auto simp: url_part_def)
  have sp: "is_space CHR '' ''" by (simp add: is_space_def)
  have skip: "skip_space (CHR '' '' # w @ r) = w @ r" if "url_part n w" for n w and r :: string
    using that sp by (cases w) (simp_all add: skip_space_def url_part_def)
  have skip1: "skip_space (CHR '' '' # w) = w" if "url_part n w" for n w
    using skip [OF that, of "[]"] by simp
  have "sscanf (m @ '' '' @ url @ '' '' @ v) fmt_request_line = [SStr m, SStr url, SStr v]"
    using assms sp sscanf_str_word [of v "[]" "[]"]
    by (simp add: fmts sscanf_str_word url_part_def skip [OF assms(2)] skip1 [OF assms(3)] del: sscanf.simps(4))
  then show ?thesis
    using assms by (simp add: id scan_into_def url_part_def)
qed

definition line_params :: "string \<Rightarrow> string \<Rightarrow> string \<Rightarrow> u16 \<Rightarrow> string \<Rightarrow> params" where
  "line_params m url ip port suffix =
     [''url'' \<mapsto> (url, 0), ''url_ip'' \<mapsto> (ip, 0), ''url_port'' \<mapsto> ('''', ucast port),
      ''url_suffix'' \<mapsto> (suffix, 0), ''version'' \<mapsto> (''RTSP/1.0'', 0), ''method'' \<mapsto> (m, 0)]"

lemma parseRequestLine_text:
  assumes "valid_url ip suffix" "requestLineParam r = Map.empty"
  shows "parseRequestLine (request_line w (url_text ip port suffix)) r =
    Inr (True, r\<lparr>req_method := fst (wire_method w), parse_state := kParseHeadersLine,
      requestLineParam := line_params (snd (wire_method w)) (url_text ip port suffix) ip port suffix\<rparr>)"
proof -
  have v: "url_part 16 ''RTSP/1.0''" by (simp add: url_part_def is_space_def)
  have sc: "scan_into [32, 128, 16] (c_str (request_line w (url_text ip port suffix))) fmt_request_line =
      Inr [SStr (snd (wire_method w)), SStr (url_text ip port suffix), SStr ''RTSP/1.0'']"
    using scan_request_line [OF wire_method_word url_text_part [OF assms(1)] v]
    by (simp add: request_line_def)
  show ?thesis
    using assms(2) url_text_prefix parse_url_tail_text [OF assms(1)]
    by (simp add: parseRequestLine_def sc method_of_wire line_params_def emplace_def Let_def)
qed

section \<open>The header lines\<close>

lemma c_str_append: "CHR 0x00 \<notin> set l \<Longrightarrow> c_str (l @ r) = l @ c_str r"
  by (induction l) (auto simp: c_str_def)

lemma starts_with_stop: "starts_with p (xs @ c # ys) \<Longrightarrow> c \<notin> set p \<Longrightarrow> starts_with p xs"
proof (induction p arbitrary: xs)
  case (Cons a p)
  then show ?case by (cases xs) auto
qed simp

lemma str_find_stop:
  assumes "p \<noteq> []" "c \<notin> set p" "str_find p xs = None" "str_find p ys = None"
  shows "str_find p (xs @ c # ys) = None"
  using assms(3)
proof (induction xs)
  case Nil
  with assms show ?case by (cases p) auto
next
  case (Cons x xs)
  then show ?case
    using starts_with_stop [of p "x # xs" c ys] assms(2) by (auto split: if_splits)
qed

lemma sscanf_header_u:
  assumes "name \<noteq> []" "CHR '':'' \<notin> set name" "CHR 0x00 \<notin> set name"
  shows "sscanf (c_str (name @ '': '' @ fmt_u n @ crlf @ rest)) fmt_header_u = [SNum (ucast n)]"
proof -
  have "c_str (name @ '': '' @ fmt_u n @ crlf @ rest) = name @ '': '' @ fmt_u n @ crlf @ c_str rest"
    using assms(3) c_str_append [of "name @ '': '' @ fmt_u n @ crlf" rest] by (simp add: fmt_u_def)
  moreover have "skip_space (CHR '' '' # fmt_u n @ r) = fmt_u n @ r" for r
    using skip_space_nat_str [of "unat n" r] by (simp add: skip_space_def fmt_u_def is_space_def)
  ultimately show ?thesis
    using assms(1,2)
    by (simp add: fmts sscanf_skip_word sscanf_uint_nat_str u32_le_ulong is_digit_def fmt_u_def [symmetric]
        del: sscanf.simps(6,7)) (simp add: fmt_u_def sscanf_uint_nat_str u32_le_ulong is_digit_def del: sscanf.simps(7))
qed

lemma sscanf_transport:
  assumes "a1 \<noteq> []" "a2 \<noteq> []" "a3 \<noteq> []" "CHR '';'' \<notin> set a1" "CHR '';'' \<notin> set a2" "CHR ''='' \<notin> set a3"
    "CHR 0x00 \<notin> set a1 \<union> set a2 \<union> set a3"
  shows "sscanf (c_str (a1 @ '';'' @ a2 @ '';'' @ a3 @ ''='' @ nat_str (unat (a :: u16)) @ ''-'' @
      nat_str (unat (b :: u16)) @ crlf @ rest)) fmt_transport = [SNum (ucast a), SNum (ucast b)]"
proof -
  let ?l = "a1 @ '';'' @ a2 @ '';'' @ a3 @ ''='' @ nat_str (unat a) @ ''-'' @ nat_str (unat b) @ crlf"
  have "c_str (?l @ rest) = ?l @ c_str rest"
    using assms(7) by (intro c_str_append) auto
  then show ?thesis
    using assms(1-6)
    by (simp add: fmts sscanf_skip_word sscanf_uint_nat_str u16_le_ulong is_digit_def del: sscanf.simps(6,7))
qed

lemma parseCSeq_headers:
  "headerLineParam r = Map.empty \<Longrightarrow>
     parseCSeq (request_headers w cseq agent) r = (True, r\<lparr>headerLineParam := [''cseq'' \<mapsto> ('''', cseq)]\<rparr>)"
  using sscanf_header_u [of "''CSeq''" cseq]
  by (simp add: parseCSeq_def request_headers_def emplace_def Let_def)

definition head_of :: "u32 \<Rightarrow> string" where
  "head_of cseq = ''CSeq: '' @ fmt_u cseq @ crlf"

lemma head_of_no: "c \<in> {CHR ''T'', CHR ''R'', CHR ''A''} \<Longrightarrow> c \<notin> set (head_of cseq)"
  using nat_str_digits [of "unat cseq"] by (auto simp: head_of_def fmt_u_def is_digit_def)

lemma parseTransport_tcp:
  assumes "headerLineParam r = [''cseq'' \<mapsto> ('''', cseq)]"
  shows "parseTransport (request_headers (W_SETUP_TCP a b) cseq agent) r =
    (True, r\<lparr>req_transport := RTP_OVER_TCP, headerLineParam :=
       [''cseq'' \<mapsto> ('''', cseq), ''rtp_channel'' \<mapsto> ('''', ucast a), ''rtcp_channel'' \<mapsto> ('''', ucast b)]\<rparr>)"
proof -
  let ?l = "head_of cseq @ ''Transport: ''"
  let ?r = "'';unicast;interleaved='' @ nat_str (unat a) @ ''-'' @ nat_str (unat b) @ crlf @ ''User-Agent: '' @ agent @ crlf"
  have t: "request_headers (W_SETUP_TCP a b) cseq agent = ?l @ ''RTP/AVP/TCP'' @ ?r"
    by (simp add: request_headers_def head_of_def)
  have "CHR ''R'' \<notin> set ?l" using head_of_no by simp
  then have "str_find ''RTP/AVP/TCP'' (?l @ ''RTP/AVP/TCP'' @ ?r) = Some (length ?l)"
    by (intro str_find_at) simp_all
  moreover have "str_find ''Transport'' (?l @ ''RTP/AVP/TCP'' @ ?r) = Some (length (head_of cseq))"
    using str_find_at [of "''Transport''" "head_of cseq" "'': RTP/AVP/TCP'' @ ?r"] head_of_no [of "CHR ''T''"] by simp
  moreover have "sscanf (c_str (''RTP/AVP/TCP'' @ ?r)) fmt_transport = [SNum (ucast a), SNum (ucast b)]"
    using sscanf_transport [of "''RTP/AVP/TCP''" "''unicast''" "''interleaved''" a b "''User-Agent: '' @ agent @ crlf"]
    by simp
  ultimately show ?thesis
    using assms unfolding t parseTransport_def
    by (simp add: Let_def emplace_header_def emplace_def del: append_Cons append_assoc)
qed

lemma parseTransport_udp:
  assumes "headerLineParam r = [''cseq'' \<mapsto> ('''', cseq)]" "str_find ''RTP/AVP/TCP'' agent = None"
  shows "parseTransport (request_headers (W_SETUP_UDP a b) cseq agent) r =
    (True, r\<lparr>req_transport := RTP_OVER_UDP, headerLineParam :=
       [''cseq'' \<mapsto> ('''', cseq), ''rtp_port'' \<mapsto> ('''', ucast a), ''rtcp_port'' \<mapsto> ('''', ucast b)]\<rparr>)"
proof -
  let ?l = "head_of cseq @ ''Transport: ''"
  let ?m = "'';unicast;client_port='' @ nat_str (unat a) @ ''-'' @ nat_str (unat b) @ crlf @ ''User-Agent: ''"
  let ?r = "?m @ agent @ crlf"
  have t: "request_headers (W_SETUP_UDP a b) cseq agent = ?l @ ''RTP/AVP'' @ ?r"
    by (simp add: request_headers_def head_of_def)
  have noR: "CHR ''R'' \<notin> set ?l" using head_of_no by simp
  then have f: "str_find ''RTP/AVP'' (?l @ ''RTP/AVP'' @ ?r) = Some (length ?l)"
    by (intro str_find_at) simp_all
  have tr: "str_find ''Transport'' (?l @ ''RTP/AVP'' @ ?r) = Some (length (head_of cseq))"
    using str_find_at [of "''Transport''" "head_of cseq" "'': RTP/AVP'' @ ?r"] head_of_no [of "CHR ''T''"] by simp
  have sc: "sscanf (c_str (''RTP/AVP'' @ ?r)) fmt_transport = [SNum (ucast a), SNum (ucast b)]"
    using sscanf_transport [of "''RTP/AVP''" "''unicast''" "''client_port''" a b "''User-Agent: '' @ agent @ crlf"]
    by simp
  have un: "str_find ''unicast'' (''RTP/AVP'' @ ?r) \<noteq> None"
    using str_find_append [of "''unicast''" "''RTP/AVP;''"] by simp
  have "CHR ''R'' \<notin> set (''TP/AVP'' @ ?m)"
    using nat_str_digits [of "unat a"] nat_str_digits [of "unat b"] by (auto simp: is_digit_def)
  then have m: "str_find ''RTP/AVP/TCP'' ((''TP/AVP'' @ ?m) @ x) = map_option (\<lambda>k. length (''TP/AVP'' @ ?m) + k) (str_find ''RTP/AVP/TCP'' x)" for x
    by (intro str_find_skip) simp_all
  have ag: "str_find ''RTP/AVP/TCP'' (agent @ crlf) = None"
    using assms(2) by (intro str_find_stop) simp_all
  have "str_find ''RTP/AVP/TCP'' (''RTP/AVP'' @ ?r) = None"
    using m [of "agent @ crlf"] ag by simp
  then have no: "str_find ''RTP/AVP/TCP'' (?l @ ''RTP/AVP'' @ ?r) = None"
    using noR by (subst str_find_skip) simp_all
  show ?thesis
    using assms(1) f tr sc un no unfolding t parseTransport_def
    by (simp add: Let_def emplace_header_def emplace_def del: append_Cons append_assoc)
qed

lemma parseAccept_describe: "parseAccept (request_headers W_DESCRIBE cseq agent)"
proof -
  let ?x = "request_headers W_DESCRIBE cseq agent"
  have e1: "?x = head_of cseq @ ''Accept'' @ '': application/sdp'' @ crlf @ ''User-Agent: '' @ agent @ crlf"
    and e2: "?x = (head_of cseq @ ''Accept: application/'') @ ''sdp'' @ crlf @ ''User-Agent: '' @ agent @ crlf"
    by (simp_all add: request_headers_def head_of_def)
  have "str_find ''Accept'' ?x \<noteq> None"
    unfolding e1 by (rule str_find_append) simp
  then have "str_rfind ''Accept'' ?x \<noteq> None"
    using str_find_iff_rfind [of "''Accept''" ?x] by simp
  moreover have "str_find ''sdp'' ?x \<noteq> None"
    unfolding e2 by (rule str_find_append) simp
  then have "str_rfind ''sdp'' ?x \<noteq> None"
    using str_find_iff_rfind [of "''sdp''" ?x] by simp
  ultimately show ?thesis
    unfolding parseAccept_def by blast
qed

lemma parseSessionId_play: "parseSessionId (request_headers (W_PLAY s) cseq agent)"
proof -
  have "CHR ''S'' \<notin> set (fmt_u cseq)"
    using nat_str_digits [of "unat cseq"] by (auto simp: fmt_u_def is_digit_def)
  then have "str_find ''Session'' ((fmt_u cseq @ crlf) @ ''Session'' @ '': '' @ fmt_u s @ crlf @ ''User-Agent: '' @ agent @ crlf)
      = Some (length (fmt_u cseq @ crlf))"
    by (intro str_find_at) simp_all
  then have "str_find ''Session'' (request_headers (W_PLAY s) cseq agent) = Some (length (head_of cseq))"
    by (simp add: request_headers_def head_of_def)
  moreover have "drop (length (head_of cseq)) (request_headers (W_PLAY s) cseq agent) =
      ''Session'' @ '': '' @ fmt_u s @ crlf @ ''User-Agent: '' @ agent @ crlf"
    by (simp add: request_headers_def head_of_def)
  ultimately show ?thesis
    using sscanf_header_u [of "''Session''" s] by (simp add: parseSessionId_def)
qed

section \<open>Parsing inverts rendering\<close>

definition channel_of_url :: "string \<Rightarrow> MediaChannelId" where
  "channel_of_url url = (if str_find ''track1'' url \<noteq> None then channel_1 else channel_0)"

text \<open>What the server knows after the request: the accessors its handlers use.\<close>

fun understood :: "wire_request \<Rightarrow> string \<Rightarrow> RtspRequest \<Rightarrow> bool" where
  "understood (W_SETUP_UDP a b) url r \<longleftrightarrow>
     req_transport r = RTP_OVER_UDP \<and> getRtpPort r = a \<and> getRtcpPort r = b \<and> req_channelId r = channel_of_url url"
| "understood (W_SETUP_TCP a b) url r \<longleftrightarrow>
     req_transport r = RTP_OVER_TCP \<and> getRtpChannel r = ucast a \<and> getRtcpChannel r = ucast b \<and>
     req_channelId r = channel_of_url url"
| "understood _ url r \<longleftrightarrow> True"

definition request_read :: "wire_request \<Rightarrow> string \<Rightarrow> string \<Rightarrow> string \<Rightarrow> u32 \<Rightarrow> RtspRequest \<Rightarrow> bool" where
  "request_read w url ip suffix cseq r \<longleftrightarrow>
     gotAll r \<and> req_method r = fst (wire_method w) \<and> getCSeq r = cseq \<and> getRtspUrl r = url \<and> getIp r = ip \<and>
     getRtspUrlSuffix r = suffix \<and> understood w url r"

lemma parseHeadersLine_text:
  assumes "headerLineParam r = Map.empty" "req_method r = fst (wire_method w)"
    and "requestLineParam r = line_params m url ip port suffix"
    and "(\<exists>a b. w = W_SETUP_UDP a b) \<longrightarrow> str_find ''RTP/AVP/TCP'' agent = None"
  shows "\<exists>r'. parseHeadersLine (request_headers w cseq agent) r = (True, r') \<and> request_read w url ip suffix cseq r'"
proof -
  note accessors = request_read_def gotAll_def getCSeq_def getRtspUrl_def getIp_def getRtspUrlSuffix_def
    getRtpPort_def getRtcpPort_def getRtpChannel_def getRtcpChannel_def num_param_def str_param_def
    line_params_def parseMediaChannel_def channel_of_url_def
  note cs = parseCSeq_headers [OF assms(1)]
  let ?r1 = "r\<lparr>headerLineParam := [''cseq'' \<mapsto> ('''', cseq)]\<rparr>"
  have h1: "headerLineParam ?r1 = [''cseq'' \<mapsto> ('''', cseq)]" by simp
  show ?thesis
  proof (cases w)
    case (W_SETUP_UDP a b)
    with assms parseTransport_udp [OF h1, of agent a b] show ?thesis
      by (simp add: parseHeadersLine_def cs accessors)
  next
    case (W_SETUP_TCP a b)
    with assms parseTransport_tcp [OF h1, of a b agent] show ?thesis
      by (simp add: parseHeadersLine_def cs accessors)
  qed (use assms parseAccept_describe parseSessionId_play in \<open>simp_all add: parseHeadersLine_def cs accessors\<close>)
qed

definition fresh_request :: "RtspRequest \<Rightarrow> bool" where
  "fresh_request r \<longleftrightarrow> parse_state r = kParseRequestLine \<and> requestLineParam r = Map.empty \<and> headerLineParam r = Map.empty"

lemma fresh_init: "fresh_request (RtspRequest_init m c t)"
  by (simp add: fresh_request_def RtspRequest_init_def)

lemma fresh_reset: "fresh_request (req_reset r)"
  by (simp add: fresh_request_def req_reset_def)

definition agent_ok :: "wire_request \<Rightarrow> string \<Rightarrow> bool" where
  "agent_ok w agent \<longleftrightarrow> (\<exists>a b. w = W_SETUP_UDP a b) \<longrightarrow> str_find ''RTP/AVP/TCP'' agent = None"

definition after_line :: "wire_request \<Rightarrow> string \<Rightarrow> string \<Rightarrow> u16 \<Rightarrow> string \<Rightarrow> RtspRequest \<Rightarrow> RtspRequest" where
  "after_line w url ip port suffix r =
     r\<lparr>req_method := fst (wire_method w), parse_state := kParseHeadersLine,
       requestLineParam := line_params (snd (wire_method w)) url ip port suffix\<rparr>"

lemma url_part_no_cr: "url_part n s \<Longrightarrow> CHR 0x0D \<notin> set s"
proof
  have "is_space CHR 0x0D" by (simp add: is_space_def)
  then show "url_part n s \<Longrightarrow> CHR 0x0D \<in> set s \<Longrightarrow> False"
    unfolding url_part_def by blast
qed

lemma request_line_no_cr: "valid_url ip suffix \<Longrightarrow> CHR 0x0D \<notin> set (request_line w (url_text ip port suffix))"
  using url_part_no_cr [OF url_text_part] url_part_no_cr [OF wire_method_word]
  by (simp add: request_line_def)

lemma first_byte_of_line:
  assumes "buffer_inv b" "toStringPiece b = bytes_of (request_line w url @ rest)"
  shows "\<exists>c. peek_at 0 b = Inr c \<and> c \<noteq> byte_of_char CHR ''$''"
proof -
  obtain c s where m: "snd (wire_method w) = c # s" "c \<noteq> CHR ''$''"
    by (cases w) auto
  then have "peek_at 0 b = Inr (byte_of_char c)"
    using assms by (intro peek_at_text [of b c "s @ '' '' @ url @ '' RTSP/1.0'' @ rest"]) (simp_all add: request_line_def)
  then show ?thesis
    using m(2) inj_byte_of_char by (auto dest: injD)
qed

lemma request_turn_line:
  assumes "buffer_inv b" "toStringPiece b = bytes_of (request_line w (url_text ip port suffix) @ crlf @ rest)"
    and "valid_url ip suffix" "fresh_request r"
  shows "\<exists>b'. request_turn b r = Inr (True, b', after_line w (url_text ip port suffix) ip port suffix r) \<and>
    buffer_inv b' \<and> toStringPiece b' = bytes_of rest"
  unfolding after_line_def
  by (rule request_turn_text [OF assms(1,2) request_line_no_cr [OF assms(3)]])
    (use assms(3,4) parseRequestLine_text in \<open>simp add: fresh_request_def\<close>)

lemma headers_turn_wire:
  assumes "buffer_inv b" "toStringPiece b = bytes_of (request_headers w cseq agent @ crlf)"
    and "fresh_request r" "agent_ok w agent"
  shows "\<exists>b' r'. headers_turn ret b (after_line w url ip port suffix r) = Inr (True, b', r') \<and> buffer_inv b' \<and>
    toStringPiece b' = [] \<and> request_read w url ip suffix cseq r'"
proof -
  have "\<exists>r'. parseHeadersLine (request_headers w cseq agent) (after_line w url ip port suffix r) = (True, r') \<and>
      request_read w url ip suffix cseq r'"
    by (rule parseHeadersLine_text [where m = "snd (wire_method w)" and port = port])
      (use assms(3,4) in \<open>simp_all add: after_line_def fresh_request_def agent_ok_def\<close>)
  then obtain r' where r': "parseHeadersLine (request_headers w cseq agent) (after_line w url ip port suffix r) = (True, r')"
    "request_read w url ip suffix cseq r'" by blast
  show ?thesis
    using headers_turn_text [OF assms(1,2) r'(1)] r'(2) by blast
qed

lemma parseRequest_text:
  assumes "buffer_inv b" "toStringPiece b = bytes_of (request_text w (url_text ip port suffix) cseq agent)"
    and "fresh_request r" "valid_url ip suffix" "agent_ok w agent"
  shows "\<exists>b' r'. parseRequest b r = Inr (True, b', r') \<and> buffer_inv b' \<and> toStringPiece b' = [] \<and>
           request_read w (url_text ip port suffix) ip suffix cseq r'"
proof -
  let ?url = "url_text ip port suffix"
  have c: "toStringPiece b = bytes_of (request_line w ?url @ crlf @ (request_headers w cseq agent @ crlf))"
    using assms(2) by (simp add: request_text_def)
  obtain c0 where c0: "peek_at 0 b = Inr c0" "c0 \<noteq> byte_of_char CHR ''$''"
    using first_byte_of_line [OF assms(1) c] by blast
  obtain b1 where b1: "request_turn b r = Inr (True, b1, after_line w ?url ip port suffix r)"
    "buffer_inv b1" "toStringPiece b1 = bytes_of (request_headers w cseq agent @ crlf)"
    using request_turn_line [OF assms(1) c assms(4,3)] by blast
  obtain b' r' where "headers_turn True b1 (after_line w ?url ip port suffix r) = Inr (True, b', r')"
    "buffer_inv b'" "toStringPiece b' = []" "request_read w ?url ip suffix cseq r'"
    using headers_turn_wire [OF b1(2,3) assms(3,5)] by blast
  then show ?thesis
    using c0 b1(1) assms(3) by (auto simp: parseRequest_def fresh_request_def after_line_def)
qed

text \<open>
  C12: A request an RTSP client writes is understood exactly: when the request object is fresh and the
  buffer holds just the text of one OPTIONS, DESCRIBE, SETUP (UDP or interleaved), PLAY, TEARDOWN or GET_PARAMETER request,
  for a URL with a port, a host of at most 15 and a path of at most 63 characters (no white space, no NUL), and, in a
  SETUP for UDP, a user agent that does not mention \<open>RTP/AVP/TCP\<close>, parsing consumes the whole buffer and yields
  \<open>gotAll\<close>, the method, the CSeq, the URL, its host and suffix, and for SETUP the transport, the two ports or channels
  and the track.
\<close>

theorem parseRequest_roundtrip:
  assumes "buffer_inv b" "toStringPiece b = bytes_of (request_text w (url_text ip port suffix) cseq agent)"
    and "fresh_request r" "valid_url ip suffix" "agent_ok w agent"
  shows "\<exists>b' r'. parseRequest b r = Inr (True, b', r') \<and> buffer_inv b' \<and> toStringPiece b' = [] \<and>
           request_read w (url_text ip port suffix) ip suffix cseq r'"
  by (rule parseRequest_text [OF assms])

theorem parseRequest_roundtrip_witness:
  "\<exists>b' r'. parseRequest (buf_append (bytes_of (request_text (W_SETUP_UDP 6970 6971)
       (url_text ''10.0.0.1'' 8554 ''live/track1'') 3 ''VLC'')) (Buffer_init 1024))
       (RtspRequest_init METHOD_NONE channel_0 RTP_OVER_TCP) = Inr (True, b', r') \<and>
     getRtpPort r' = 6970 \<and> getCSeq r' = 3 \<and> req_channelId r' = channel_1 \<and> req_transport r' = RTP_OVER_UDP"
proof -
  let ?b = "buf_append (bytes_of (request_text (W_SETUP_UDP 6970 6971)
       (url_text ''10.0.0.1'' 8554 ''live/track1'') 3 ''VLC'')) (Buffer_init 1024)"
  have i: "buffer_inv ?b" and c: "toStringPiece ?b = bytes_of (request_text (W_SETUP_UDP 6970 6971)
       (url_text ''10.0.0.1'' 8554 ''live/track1'') 3 ''VLC'')"
    by (simp_all add: inv_intros buf_simps del: map_map)
  have v: "valid_url ''10.0.0.1'' ''live/track1''"
    by (simp add: valid_url_def url_part_def is_space_def)
  have a: "agent_ok (W_SETUP_UDP 6970 6971) ''VLC''"
    by (simp add: agent_ok_def starts_with_def)
  have t: "channel_of_url (url_text ''10.0.0.1'' 8554 ''live/track1'') = channel_1"
    using str_find_append [of "''track1''" "''rtsp://10.0.0.1:'' @ nat_str (unat (8554 :: u16)) @ ''/live/''" "[]"]
    by (simp add: channel_of_url_def url_text_def)
  from parseRequest_roundtrip [OF i c fresh_init v a, of METHOD_NONE channel_0 RTP_OVER_TCP] t
  show ?thesis
    by (simp add: request_read_def) blast
qed

section \<open>Requests in pieces, in a row, and without a port\<close>

lemma findLastCRLF_empty: "buffer_inv b \<Longrightarrow> toStringPiece b = [] \<Longrightarrow> findLastCRLF b = None"
  by (simp add: findLastCRLF_eq kCRLF_def)

text \<open>
  The parser resumes: when one read delivers the request line and a later read the header
  lines, the first call answers true without completing the request and consumes the line, and
  the second call ends exactly as if the request had come in one piece.
\<close>

theorem parseRequest_two_reads:
  assumes "buffer_inv b" "toStringPiece b = bytes_of (request_line w (url_text ip port suffix) @ crlf)"
    and "buffer_inv b2" "toStringPiece b2 = bytes_of (request_headers w cseq agent @ crlf)"
    and "fresh_request r" "valid_url ip suffix" "agent_ok w agent"
  shows "\<exists>b1 r1 b' r'. parseRequest b r = Inr (True, b1, r1) \<and> toStringPiece b1 = [] \<and> \<not> gotAll r1 \<and>
           parseRequest b2 r1 = Inr (True, b', r') \<and> toStringPiece b' = [] \<and>
           request_read w (url_text ip port suffix) ip suffix cseq r'"
proof -
  let ?url = "url_text ip port suffix" and ?r1 = "after_line w (url_text ip port suffix) ip port suffix r"
  have c: "toStringPiece b = bytes_of (request_line w ?url @ crlf @ [])"
    using assms(2) by simp
  obtain c0 where c0: "peek_at 0 b = Inr c0" "c0 \<noteq> byte_of_char CHR ''$''"
    using first_byte_of_line [OF assms(1) c] by blast
  obtain b1 where b1: "request_turn b r = Inr (True, b1, ?r1)" "buffer_inv b1" "toStringPiece b1 = []"
    using request_turn_line [OF assms(1) c assms(6,5)] by auto
  have first: "parseRequest b r = Inr (True, b1, ?r1)"
    using c0 b1 assms(5) findLastCRLF_empty [OF b1(2,3)]
    by (simp add: parseRequest_def fresh_request_def after_line_def headers_turn_def)
  have "peek_at 0 b2 = Inr (byte_of_char CHR ''C'')"
    by (rule peek_at_text [OF assms(3), of _ "tl (request_headers w cseq agent @ crlf)"])
      (use assms(4) in \<open>simp add: request_headers_def\<close>)
  moreover have "byte_of_char CHR ''C'' \<noteq> byte_of_char CHR ''$''"
    by (simp add: byte_of_char_def)
  moreover obtain b' r' where h: "headers_turn True b2 ?r1 = Inr (True, b', r')"
    "toStringPiece b' = []" "request_read w ?url ip suffix cseq r'"
    using headers_turn_wire [OF assms(3,4,5,7)] by blast
  ultimately have "parseRequest b2 ?r1 = Inr (True, b', r')"
    by (simp add: parseRequest_def after_line_def)
  moreover have "\<not> gotAll ?r1" by (simp add: gotAll_def after_line_def)
  ultimately show ?thesis using first b1(3) h(2,3) by blast
qed

theorem parseRequest_two_reads_witness:
  "\<exists>b1 r1 b' r'. parseRequest (buf_append (bytes_of (request_line W_DESCRIBE (url_text ''10.0.0.1'' 554 ''live'') @ crlf))
        (Buffer_init 1024)) (RtspRequest_init METHOD_NONE channel_0 RTP_OVER_TCP) = Inr (True, b1, r1) \<and> \<not> gotAll r1 \<and>
     parseRequest (buf_append (bytes_of (request_headers W_DESCRIBE 2 ''VLC'' @ crlf)) (Buffer_init 1024)) r1 =
       Inr (True, b', r') \<and> gotAll r' \<and> req_method r' = DESCRIBE \<and> getRtspUrlSuffix r' = ''live''"
proof -
  have i: "buffer_inv (buf_append (bytes_of x) (Buffer_init 1024))"
    and c: "toStringPiece (buf_append (bytes_of x) (Buffer_init 1024)) = bytes_of x" for x
    by (simp_all add: inv_intros buf_simps del: map_map)
  have v: "valid_url ''10.0.0.1'' ''live''"
    by (simp add: valid_url_def url_part_def is_space_def)
  have a: "agent_ok W_DESCRIBE ''VLC''"
    by (simp add: agent_ok_def)
  from parseRequest_two_reads [where port = 554 and cseq = 2, OF i c i c fresh_init v a, of METHOD_NONE channel_0 RTP_OVER_TCP]
  show ?thesis
    by (simp add: request_read_def) blast
qed

lemma parseCSeq_first:
  "headerLineParam r = Map.empty \<Longrightarrow>
     parseCSeq (''CSeq: '' @ fmt_u cseq @ crlf @ rest) r = (True, r\<lparr>headerLineParam := [''cseq'' \<mapsto> ('''', cseq)]\<rparr>)"
  using sscanf_header_u [of "''CSeq''" cseq rest]
  by (simp add: parseCSeq_def emplace_def Let_def)

text \<open>
  The header part of a message ends at the LAST line end of the buffer: parsing an OPTIONS request with anything else
  behind it consumes all of it.
\<close>

lemma parse_pipelined:
  assumes "buffer_inv b"
    and "toStringPiece b = bytes_of (request_text W_OPTIONS (url_text ip port suffix) cseq agent @ behind @ crlf)"
    and "fresh_request r" "valid_url ip suffix"
  shows "\<exists>b' r'. parseRequest b r = Inr (True, b', r') \<and> buffer_inv b' \<and> toStringPiece b' = [] \<and>
           request_read W_OPTIONS (url_text ip port suffix) ip suffix cseq r'"
proof -
  let ?url = "url_text ip port suffix" and ?r1 = "after_line W_OPTIONS (url_text ip port suffix) ip port suffix r"
  let ?l = "request_headers W_OPTIONS cseq agent @ crlf @ behind"
  have c: "toStringPiece b = bytes_of (request_line W_OPTIONS ?url @ crlf @ (?l @ crlf))"
    using assms(2) by (simp add: request_text_def)
  obtain c0 where c0: "peek_at 0 b = Inr c0" "c0 \<noteq> byte_of_char CHR ''$''"
    using first_byte_of_line [OF assms(1) c] by blast
  obtain b1 where b1: "request_turn b r = Inr (True, b1, ?r1)" "buffer_inv b1" "toStringPiece b1 = bytes_of (?l @ crlf)"
    using request_turn_line [OF assms(1) c assms(4,3)] by blast
  let ?r' = "?r1\<lparr>headerLineParam := [''cseq'' \<mapsto> ('''', cseq)], parse_state := kGotAll\<rparr>"
  have "parseCSeq ?l ?r1 = (True, ?r1\<lparr>headerLineParam := [''cseq'' \<mapsto> ('''', cseq)]\<rparr>)"
    using parseCSeq_first [of ?r1 cseq "''User-Agent: '' @ agent @ crlf @ crlf @ behind"] assms(3)
    by (simp add: request_headers_def fresh_request_def after_line_def)
  then have "parseHeadersLine ?l ?r1 = (True, ?r')"
    by (simp add: parseHeadersLine_def after_line_def)
  from headers_turn_text [OF b1(2,3) this] obtain b' where
    "headers_turn True b1 ?r1 = Inr (True, b', ?r')" "buffer_inv b'" "toStringPiece b' = []" by blast
  moreover have "request_read W_OPTIONS ?url ip suffix cseq ?r'"
    by (simp add: request_read_def gotAll_def after_line_def getCSeq_def num_param_def getRtspUrl_def
        getIp_def getRtspUrlSuffix_def str_param_def line_params_def)
  ultimately show ?thesis
    using c0 b1(1) assms(3) by (auto simp: parseRequest_def fresh_request_def after_line_def)
qed

text \<open>
  A URL without a port, the form the default of 554 is for, is accepted only when host, slash
  and path together stay below 16 characters; otherwise the first \<open>sscanf\<close>, looking for a colon
  that never comes, has already written the whole of it over the 16 bytes of \<open>ip\<close>.
\<close>

theorem url_without_port:
  assumes "host \<noteq> []" "suffix \<noteq> []" "\<forall>c \<in> set host. c \<noteq> CHR '':'' \<and> c \<noteq> CHR ''/''"
    and "\<forall>c \<in> set suffix. c \<noteq> CHR '':'' \<and> \<not> is_space c" "16 \<le> cap"
  shows "parse_url_tail cap (host @ ''/'' @ suffix) =
    (if length host + 1 + length suffix < 16 then Inr (Some (host, 554, suffix)) else Inl OutOfBounds)"
proof -
  have ne: "host @ ''/'' @ suffix \<noteq> []" and nc: "CHR '':'' \<notin> set (host @ ''/'' @ suffix)"
    using assms(3,4) by auto
  have s1: "sscanf (host @ ''/'' @ suffix) fmt_url_port = [SStr (host @ ''/'' @ suffix)]"
    using sscanf_not_word [OF ne nc, of "[]"] unfolding fmts by simp
  have ns: "CHR ''/'' \<notin> set host" and sp: "\<forall>c \<in> set suffix. \<not> is_space c"
    using assms(3,4) by blast+
  have s2: "sscanf (host @ ''/'' @ suffix) fmt_url = [SStr host, SStr suffix]"
    using assms(1) ns sscanf_str_word [OF assms(2) sp, of "[]" "[]"]
    unfolding fmts by (simp add: sscanf_not_word del: sscanf.simps(4,5))
  show ?thesis
    using assms(5) by (simp add: parse_url_tail_def scan_into_def s1 [simplified] s2 [simplified])
qed

theorem url_without_port_witness:
  "parse_url_tail 64 ''192.168.1.142/live'' = Inl OutOfBounds \<and> parse_url_tail 64 ''10.0.0.1/live'' = Inr (Some (''10.0.0.1'', 554, ''live''))"
  using url_without_port [of "''192.168.1.142''" "''live''" 64] url_without_port [of "''10.0.0.1''" "''live''" 64]
  by (simp add: is_space_def)

end
