(* ===== verification/Rtsp_Replies.thy ===== *)
theory Rtsp_Replies
  imports Rtsp_Reply Rtsp_Requests
begin

text \<open>
  What a client reads in the server's replies: the reader's side as a specification
  (\<open>reply_status\<close>, \<open>reply_number\<close>, \<open>reply_body\<close>), and the theorems that each reply the handlers send
  from their 1024 character buffers carries the request's CSeq, the session and a complete header.
\<close>

section \<open>Reading a reply\<close>

definition reply_status :: "string \<Rightarrow> string" where
  "reply_status x = take 3 (drop 9 x)"

definition scan_number :: "string \<Rightarrow> u32 option" where
  "scan_number line = (case sscanf (c_str line) fmt_header_u of [SNum n] \<Rightarrow> Some (ucast n) | _ \<Rightarrow> None)"

definition reply_number :: "string \<Rightarrow> string \<Rightarrow> u32 option" where
  "reply_number field x =
     (case str_find (crlf @ field @ '': '') x of None \<Rightarrow> None | Some pos \<Rightarrow> scan_number (drop (pos + 2) x))"

definition reply_body :: "string \<Rightarrow> string option" where
  "reply_body x = map_option (\<lambda>pos. drop (pos + 4) x) (str_find (crlf @ crlf) x)"

text \<open>The replies of the command handlers, each from a buffer of 1024 characters.\<close>

datatype reply =
    R_Options
  | R_NotFound
  | R_ServerError
  | R_Unsupported
  | R_SetupTcp u16 u16 u32
  | R_SetupUdp u16 u16 u32
  | R_Play u32
  | R_Teardown u32
  | R_GetParameter u32

fun reply_text :: "RtspRequest \<Rightarrow> reply \<Rightarrow> string" where
  "reply_text r R_Options = buildOptionRes r 1024"
| "reply_text r R_NotFound = buildNotFoundRes r 1024"
| "reply_text r R_ServerError = buildServerErrorRes r 1024"
| "reply_text r R_Unsupported = buildUnsupportedRes r 1024"
| "reply_text r (R_SetupTcp a b s) = buildSetupTcpRes r 1024 a b s"
| "reply_text r (R_SetupUdp a b s) = buildSetupUdpRes r 1024 a b s"
| "reply_text r (R_Play s) = buildPlayRes r 1024 None s"
| "reply_text r (R_Teardown s) = buildTeardownRes r 1024 s"
| "reply_text r (R_GetParameter s) = buildGetParamterRes r 1024 s"

fun reply_code :: "reply \<Rightarrow> string" where
  "reply_code R_NotFound = ''404''"
| "reply_code R_ServerError = ''500''"
| "reply_code R_Unsupported = ''461''"
| "reply_code _ = ''200''"

fun reply_session :: "reply \<Rightarrow> u32 option" where
  "reply_session (R_SetupTcp a b s) = Some s"
| "reply_session (R_SetupUdp a b s) = Some s"
| "reply_session (R_Play s) = Some s"
| "reply_session (R_Teardown s) = Some s"
| "reply_session (R_GetParameter s) = Some s"
| "reply_session _ = None"

section \<open>Signed decimal output read back\<close>

lemma sint32_bounds: "- 2147483648 \<le> sint (x :: u32)" "sint (x :: u32) < 2147483648"
  using sint_ge [of x] sint_less [of x] by simp_all

lemma length_fmt_d: "length (fmt_d x) \<le> 11"
proof (cases "sint x < 0")
  case True
  have "length (nat_str (nat (- sint x))) \<le> 10"
    by (rule length_nat_str) (use sint32_bounds [of x] in simp_all)
  with True show ?thesis by (simp add: fmt_d_def int_str_def)
next
  case False
  have "length (nat_str (nat (sint x))) \<le> 10"
    by (rule length_nat_str) (use sint32_bounds [of x] in simp_all)
  with False show ?thesis by (simp add: fmt_d_def int_str_def)
qed

lemma fmt_d_no_nul: "CHR 0x00 \<notin> set (fmt_d x)"
  by (simp add: fmt_d_def int_str_def)

lemma ucast_scast: "ucast (scast (x :: u32) :: u64) = x"
proof (rule bit_word_eqI)
  fix n
  assume "n < LENGTH(32)"
  then have "min 31 n = n" "n < 64" by simp_all
  then show "bit (ucast (scast x :: u64) :: u32) n = bit x n"
    using \<open>n < LENGTH(32)\<close> by (simp add: bit_ucast_iff bit_signed_iff)
qed

lemma word_of_int_scast: "(word_of_int (sint (x :: u32)) :: u64) = scast x"
  by simp

lemma scan_fmt_d:
  assumes "rest = [] \<or> \<not> is_digit (hd rest)"
  shows "\<exists>n. sscanf (CHR '' '' # fmt_d x @ rest) [ScanWs, ScanUInt] = [SNum n] \<and> ucast n = x"
proof (cases "sint x < 0")
  case True
  let ?v = "nat (- sint x)"
  have b: "?v \<le> ulong_max" using sint32_bounds [of x] by (simp add: ulong_max_def)
  have "(word_of_nat ?v :: u64) = word_of_int (- sint x)"
    using True by (simp only: of_nat_nat)
  then have v: "(- word_of_nat ?v :: u64) = scast x"
    using word_of_int_scast [of x] by (simp only: of_int_minus minus_minus)
  have "sscanf (CHR '' '' # fmt_d x @ rest) [ScanWs, ScanUInt] = [SNum (- word_of_nat ?v)]"
    using True b takeWhile_digits [OF assms, of ?v]
    by (simp add: fmt_d_def int_str_def skip_space_def is_space_def strtoul_val_def del: of_nat_nat)
  then show ?thesis unfolding v using ucast_scast by blast
next
  case False
  let ?v = "nat (sint x)"
  have b: "?v \<le> ulong_max" using sint32_bounds [of x] by (simp add: ulong_max_def)
  have v: "(word_of_nat ?v :: u64) = scast x"
    using False word_of_int_scast [of x] by (simp only: of_nat_nat)
  have s: "skip_space (CHR '' '' # nat_str ?v @ rest) = nat_str ?v @ rest"
    using skip_space_nat_str [of ?v rest] by (simp add: skip_space_def is_space_def)
  have "sscanf (CHR '' '' # fmt_d x @ rest) [ScanWs, ScanUInt] = [SNum (word_of_nat ?v)]"
    using False sscanf_uint_nat_str [OF b assms, of "[]"]
    by (simp add: fmt_d_def int_str_def s del: sscanf.simps(7) of_nat_nat)
  then show ?thesis unfolding v using ucast_scast by blast
qed

section \<open>Fields by line\<close>

lemma str_find_line:
  assumes "CHR 0x0D \<notin> set line"
  shows "str_find (crlf @ p) (line @ crlf @ rest) =
    (if starts_with p rest then Some (length line) else map_option (\<lambda>k. length line + k + 2) (str_find (crlf @ p) rest))"
proof -
  have skip: "str_find (crlf @ p) (line @ crlf @ rest) = map_option (\<lambda>k. length line + k) (str_find (crlf @ p) (crlf @ rest))"
    using assms by (intro str_find_skip) simp_all
  show ?thesis
  proof (cases "starts_with p rest")
    case True
    with skip show ?thesis by simp
  next
    case False
    then have "str_find (crlf @ p) (crlf @ rest) = map_option (\<lambda>k. k + 2) (str_find (crlf @ p) rest)"
      by (simp add: option.map_comp comp_def)
    with skip False show ?thesis by (simp add: option.map_comp comp_def)
  qed
qed

lemma reply_number_line:
  "CHR 0x0D \<notin> set line \<Longrightarrow> reply_number field (line @ crlf @ rest) =
    (if starts_with (field @ '': '') rest then scan_number rest else reply_number field rest)"
  using str_find_line [of line "field @ '': ''" rest]
  by (cases "str_find (crlf @ field @ '': '') rest") (simp_all add: reply_number_def eval_nat_numeral)

lemma reply_body_line:
  "CHR 0x0D \<notin> set line \<Longrightarrow> reply_body (line @ crlf @ rest) =
    (if starts_with crlf rest then Some (drop 2 rest) else reply_body rest)"
  using str_find_line [of line crlf rest]
  by (cases "str_find (crlf @ crlf) rest") (simp_all add: reply_body_def eval_nat_numeral del: starts_with_Cons)

definition decimal_of :: "u32 \<Rightarrow> string \<Rightarrow> bool" where
  "decimal_of n s \<longleftrightarrow> s = fmt_u n \<or> s = fmt_d n"

lemma decimal_of_formats [simp]: "decimal_of n (fmt_u n)" "decimal_of n (fmt_d n)"
  by (simp_all add: decimal_of_def)

lemma nat_str_no_cr [simp]: "CHR 0x0D \<notin> set (nat_str n)"
  using nat_str_digits [of n] by (auto simp: is_digit_def)

lemma decimal_chars: "decimal_of n s \<Longrightarrow> CHR 0x00 \<notin> set s \<and> CHR 0x0D \<notin> set s"
  by (auto simp: decimal_of_def fmt_u_def fmt_d_def int_str_def split: if_splits)

lemma scan_number_field:
  assumes "decimal_of n s" "field \<noteq> []" "CHR '':'' \<notin> set field" "CHR 0x00 \<notin> set field"
    "rest \<noteq> [] \<and> \<not> is_digit (hd rest) \<and> hd rest \<noteq> CHR 0x00"
  shows "scan_number (field @ '': '' @ s @ rest) = Some n"
proof -
  have "c_str (field @ '': '' @ s @ rest) = field @ '': '' @ s @ c_str rest"
    using assms(4) decimal_chars [OF assms(1)] c_str_append [of "field @ '': '' @ s" rest] by simp
  moreover have r: "c_str rest = [] \<or> \<not> is_digit (hd (c_str rest))"
    using assms(5) by (cases rest) (simp_all add: c_str_def)
  have "\<exists>m. sscanf (CHR '' '' # s @ c_str rest) [ScanWs, ScanUInt] = [SNum m] \<and> ucast m = n"
  proof (cases "s = fmt_d n")
    case True
    then show ?thesis using scan_fmt_d [OF r, of n] by simp
  next
    case False
    then have "s = nat_str (unat n)" using assms(1) by (simp add: decimal_of_def fmt_u_def)
    moreover have "skip_space (CHR '' '' # nat_str (unat n) @ c_str rest) = nat_str (unat n) @ c_str rest"
      using skip_space_nat_str [of "unat n" "c_str rest"] by (simp add: skip_space_def is_space_def)
    ultimately show ?thesis
      using sscanf_uint_nat_str [OF u32_le_ulong r, of n "[]"] by (simp del: sscanf.simps(7))
  qed
  then obtain m where "sscanf (CHR '' '' # s @ c_str rest) [ScanWs, ScanUInt] = [SNum m]" "ucast m = n" by blast
  ultimately show ?thesis
    using assms(2,3) by (simp add: scan_number_def fmts sscanf_skip_word del: sscanf.simps(2,6,7))
qed

lemma cseq_of_reply:
  assumes "CHR 0x0D \<notin> set line" "decimal_of n s"
  shows "reply_number ''CSeq'' (line @ crlf @ ''CSeq: '' @ s @ crlf @ rest) = Some n"
  using assms scan_number_field [OF assms(2), of "''CSeq''" "crlf @ rest"]
  by (simp add: reply_number_line [simplified] is_digit_def)

lemma session_of_reply:
  assumes "CHR 0x0D \<notin> set line" "decimal_of n s" "\<not> is_digit t" "t \<noteq> CHR 0x00"
    and "mid = [] \<or> (\<exists>l. mid = l @ crlf \<and> CHR 0x0D \<notin> set l \<and> l \<noteq> [] \<and> hd l \<noteq> CHR ''S'')"
  shows "reply_number ''Session'' (line @ crlf @ ''CSeq: '' @ s @ crlf @ mid @ ''Session: '' @ fmt_u k @ t # rest) = Some k"
proof -
  have sc: "scan_number (''Session: '' @ fmt_u k @ t # rest) = Some k"
    using scan_number_field [of k "fmt_u k" "''Session''" "t # rest"] assms(3,4) by simp
  have second: "reply_number ''Session'' ((''CSeq: '' @ s) @ crlf @ mid @ ''Session: '' @ fmt_u k @ t # rest) = Some k"
  proof (cases "mid = []")
    case True
    then show ?thesis
      using decimal_chars [OF assms(2)] sc by (subst reply_number_line) simp_all
  next
    case False
    with assms(5) obtain l where l: "mid = l @ crlf" "CHR 0x0D \<notin> set l" "l \<noteq> []" "hd l \<noteq> CHR ''S''" by blast
    have "reply_number ''Session'' (l @ crlf @ ''Session: '' @ fmt_u k @ t # rest) = Some k"
      using l(2) sc by (subst reply_number_line) simp_all
    then show ?thesis
      using decimal_chars [OF assms(2)] l by (subst reply_number_line) (auto simp: neq_Nil_conv)
  qed
  then show ?thesis
    using assms(1) by (subst reply_number_line) simp_all
qed

section \<open>The replies\<close>

text \<open>The text of each reply before it goes through \<open>snprintf\<close>, split at its fields.\<close>

fun status_line :: "reply \<Rightarrow> string" where
  "status_line R_NotFound = ''RTSP/1.0 404 Stream Not Found''"
| "status_line R_ServerError = ''RTSP/1.0 500 Internal Server Error''"
| "status_line R_Unsupported = ''RTSP/1.0 461 Unsupported transport''"
| "status_line _ = ''RTSP/1.0 200 OK''"

fun reply_cseq_text :: "u32 \<Rightarrow> reply \<Rightarrow> string" where
  "reply_cseq_text n R_Unsupported = fmt_d n"
| "reply_cseq_text n (R_Play s) = fmt_d n"
| "reply_cseq_text n (R_Teardown s) = fmt_d n"
| "reply_cseq_text n (R_GetParameter s) = fmt_d n"
| "reply_cseq_text n _ = fmt_u n"

fun reply_middle :: "RtspRequest \<Rightarrow> reply \<Rightarrow> string" where
  "reply_middle r R_Options = ''Public: OPTIONS, DESCRIBE, SETUP, TRARDOWN, PLAT'' @ crlf"
| "reply_middle r (R_SetupTcp a b s) =
     (''Transport: RTP/AVP/TCP;unicast;interleaved='' @ nat_str (unat a) @ ''-'' @ nat_str (unat b)) @ crlf"
| "reply_middle r (R_SetupUdp a b s) =
     (''Transport: RTP/AVP;unicast;client_port='' @ nat_str (unat (getRtpPort r)) @ ''-'' @ nat_str (unat (getRtcpPort r)) @
        '';server_port='' @ nat_str (unat a) @ ''-'' @ nat_str (unat b)) @ crlf"
| "reply_middle r (R_Play s) = ''Range: npt=0.000-'' @ crlf"
| "reply_middle r _ = ''''"

fun reply_end :: "reply \<Rightarrow> string" where
  "reply_end (R_Play s) = ''Session: '' @ fmt_u s @ ''; timeout=60'' @ crlf"
| "reply_end k = (case reply_session k of None \<Rightarrow> '''' | Some s \<Rightarrow> ''Session: '' @ fmt_u s @ crlf)"

lemma length_port [simp]: "length (nat_str (unat (p :: u16))) < 6"
  using length_port_str [of p] by simp

lemma length_u [simp]: "length (fmt_u n) < 11" "length (fmt_d n) < 12"
  using length_fmt_u [of n] length_fmt_d [of n] by simp_all

lemma length_reply_middle: "length (reply_middle r k) < 100"
proof (cases k)
  case (R_SetupTcp a b s)
  have "length (nat_str (unat a)) + length (nat_str (unat b)) < 54"
    using length_port [of a] length_port [of b] by linarith
  with R_SetupTcp show ?thesis by simp
next
  case (R_SetupUdp a b s)
  have "length (nat_str (unat a)) + length (nat_str (unat b)) + length (nat_str (unat (getRtpPort r))) +
      length (nat_str (unat (getRtcpPort r))) < 24"
    using length_port [of a] length_port [of b] length_port [of "getRtpPort r"] length_port [of "getRtcpPort r"] by linarith
  with R_SetupUdp show ?thesis by simp
qed simp_all

lemma length_reply_parts:
  "length (status_line k) < 36" "length (reply_cseq_text n k) < 12" "length (reply_end k) < 40"
proof -
  show "length (status_line k) < 36" by (cases k) simp_all
  show "length (reply_cseq_text n k) < 12"
    using less_trans [OF length_u(1), of 12] length_u(2) by (cases k) simp_all
  have "length (fmt_u s) < m" if "11 \<le> m" for s and m
    using length_u(1) [of s] that by linarith
  then show "length (reply_end k) < 40" by (cases k) simp_all
qed

lemma fmt_no_nul [simp]: "CHR 0x00 \<notin> set (fmt_u n)" "CHR 0x00 \<notin> set (fmt_d n)"
  using decimal_chars [of n "fmt_u n"] decimal_chars [of n "fmt_d n"] by simp_all

lemma reply_text_shape:
  "reply_text r k = status_line k @ crlf @ ''CSeq: '' @ reply_cseq_text (getCSeq r) k @ crlf @ reply_middle r k @ reply_end k @ crlf"
proof -
  let ?t = "status_line k @ crlf @ ''CSeq: '' @ reply_cseq_text (getCSeq r) k @ crlf @ reply_middle r k @ reply_end k @ crlf"
  have fit: "length ?t < 1024"
    using length_reply_parts(1,3) [of k] length_reply_parts(2) [of "getCSeq r" k] length_reply_middle [of r k]
    by simp
  show ?thesis
  proof (cases k)
    case (R_Play s)
    let ?a = "''RTSP/1.0 200 OK'' @ crlf @ ''CSeq: '' @ fmt_d (getCSeq r) @ crlf @ ''Range: npt=0.000-'' @ crlf @
       ''Session: '' @ fmt_u s @ ''; timeout=60'' @ crlf"
    have t: "?t = ?a @ crlf" using R_Play by simp
    have a: "snprintf 1024 ?a = ?a" using fit unfolding t by (intro snprintf_fits) simp
    have n: "strlen ?a = length ?a" by (simp add: strlen_def c_str_id)
    have more: "snprintf (1024 - length ?a) crlf = crlf" using fit unfolding t by (intro snprintf_fits) simp
    show ?thesis
      using R_Play more unfolding t by (simp only: reply_text.simps buildPlayRes_def Let_def a snprintf_more_def n option.case)
  qed (use fit in \<open>simp_all add: buildOptionRes_def buildNotFoundRes_def buildServerErrorRes_def buildUnsupportedRes_def
    buildSetupTcpRes_def buildSetupUdpRes_def buildTeardownRes_def buildGetParamterRes_def snprintf_fits\<close>)
qed

lemma status_line_no_cr [simp]: "CHR 0x0D \<notin> set (status_line k)"
  by (cases k) simp_all

lemma decimal_reply_cseq [simp]: "decimal_of n (reply_cseq_text n k)"
  by (cases k) simp_all

lemma reply_session_none:
  assumes "CHR 0x0D \<notin> set line" "decimal_of n s"
  shows "reply_number ''Session'' (line @ crlf @ ''CSeq: '' @ s @ crlf @ crlf) = None"
    and "CHR 0x0D \<notin> set mid \<Longrightarrow> \<not> starts_with ''Session: '' mid \<Longrightarrow> mid \<noteq> [] \<Longrightarrow> hd mid \<noteq> CHR ''S'' \<Longrightarrow>
      reply_number ''Session'' (line @ crlf @ ''CSeq: '' @ s @ crlf @ mid @ crlf @ crlf) = None"
proof -
  have last: "reply_number ''Session'' crlf = None"
    by (simp add: reply_number_def starts_with_def)
  have num: "CHR 0x0D \<notin> set (''CSeq: '' @ s)" using decimal_chars [OF assms(2)] by simp
  have step: "reply_number ''Session'' (line @ crlf @ ''CSeq: '' @ s @ crlf @ rest) =
      (if starts_with ''Session: '' rest then scan_number rest else reply_number ''Session'' rest)" for rest
    using reply_number_line [OF assms(1), of "''Session''" "(''CSeq: '' @ s) @ crlf @ rest"]
      reply_number_line [OF num, of "''Session''" rest] by simp
  show "reply_number ''Session'' (line @ crlf @ ''CSeq: '' @ s @ crlf @ crlf) = None"
    using step [of crlf] last by simp
  assume mid: "CHR 0x0D \<notin> set mid" "\<not> starts_with ''Session: '' mid" "mid \<noteq> []" "hd mid \<noteq> CHR ''S''"
  have "\<not> starts_with ''Session: '' (mid @ crlf @ crlf)"
    using mid(3,4) by (cases mid) simp_all
  then show "reply_number ''Session'' (line @ crlf @ ''CSeq: '' @ s @ crlf @ mid @ crlf @ crlf) = None"
    using step [of "mid @ crlf @ crlf"] reply_number_line [OF mid(1), of "''Session''" crlf] last by simp
qed

lemma reply_session_number: "reply_number ''Session'' (reply_text r k) = reply_session k"
proof -
  note st = session_of_reply [where line = "status_line k" and s = "reply_cseq_text (getCSeq r) k",
      OF status_line_no_cr decimal_reply_cseq]
  note no = reply_session_none [where line = "status_line k" and s = "reply_cseq_text (getCSeq r) k",
      OF status_line_no_cr decimal_reply_cseq]
  show ?thesis
  proof (cases k)
    case (R_SetupTcp a b s)
    then show ?thesis
      using st [of "CHR 0x0D" "reply_middle r k" s "CHR 0x0A # crlf"] unfolding reply_text_shape by (simp add: is_digit_def)
  next
    case (R_SetupUdp a b s)
    then show ?thesis
      using st [of "CHR 0x0D" "reply_middle r k" s "CHR 0x0A # crlf"] unfolding reply_text_shape by (simp add: is_digit_def)
  next
    case (R_Play s)
    then show ?thesis
      using st [of "CHR '';''" "reply_middle r k" s "'' timeout=60'' @ crlf @ crlf"] unfolding reply_text_shape
      by (simp add: is_digit_def)
  next
    case (R_Teardown s)
    then show ?thesis
      using st [of "CHR 0x0D" "[]" s "CHR 0x0A # crlf"] unfolding reply_text_shape by (simp add: is_digit_def)
  next
    case (R_GetParameter s)
    then show ?thesis
      using st [of "CHR 0x0D" "[]" s "CHR 0x0A # crlf"] unfolding reply_text_shape by (simp add: is_digit_def)
  next
    case R_Options
    then show ?thesis
      using no(2) [of "''Public: OPTIONS, DESCRIBE, SETUP, TRARDOWN, PLAT''"] unfolding reply_text_shape by simp
  qed (use no(1) in \<open>simp_all only: reply_text_shape reply_middle.simps reply_end.simps reply_session.simps option.case append_Nil\<close>)
qed

lemma reply_reads:
  "reply_status (reply_text r k) = reply_code k \<and>
   reply_number ''CSeq'' (reply_text r k) = Some (getCSeq r) \<and>
   reply_number ''Session'' (reply_text r k) = reply_session k \<and>
   (\<exists>h. reply_text r k = h @ crlf @ crlf) \<and> length (reply_text r k) < 1024"
proof (intro conjI)
  show "reply_status (reply_text r k) = reply_code k"
    unfolding reply_text_shape by (cases k) (simp_all add: reply_status_def)
  show "reply_number ''CSeq'' (reply_text r k) = Some (getCSeq r)"
    unfolding reply_text_shape by (rule cseq_of_reply) simp_all
  show "reply_number ''Session'' (reply_text r k) = reply_session k"
    by (rule reply_session_number)
  have "\<exists>h. ''CSeq: '' @ reply_cseq_text (getCSeq r) k @ crlf @ reply_middle r k @ reply_end k = h @ crlf"
    by (cases k) simp_all
  then show "\<exists>h. reply_text r k = h @ crlf @ crlf"
    unfolding reply_text_shape by (metis append_assoc)
  show "length (reply_text r k) < 1024"
    using length_reply_parts(1,3) [of k] length_reply_parts(2) [of "getCSeq r" k] length_reply_middle [of r k]
    unfolding reply_text_shape by simp
qed

text \<open>
  The reply to DESCRIBE carries the description, which can be longer than the buffer: its head is
  complete in any case.
\<close>

lemma take_prefix: "length p \<le> n \<Longrightarrow> take n (p @ r) = p @ take (n - length p) r"
  by simp

lemma describe_head:
  "reply_status (buildDescribeRes r 1024 sdp) = ''200'' \<and>
   reply_number ''CSeq'' (buildDescribeRes r 1024 sdp) = Some (getCSeq r) \<and> length (buildDescribeRes r 1024 sdp) < 1024"
proof -
  let ?p = "''RTSP/1.0 200 OK'' @ crlf @ ''CSeq: '' @ fmt_u (getCSeq r) @ crlf"
  let ?r = "''Content-Length: '' @ int_str (int (strlen sdp)) @ crlf @ ''Content-Type: application/sdp'' @ crlf @ crlf @ c_str sdp"
  have "length (fmt_u (getCSeq r)) \<le> 998" using length_u(1) [of "getCSeq r"] by linarith
  then have "length ?p \<le> 1024 - 1" by simp
  from take_prefix [OF this, of ?r] have e: "buildDescribeRes r 1024 sdp = ?p @ take (1024 - 1 - length ?p) ?r"
    unfolding buildDescribeRes_def snprintf_def append_assoc .
  have "reply_status (buildDescribeRes r 1024 sdp) = ''200''"
    unfolding e by (simp add: reply_status_def)
  moreover have "reply_number ''CSeq'' (buildDescribeRes r 1024 sdp) = Some (getCSeq r)"
    unfolding e using cseq_of_reply [of "''RTSP/1.0 200 OK''" "getCSeq r" "fmt_u (getCSeq r)"] by simp
  moreover have "length (buildDescribeRes r 1024 sdp) < 1024"
    by (simp add: buildDescribeRes_def snprintf_def)
  ultimately show ?thesis by blast
qed

lemma length_int_str: "n < 10000 \<Longrightarrow> length (int_str (int n)) < 5"
  using length_nat_str [of n 4] by (simp add: int_str_def)

lemma decimal_int_str: "n < 10000 \<Longrightarrow> int_str (int n) = fmt_u (word_of_nat n)"
  by (simp add: int_str_def fmt_u_def unat_of_nat)

text \<open>
  With a session description (free of NUL) of up to 900 characters it is self-consistent: a client that reads the
  Content-Length and the body behind the first empty line gets the length of the description and the description itself.
\<close>

lemma describe_reply:
  assumes "length sdp \<le> 900" "CHR 0x00 \<notin> set sdp"
  shows "reply_number ''Content-Length'' (buildDescribeRes r 1024 sdp) = Some (word_of_nat (length sdp)) \<and>
    reply_body (buildDescribeRes r 1024 sdp) = Some sdp"
proof -
  let ?len = "fmt_u (word_of_nat (length sdp))"
  let ?l1 = "''RTSP/1.0 200 OK''" and ?l2 = "''CSeq: '' @ fmt_u (getCSeq r)" and ?l3 = "''Content-Length: '' @ ?len"
    and ?l4 = "''Content-Type: application/sdp''"
  let ?t = "?l1 @ crlf @ ?l2 @ crlf @ ?l3 @ crlf @ ?l4 @ crlf @ crlf @ sdp"
  have cr: "CHR 0x0D \<notin> set ?l1" "CHR 0x0D \<notin> set ?l2" "CHR 0x0D \<notin> set ?l3" "CHR 0x0D \<notin> set ?l4"
    by (simp_all add: fmt_u_def)
  have sl: "strlen sdp = length sdp" "c_str sdp = sdp"
    using assms(2) by (simp_all add: strlen_def c_str_id)
  have fit: "length ?t < 1024"
    using assms(1) length_fmt_u [of "getCSeq r"] length_fmt_u [of "word_of_nat (length sdp)"] by simp
  have e: "buildDescribeRes r 1024 sdp = ?t"
    using fit assms(1) decimal_int_str [of "length sdp"] by (simp add: buildDescribeRes_def sl snprintf_fits)
  have "reply_number ''Content-Length'' ?t = Some (word_of_nat (length sdp))"
  proof -
    have "scan_number (?l3 @ crlf @ ?l4 @ crlf @ crlf @ sdp) = Some (word_of_nat (length sdp))"
      using scan_number_field [of "word_of_nat (length sdp)" ?len "''Content-Length''" "crlf @ ?l4 @ crlf @ crlf @ sdp"]
      by (simp add: is_digit_def)
    moreover have "reply_number ''Content-Length'' ?t = reply_number ''Content-Length'' (?l2 @ crlf @ ?l3 @ crlf @ ?l4 @ crlf @ crlf @ sdp)"
      by (subst reply_number_line [OF cr(1)]) simp
    moreover have "reply_number ''Content-Length'' (?l2 @ crlf @ ?l3 @ crlf @ ?l4 @ crlf @ crlf @ sdp) =
        scan_number (?l3 @ crlf @ ?l4 @ crlf @ crlf @ sdp)"
      by (subst reply_number_line [OF cr(2)]) simp
    ultimately show ?thesis by simp
  qed
  moreover have "reply_body ?t = Some sdp"
  proof -
    have "reply_body (?l4 @ crlf @ crlf @ sdp) = Some sdp"
      by (subst reply_body_line [OF cr(4)]) simp
    then have "reply_body (?l3 @ crlf @ ?l4 @ crlf @ crlf @ sdp) = Some sdp"
      by (subst reply_body_line [OF cr(3)]) simp
    then have "reply_body (?l2 @ crlf @ ?l3 @ crlf @ ?l4 @ crlf @ crlf @ sdp) = Some sdp"
      by (subst reply_body_line [OF cr(2)]) simp
    then show ?thesis by (subst reply_body_line [OF cr(1)]) simp
  qed
  ultimately show ?thesis unfolding e by blast
qed

text \<open>
  C31: Every reply of the command handlers stays within its 1024 character buffer and reads back as an RTSP response to the
  request: the status code of its kind and the CSeq (also where it is printed with the signed conversion). Every reply
  but DESCRIBE's is complete: it carries the session number exactly where it should, and ends with the empty line. The
  DESCRIBE reply is complete, with the right Content-Length and the description as its body, if the description has at most
  900 characters, none of them NUL; a longer one may be cut.
\<close>

theorem reply_fields:
  "(reply_status (reply_text r k) = reply_code k \<and>
    reply_number ''CSeq'' (reply_text r k) = Some (getCSeq r) \<and>
    reply_number ''Session'' (reply_text r k) = reply_session k \<and>
    (\<exists>h. reply_text r k = h @ crlf @ crlf) \<and> length (reply_text r k) < 1024) \<and>
   (\<forall>sdp. reply_status (buildDescribeRes r 1024 sdp) = ''200'' \<and>
    reply_number ''CSeq'' (buildDescribeRes r 1024 sdp) = Some (getCSeq r) \<and> length (buildDescribeRes r 1024 sdp) < 1024 \<and>
    (length sdp \<le> 900 \<longrightarrow> CHR 0x00 \<notin> set sdp \<longrightarrow>
      reply_number ''Content-Length'' (buildDescribeRes r 1024 sdp) = Some (word_of_nat (length sdp)) \<and>
      reply_body (buildDescribeRes r 1024 sdp) = Some sdp))"
  using reply_reads describe_head describe_reply by simp

theorem reply_fields_witness:
  "reply_body (buildDescribeRes (RtspRequest_init DESCRIBE channel_0 RTP_OVER_TCP) 1024 ''v=0'') = Some ''v=0'' \<and>
   reply_status (buildNotFoundRes (RtspRequest_init DESCRIBE channel_0 RTP_OVER_TCP) 1024) = ''404''"
proof -
  have "length ''v=0'' \<le> 900" "CHR 0x00 \<notin> set ''v=0''" by simp_all
  then show ?thesis
    using reply_fields [of "RtspRequest_init DESCRIBE channel_0 RTP_OVER_TCP" R_NotFound] by simp
qed

end
