(* ===== verification/Rtp_Delivery.thy ===== *)
theory Rtp_Delivery
  imports Rtp_Connection
begin

text \<open>
  What \<open>Rtp_Connection\<close> puts on the network: the receiver's reading of RFC 3550 packets and of RFC
  2326 interleaved frames as a specification, the bytes each task sends, the sequence numbers
  over any interleaving of calls and tasks, silence outside play, and the descriptors a UDP
  setup leaves open.
\<close>

section \<open>The receiver\<close>

record rtp_view =
  v_version :: "2 word"
  v_padding :: "1 word"
  v_extension :: "1 word"
  v_cc :: "4 word"
  v_marker :: "1 word"
  v_payload_type :: "7 word"
  v_seq :: u16
  v_timestamp :: u32
  v_ssrc :: u32
  v_payload :: "byte list"

text \<open>Multi-byte fields are in network order, most significant byte first.\<close>

definition net_word :: "byte list \<Rightarrow> 'a::len word" where
  "net_word bs = le_word (rev bs)"

definition rtp_parse :: "byte list \<Rightarrow> rtp_view option" where
  "rtp_parse bs =
     (if length bs < 12 then None
      else Some \<lparr>v_version = ucast (drop_bit 6 (bs ! 0)), v_padding = ucast (drop_bit 5 (bs ! 0)),
                 v_extension = ucast (drop_bit 4 (bs ! 0)), v_cc = ucast (bs ! 0),
                 v_marker = ucast (drop_bit 7 (bs ! 1)), v_payload_type = ucast (bs ! 1),
                 v_seq = net_word (take 2 (drop 2 bs)), v_timestamp = net_word (take 4 (drop 4 bs)),
                 v_ssrc = net_word (take 4 (drop 8 bs)), v_payload = drop 12 bs\<rparr>)"

text \<open>An interleaved frame: dollar, channel, 16-bit length, that many bytes.\<close>

fun interleaved_parse :: "byte list \<Rightarrow> (u8 \<times> byte list) option" where
  "interleaved_parse (d # chn # hi # lo # rest) =
     (if d = 0x24 \<and> length rest = unat (net_word [hi, lo] :: u16) then Some (chn, rest) else None)"
| "interleaved_parse _ = None"

definition view_of :: "RtpHeader \<Rightarrow> byte list \<Rightarrow> rtp_view" where
  "view_of h payload =
     \<lparr>v_version = hdr_version h, v_padding = hdr_padding h, v_extension = hdr_extension h, v_cc = hdr_cc h,
      v_marker = hdr_marker h, v_payload_type = hdr_payload h, v_seq = byte_swap 2 (hdr_seq h),
      v_timestamp = byte_swap 4 (hdr_ts h), v_ssrc = byte_swap 4 (hdr_ssrc h), v_payload = payload\<rparr>"

lemma net_word_le_bytes: "net_word (le_bytes n w) = byte_swap n (w :: 'a::len word)"
  by (simp add: net_word_def byte_swap_def)

lemma header_fields:
  fixes cc :: "4 word" and x p :: "1 word" and v :: "2 word"
  defines "b \<equiv> (ucast cc OR push_bit 4 (ucast x) OR push_bit 5 (ucast p) OR push_bit 6 (ucast v) :: byte)"
  shows "ucast (drop_bit 6 b) = v" "ucast (drop_bit 5 b) = p" "ucast (drop_bit 4 b) = x" "ucast b = cc"
  unfolding b_def
  by (rule bit_word_eqI; auto simp: bit_simps dest: bit_imp_le_length)+

lemma marker_fields:
  fixes pt :: "7 word" and m :: "1 word"
  defines "b \<equiv> (ucast pt OR push_bit 7 (ucast m) :: byte)"
  shows "ucast (drop_bit 7 b) = m" "ucast b = pt"
  unfolding b_def
  by (rule bit_word_eqI; auto simp: bit_simps dest: bit_imp_le_length)+

lemma rtp_parse_header: "rtp_parse (rtp_header_bytes h @ payload) = Some (view_of h payload)"
proof -
  define a :: byte where "a = ucast (hdr_cc h) OR push_bit 4 (ucast (hdr_extension h)) OR
    push_bit 5 (ucast (hdr_padding h)) OR push_bit 6 (ucast (hdr_version h))"
  define b :: byte where "b = ucast (hdr_payload h) OR push_bit 7 (ucast (hdr_marker h))"
  have e: "rtp_header_bytes h @ payload =
      a # b # le_bytes 2 (hdr_seq h) @ le_bytes 4 (hdr_ts h) @ le_bytes 4 (hdr_ssrc h) @ payload"
    by (simp add: rtp_header_bytes_def a_def b_def)
  note f = header_fields [of "hdr_cc h" "hdr_extension h" "hdr_padding h" "hdr_version h", folded a_def]
    marker_fields [of "hdr_payload h" "hdr_marker h", folded b_def]
  show ?thesis
    unfolding rtp_parse_def view_of_def e by (simp add: f net_word_le_bytes)
qed

lemma net_word_length:
  fixes n :: u32
  shows "(net_word [ucast (drop_bit 8 (n AND 0xFF00)), ucast (n AND 0xFF)] :: u16) = ucast n"
proof (rule bit_word_eqI)
  fix k
  assume k: "k < LENGTH(16)"
  have m: "(255 :: u32) = mask 8"
    by (simp add: mask_eq_exp_minus_1)
  show "bit (net_word [ucast (drop_bit 8 (n AND 0xFF00)), ucast (n AND 0xFF)] :: u16) k = bit (ucast n :: u16) k"
  proof (cases "k < 8")
    case True
    then show ?thesis
      using k by (simp add: net_word_def bit_le_word bit_ucast_iff m bit_and_iff bit_mask_iff bit_or_iff bit_push_bit_iff)
  next
    case False
    then obtain j where j: "k = 8 + j" by (metis le_Suc_ex not_less)
    with k show ?thesis
      by (simp add: net_word_def bit_le_word bit_ucast_iff m bit_and_iff bit_mask_iff bit_drop_bit_eq bit_or_iff bit_push_bit_iff)
  qed
qed

section \<open>One packet\<close>

definition packet_block_ok :: "RtpPacket \<Rightarrow> bool" where
  "packet_block_ok p \<longleftrightarrow> 16 \<le> unat (pkt_size p) \<and> unat (pkt_size p) \<le> length (pkt_data p) \<and> unat (pkt_size p) < 65540"

definition stamped_header :: "RtpPacket \<Rightarrow> MediaChannelInfo \<Rightarrow> RtpHeader" where
  "stamped_header pkt i = (rtpHeader i)\<lparr>hdr_marker := ucast (pkt_last pkt), hdr_ts := htonl (pkt_timestamp pkt),
     hdr_seq := htons (packetSeq i)\<rparr>"

definition stamped_info :: "RtpPacket \<Rightarrow> MediaChannelInfo \<Rightarrow> MediaChannelInfo" where
  "stamped_info pkt i = i\<lparr>rtpHeader := stamped_header pkt i, packetSeq := packetSeq i + 1\<rparr>"

definition payload_of :: "RtpPacket \<Rightarrow> byte list" where
  "payload_of p = segment 16 (unat (pkt_size p)) (pkt_data p)"

definition rtp_bytes :: "RtpPacket \<Rightarrow> MediaChannelInfo \<Rightarrow> byte list" where
  "rtp_bytes pkt i = rtp_header_bytes (stamped_header pkt i) @ payload_of pkt"

lemma setRtpHeader_sending:
  assumes "sending chn c" "packet_block_ok pkt"
  shows "setRtpHeader chn pkt c =
    Inr (pkt\<lparr>pkt_data := write_at 4 (rtp_header_bytes (stamped_header pkt (mediaChannelInfo c chn))) (pkt_data pkt)\<rparr>,
         upd_info chn (stamped_info pkt) c)"
  using assms
  by (simp add: setRtpHeader_def Let_def memcpy_def RTP_HEADER_SIZE_def packet_block_ok_def stamped_header_def
      stamped_info_def upd_info_def segment_def)

lemma sending_upd [simp]: "sending chn (upd_info chn (stamped_info pkt) c) = sending chn c"
  by (simp add: sending_def upd_info_def stamped_info_def)

lemma unat_size_minus_4: "packet_block_ok p \<Longrightarrow> unat (pkt_size p - 4) = unat (pkt_size p) - 4"
proof -
  assume "packet_block_ok p"
  then have "(4 :: u32) \<le> pkt_size p" by (simp add: packet_block_ok_def word_le_nat_alt)
  then show ?thesis by (simp add: unat_sub)
qed

lemma stamped_bytes:
  assumes "packet_block_ok p" "length h = 12"
  shows "segment 4 (unat (pkt_size p)) (write_at 4 h (pkt_data p)) = h @ payload_of p"
    and "take (unat (pkt_size p)) (write_at 0 [a0, a1, a2, a3] (write_at 4 h (pkt_data p))) = a0 # a1 # a2 # a3 # h @ payload_of p"
proof -
  let ?n = "unat (pkt_size p)" and ?d = "pkt_data p"
  have n: "16 \<le> ?n" "?n \<le> length ?d" using assms(1) by (auto simp: packet_block_ok_def)
  have w: "write_at 4 h ?d = take 4 ?d @ h @ drop 16 ?d"
    using assms(2) by (simp add: write_at_def)
  have t4: "length (take 4 ?d) = 4" using n by simp
  have p: "take (?n - 16) (drop 16 ?d) = payload_of p"
    by (simp add: payload_of_def segment_def)
  have d4: "drop 4 (write_at 4 h ?d) = h @ drop 16 ?d"
    using t4 unfolding w by simp
  have tk: "take (?n - 4) (h @ drop 16 ?d) = h @ payload_of p"
    using n assms(2) p by simp
  show "segment 4 ?n (write_at 4 h ?d) = h @ payload_of p"
    unfolding segment_def d4 tk ..
  have "write_at 0 [a0, a1, a2, a3] (write_at 4 h ?d) = a0 # a1 # a2 # a3 # drop 4 (write_at 4 h ?d)"
    by (simp add: write_at_def [of 0] eval_nat_numeral)
  also have "take ?n \<dots> = a0 # a1 # a2 # a3 # take (?n - 4) (h @ drop 16 ?d)"
    unfolding d4 using n by (simp add: take_Cons' numeral_eq_Suc)
  finally show "take ?n (write_at 0 [a0, a1, a2, a3] (write_at 4 h ?d)) = a0 # a1 # a2 # a3 # h @ payload_of p"
    unfolding tk .
qed

lemma transport_cases: "transportMode c = RTP_OVER_TCP \<or> transportMode c \<noteq> RTP_OVER_TCP"
  by blast

lemma upd_info_frame [simp]:
  "transportMode (upd_info chn f c) = transportMode c" "rtpfd (upd_info chn f c) = rtpfd c"
  "peerRtpAddr (upd_info chn f c) = peerRtpAddr c" "isClosed (upd_info chn f c) = isClosed c"
  "hasIDRFrame (upd_info chn f c) = hasIDRFrame c"
  "mediaChannelInfo (upd_info chn f c) chn = f (mediaChannelInfo c chn)"
  "chn' \<noteq> chn \<Longrightarrow> mediaChannelInfo (upd_info chn f c) chn' = mediaChannelInfo c chn'"
  by (simp_all add: upd_info_def)

lemma setFrameType_frame [simp]:
  "transportMode (setFrameType t c) = transportMode c" "rtpfd (setFrameType t c) = rtpfd c"
  "peerRtpAddr (setFrameType t c) = peerRtpAddr c" "isClosed (setFrameType t c) = isClosed c"
  "mediaChannelInfo (setFrameType t c) = mediaChannelInfo c"
  by (simp_all add: setFrameType_def Let_def)

lemma interleaved_parse_frame:
  assumes "packet_block_ok p" "length h = 12"
  shows "interleaved_parse (byte_of_char CHR ''$'' # chan # ucast (drop_bit 8 ((pkt_size p - 4) AND 0xFF00)) #
    ucast ((pkt_size p - 4) AND 0xFF) # h @ payload_of p) = Some (chan, h @ payload_of p)"
proof -
  have n: "16 \<le> unat (pkt_size p)" "unat (pkt_size p) \<le> length (pkt_data p)" "unat (pkt_size p) < 65540"
    using assms(1) by (auto simp: packet_block_ok_def)
  have l: "length (h @ payload_of p) = unat (pkt_size p) - 4"
    using n assms(2) by (simp add: payload_of_def)
  have "unat (ucast (pkt_size p - 4) :: u16) = unat (pkt_size p) - 4"
    using n(3) by (simp add: unsigned_ucast_eq unat_size_minus_4 [OF assms(1)] take_bit_nat_eq_self)
  then show ?thesis
    unfolding interleaved_parse.simps net_word_length l by (simp add: byte_of_char_def)
qed

text \<open>The task of a packet on a channel that plays: one output, the sequence number stepped.\<close>

lemma rtp_task_sends:
  assumes "sending chn (setFrameType (pkt_type pkt) c)" "packet_block_ok pkt"
  shows "rtp_task tcp sent (chn, pkt) c =
    (let c1 = upd_info chn (stamped_info pkt) (setFrameType (pkt_type pkt) c);
         rtp = rtp_bytes pkt (mediaChannelInfo c chn)
     in if transportMode c = RTP_OVER_TCP
        then Inr (case tcp of None \<Rightarrow> [] | Some t \<Rightarrow>
               [TcpSend (byte_of_char CHR ''$'' # ucast (rtpChannel (mediaChannelInfo c chn)) #
                  ucast (drop_bit 8 ((pkt_size pkt - 4) AND 0xFF00)) # ucast ((pkt_size pkt - 4) AND 0xFF) # rtp)], c1)
        else Inr ([UdpSend (rtpfd c chn) (peerRtpAddr c chn) rtp], if sent < 0 then rtp_teardown c1 else c1))"
proof -
  have n: "16 \<le> unat (pkt_size pkt)" "unat (pkt_size pkt) \<le> length (pkt_data pkt)"
    using assms(2) by (auto simp: packet_block_ok_def)
  have ok: "packet_block_ok (pkt\<lparr>pkt_data := write_at 4 (rtp_header_bytes h) (pkt_data pkt)\<rparr>)" for h
    using assms(2) by (simp add: packet_block_ok_def)
  note s = setRtpHeader_sending [OF assms]
  note b = stamped_bytes [OF assms(2) length_rtp_header_bytes]
  show ?thesis
  proof (cases "transportMode c = RTP_OVER_TCP")
    case True
    then show ?thesis
      using assms n
      by (cases tcp) (simp_all add: rtp_task_def s sendRtpOverTcp_def Let_def b(2) rtp_bytes_def stamped_info_def)
  next
    case False
    then show ?thesis
      using assms n
      by (simp add: rtp_task_def s sendRtpOverUdp_def Let_def unat_size_minus_4 b(1) rtp_bytes_def)
  qed
qed

lemma rtp_task_silent:
  "\<not> sending chn (setFrameType (pkt_type pkt) c) \<Longrightarrow>
     rtp_task tcp sent (chn, pkt) c = Inr ([], setFrameType (pkt_type pkt) c)"
  by (simp add: rtp_task_def setRtpHeader_def)

lemma view_fields:
  "v_seq (view_of (stamped_header pkt i) d) = packetSeq i"
  "v_timestamp (view_of (stamped_header pkt i) d) = pkt_timestamp pkt"
  "v_marker (view_of (stamped_header pkt i) d) = ucast (pkt_last pkt)"
  "v_payload (view_of (stamped_header pkt i) d) = d"
  "v_version (view_of (stamped_header pkt i) d) = hdr_version (rtpHeader i)"
  "v_payload_type (view_of (stamped_header pkt i) d) = hdr_payload (rtpHeader i)"
  "v_ssrc (view_of (stamped_header pkt i) d) = byte_swap 4 (hdr_ssrc (rtpHeader i))"
  by (simp_all add: view_of_def stamped_header_def htons_def htonl_def)

definition after_task :: "int \<Rightarrow> MediaChannelId \<Rightarrow> RtpPacket \<Rightarrow> RtpConnection \<Rightarrow> RtpConnection" where
  "after_task sent chn pkt c =
     (let c1 = upd_info chn (stamped_info pkt) (setFrameType (pkt_type pkt) c)
      in if transportMode c \<noteq> RTP_OVER_TCP \<and> sent < 0 then rtp_teardown c1 else c1)"

lemma after_task_seq: "packetSeq (mediaChannelInfo (after_task sent chn pkt c) chn) = packetSeq (mediaChannelInfo c chn) + 1"
  by (simp add: after_task_def Let_def rtp_teardown_def stamped_info_def)

text \<open>The receiver's way from an output to the RTP packet in it.\<close>

definition carries :: "RtpConnection \<Rightarrow> MediaChannelId \<Rightarrow> rtp_out \<Rightarrow> byte list \<Rightarrow> bool" where
  "carries c chn out rtp \<longleftrightarrow>
     (case out of
        TcpSend bytes \<Rightarrow> transportMode c = RTP_OVER_TCP \<and>
          interleaved_parse bytes = Some (ucast (rtpChannel (mediaChannelInfo c chn)), rtp)
      | UdpSend fd addr bytes \<Rightarrow> transportMode c \<noteq> RTP_OVER_TCP \<and>
          fd = rtpfd c chn \<and> addr = peerRtpAddr c chn \<and> bytes = rtp)"

lemma rtp_task_wire:
  assumes "sending chn (setFrameType (pkt_type pkt) c)" "packet_block_ok pkt"
  shows "\<exists>out. rtp_task (Some t) sent (chn, pkt) c = Inr ([out], after_task sent chn pkt c) \<and>
    carries c chn out (rtp_bytes pkt (mediaChannelInfo c chn))"
proof -
  let ?i = "mediaChannelInfo c chn"
  define rtp where "rtp = rtp_bytes pkt ?i"
  define frame where "frame = byte_of_char CHR ''$'' # ucast (rtpChannel ?i) #
     ucast (drop_bit 8 ((pkt_size pkt - 4) AND 0xFF00)) # ucast ((pkt_size pkt - 4) AND 0xFF) # rtp"
  have i: "interleaved_parse frame = Some (ucast (rtpChannel ?i), rtp)"
    unfolding frame_def rtp_def rtp_bytes_def
    by (rule interleaved_parse_frame [OF assms(2) length_rtp_header_bytes])
  note task = rtp_task_sends [OF assms, of "Some t" sent, unfolded Let_def option.case, folded rtp_def, folded frame_def]
  show ?thesis
    unfolding task rtp_def [symmetric] using i
    by (cases "transportMode c = RTP_OVER_TCP") (simp_all add: carries_def after_task_def Let_def)
qed

lemma rtp_bytes_view:
  "rtp_parse (rtp_bytes pkt i) = Some (view_of (stamped_header pkt i) (payload_of pkt))"
  by (simp add: rtp_bytes_def rtp_parse_header)

text \<open>
  C17: What a playing client receives is an RFC 3550 packet: the one output of a packet's task, on
  TCP an interleaved frame of the negotiated channel with the right length and over UDP a
  datagram to the peer address of the track, decodes to the fields of the track's header, the
  packet's marker, time stamp and payload, and the track's sequence number,
  which is then stepped by one.
\<close>

theorem rtp_packet_on_wire:
  assumes "sending chn (setFrameType (pkt_type pkt) c)" "packet_block_ok pkt"
  shows "\<exists>out c'. rtp_task (Some t) sent (chn, pkt) c = Inr ([out], c') \<and>
    packetSeq (mediaChannelInfo c' chn) = packetSeq (mediaChannelInfo c chn) + 1 \<and>
    (\<exists>rtp v. rtp_parse rtp = Some v \<and>
       v_seq v = packetSeq (mediaChannelInfo c chn) \<and> v_timestamp v = pkt_timestamp pkt \<and>
       v_marker v = ucast (pkt_last pkt) \<and> v_payload v = segment 16 (unat (pkt_size pkt)) (pkt_data pkt) \<and>
       v_version v = hdr_version (rtpHeader (mediaChannelInfo c chn)) \<and>
       v_payload_type v = hdr_payload (rtpHeader (mediaChannelInfo c chn)) \<and>
       v_ssrc v = byte_swap 4 (hdr_ssrc (rtpHeader (mediaChannelInfo c chn))) \<and>
       (case out of
          TcpSend bytes \<Rightarrow> transportMode c = RTP_OVER_TCP \<and>
            interleaved_parse bytes = Some (ucast (rtpChannel (mediaChannelInfo c chn)), rtp)
        | UdpSend fd addr bytes \<Rightarrow> transportMode c \<noteq> RTP_OVER_TCP \<and>
            fd = rtpfd c chn \<and> addr = peerRtpAddr c chn \<and> bytes = rtp))"
  using rtp_task_wire [OF assms, of t sent] rtp_bytes_view [of pkt "mediaChannelInfo c chn"] after_task_seq [of sent chn pkt c]
    view_fields [of pkt "mediaChannelInfo c chn" "payload_of pkt"]
  unfolding carries_def payload_of_def by blast

section \<open>Any order of calls and tasks\<close>

text \<open>
  One client's RTP connection with its surroundings: the TCP connection while it exists, the
  tasks queued in its loop, and everything sent so far with the channel it was sent for.
\<close>

record rtp_world =
  w_conn :: RtpConnection
  w_tcp :: "tcp_ref option"
  w_tasks :: "(MediaChannelId \<times> RtpPacket) list"
  w_out :: "(MediaChannelId \<times> rtp_out) list"

datatype rtp_event =
    Ev_setup_tcp MediaChannelId u16 u16
  | Ev_setup_udp u32 "nat \<Rightarrow> udp_attempt" MediaChannelId u16 u16
  | Ev_play
  | Ev_record
  | Ev_teardown
  | Ev_packet MediaChannelId RtpPacket
  | Ev_task int
  | Ev_tcp_gone

fun rtp_step :: "rtp_world \<Rightarrow> rtp_event \<Rightarrow> rtp_world result" where
  "rtp_step w (Ev_setup_tcp chn a b) = Inr (w\<lparr>w_conn := snd (setupRtpOverTcp (w_tcp w) chn a b (w_conn w))\<rparr>)"
| "rtp_step w (Ev_setup_udp peer att chn a b) =
     Inr (w\<lparr>w_conn := snd (snd (setupRtpOverUdp (w_tcp w) peer att chn a b (w_conn w)))\<rparr>)"
| "rtp_step w Ev_play = Inr (w\<lparr>w_conn := rtp_play (w_conn w)\<rparr>)"
| "rtp_step w Ev_record = Inr (w\<lparr>w_conn := rtp_record (w_conn w)\<rparr>)"
| "rtp_step w Ev_teardown = Inr (w\<lparr>w_conn := rtp_teardown (w_conn w)\<rparr>)"
| "rtp_step w (Ev_packet chn pkt) =
     Inr (case snd (sendRtpPacket (w_tcp w) chn pkt (w_conn w)) of
            None \<Rightarrow> w | Some task \<Rightarrow> w\<lparr>w_tasks := w_tasks w @ [task]\<rparr>)"
| "rtp_step w (Ev_task sent) =
     (case w_tasks w of
        [] \<Rightarrow> Inr w
      | task # rest \<Rightarrow>
          rbind (rtp_task (w_tcp w) sent task (w_conn w))
            (\<lambda>(out, c). Inr (w\<lparr>w_conn := c, w_tasks := rest, w_out := w_out w @ map (Pair (fst task)) out\<rparr>)))"
| "rtp_step w Ev_tcp_gone = Inr (w\<lparr>w_tcp := None\<rparr>)"

fun event_ok :: "rtp_event \<Rightarrow> bool" where
  "event_ok (Ev_packet chn pkt) = packet_block_ok pkt"
| "event_ok _ = True"

definition out_rtp :: "rtp_out \<Rightarrow> byte list" where
  "out_rtp out = (case out of TcpSend b \<Rightarrow> drop 4 b | UdpSend fd addr b \<Rightarrow> b)"

definition sent_seqs :: "MediaChannelId \<Rightarrow> (MediaChannelId \<times> rtp_out) list \<Rightarrow> u16 option list" where
  "sent_seqs chn outs = map (\<lambda>(c, out). map_option v_seq (rtp_parse (out_rtp out))) (filter (\<lambda>(c, out). c = chn) outs)"

definition numbered :: "u16 \<Rightarrow> nat \<Rightarrow> u16 option list" where
  "numbered s n = map (\<lambda>k. Some (s + word_of_nat k)) [0..<n]"

definition next_seq :: "RtpConnection \<Rightarrow> MediaChannelId \<Rightarrow> u16" where
  "next_seq c chn = packetSeq (mediaChannelInfo c chn)"

definition world_inv :: "(MediaChannelId \<Rightarrow> u16) \<Rightarrow> rtp_world \<Rightarrow> bool" where
  "world_inv s0 w \<longleftrightarrow>
     (\<forall>chn. \<exists>n. sent_seqs chn (w_out w) = numbered (s0 chn) n \<and>
        (w_tcp w \<noteq> None \<or> transportMode (w_conn w) \<noteq> RTP_OVER_TCP \<longrightarrow> next_seq (w_conn w) chn = s0 chn + word_of_nat n)) \<and>
     (\<forall>task \<in> set (w_tasks w). packet_block_ok (snd task))"

lemma numbered_Suc: "numbered s (Suc n) = numbered s n @ [Some (s + word_of_nat n)]"
  by (simp add: numbered_def)

lemma udp_try_frame:
  "udp_try left att n chn c = (ok, evs, c') \<Longrightarrow>
     mediaChannelInfo c' = mediaChannelInfo c \<and> transportMode c' = transportMode c \<and> isClosed c' = isClosed c \<and>
     hasIDRFrame c' = hasIDRFrame c \<and> peerAddr c' = peerAddr c"
proof (induction left arbitrary: n c evs)
  case (Suc left)
  then show ?case
    by (auto simp: Let_def split: if_splits prod.splits)
qed simp

lemma next_seq_setup [simp]:
  "next_seq (snd (setupRtpOverTcp tcp chn a b c)) = next_seq c"
  "next_seq (snd (snd (setupRtpOverUdp tcp peer att chn a b c))) = next_seq c"
proof -
  show "next_seq (snd (setupRtpOverTcp tcp chn a b c)) = next_seq c"
    by (auto simp: setupRtpOverTcp_def next_seq_def upd_info_def fun_eq_iff split: option.splits)
  show "next_seq (snd (snd (setupRtpOverUdp tcp peer att chn a b c))) = next_seq c"
    by (auto simp: setupRtpOverUdp_def next_seq_def upd_info_def fun_eq_iff Let_def
        split: option.splits prod.splits bool.splits dest!: udp_try_frame)
qed

lemma next_seq_play [simp]:
  "next_seq (rtp_play c) = next_seq c" "next_seq (rtp_record c) = next_seq c" "next_seq (rtp_teardown c) = next_seq c"
  "next_seq (setFrameType t c) = next_seq c" "transportMode (rtp_play c) = transportMode c"
  "transportMode (rtp_record c) = transportMode c" "transportMode (rtp_teardown c) = transportMode c"
  by (auto simp: next_seq_def rtp_play_def rtp_record_def rtp_teardown_def Let_def fun_eq_iff)

lemma setup_without_tcp [simp]:
  "snd (setupRtpOverTcp None chn a b c) = c" "snd (snd (setupRtpOverUdp None peer att chn a b c)) = c"
  by (simp_all add: setupRtpOverTcp_def setupRtpOverUdp_def)

lemma next_seq_stamped:
  "next_seq (upd_info chn (stamped_info pkt) c) chn' = (if chn' = chn then next_seq c chn + 1 else next_seq c chn')"
  by (simp add: next_seq_def upd_info_def stamped_info_def)

lemma sent_seqs_append [simp]: "sent_seqs chn (a @ b) = sent_seqs chn a @ sent_seqs chn b"
  by (simp add: sent_seqs_def)

lemma sent_seq_rtp:
  "out_rtp out = rtp_bytes pkt (mediaChannelInfo c chn) \<Longrightarrow>
     sent_seqs chn' [(chn, out)] = (if chn = chn' then [Some (next_seq c chn)] else [])"
  by (simp add: sent_seqs_def rtp_bytes_def rtp_parse_header view_of_def stamped_header_def htons_def next_seq_def)

lemma world_inv_conn:
  assumes "world_inv s0 w" "next_seq c = next_seq (w_conn w)"
    and "w_tcp w = None \<Longrightarrow> transportMode c = transportMode (w_conn w)"
  shows "world_inv s0 (w\<lparr>w_conn := c\<rparr>)"
  using assms by (cases "w_tcp w") (auto simp: world_inv_def)

lemma world_inv_task:
  assumes "world_inv s0 w" "w_tasks w = (chn, pkt) # rest"
  shows "\<exists>w'. rtp_step w (Ev_task sent) = Inr w' \<and> world_inv s0 w'"
proof -
  let ?c = "w_conn w"
  have ok: "packet_block_ok pkt" and rest: "\<forall>task \<in> set rest. packet_block_ok (snd task)"
    using assms by (auto simp: world_inv_def)
  show ?thesis
  proof (cases "sending chn (setFrameType (pkt_type pkt) ?c)")
    case False
    have "world_inv s0 (w\<lparr>w_conn := setFrameType (pkt_type pkt) ?c, w_tasks := rest\<rparr>)"
      using assms(1) rest by (auto simp: world_inv_def)
    then show ?thesis
      using assms(2) False by (simp add: rtp_task_silent)
  next
    case True
    let ?c1 = "upd_info chn (stamped_info pkt) (setFrameType (pkt_type pkt) ?c)"
    define rtp where "rtp = rtp_bytes pkt (mediaChannelInfo ?c chn)"
    define out where "out = (if transportMode ?c = RTP_OVER_TCP
        then (case w_tcp w of None \<Rightarrow> [] | Some t \<Rightarrow>
           [TcpSend (byte_of_char CHR ''$'' # ucast (rtpChannel (mediaChannelInfo ?c chn)) #
              ucast (drop_bit 8 ((pkt_size pkt - 4) AND 0xFF00)) # ucast ((pkt_size pkt - 4) AND 0xFF) # rtp)])
        else [UdpSend (rtpfd ?c chn) (peerRtpAddr ?c chn) rtp])"
    define c' where "c' = (if transportMode ?c \<noteq> RTP_OVER_TCP \<and> sent < 0 then rtp_teardown ?c1 else ?c1)"
    have task: "rtp_task (w_tcp w) sent (chn, pkt) ?c = Inr (out, c')"
      unfolding rtp_task_sends [OF True ok] out_def c'_def rtp_def by (simp add: Let_def)
    have c': "next_seq c' = next_seq ?c1" "transportMode c' = transportMode ?c"
      by (simp_all add: c'_def)
    have one: "sent_seqs chn' (map (Pair chn) out) = (if chn = chn' \<and> out \<noteq> [] then [Some (next_seq ?c chn)] else [])" for chn'
    proof -
      have "out = [] \<or> (\<exists>o1. out = [o1] \<and> out_rtp o1 = rtp_bytes pkt (mediaChannelInfo ?c chn))"
        by (auto simp: out_def out_rtp_def rtp_def split: option.splits)
      then show ?thesis
        using sent_seq_rtp [of _ pkt ?c chn chn'] by (auto simp: sent_seqs_def [of _ "[]"])
    qed
    have empty: "out = [] \<longleftrightarrow> w_tcp w = None \<and> transportMode ?c = RTP_OVER_TCP"
      by (auto simp: out_def split: option.splits)
    have "\<exists>n. sent_seqs chn' (w_out w @ map (Pair chn) out) = numbered (s0 chn') n \<and>
        (w_tcp w \<noteq> None \<or> transportMode c' \<noteq> RTP_OVER_TCP \<longrightarrow> next_seq c' chn' = s0 chn' + word_of_nat n)" for chn'
    proof -
      obtain n where n: "sent_seqs chn' (w_out w) = numbered (s0 chn') n"
        "out \<noteq> [] \<longrightarrow> next_seq ?c chn' = s0 chn' + word_of_nat n"
        using assms(1) unfolding world_inv_def empty by blast
      show ?thesis
      proof (cases "chn = chn' \<and> out \<noteq> []")
        case True
        with n one [of chn'] show ?thesis
          by (intro exI [of _ "Suc n"]) (auto simp: numbered_Suc c' next_seq_stamped)
      next
        case False
        with n empty one [of chn'] show ?thesis
          by (intro exI [of _ n]) (auto simp: c' next_seq_stamped)
      qed
    qed
    then have "world_inv s0 (w\<lparr>w_conn := c', w_tasks := rest, w_out := w_out w @ map (Pair chn) out\<rparr>)"
      using rest by (simp add: world_inv_def)
    then show ?thesis using assms(2) by (simp add: task)
  qed
qed

lemma world_inv_step:
  assumes "world_inv s0 w" "event_ok e"
  shows "\<exists>w'. rtp_step w e = Inr w' \<and> world_inv s0 w'"
proof (cases e)
  case (Ev_task sent)
  show ?thesis
  proof (cases "w_tasks w")
    case Nil
    with assms Ev_task show ?thesis by simp
  next
    case (Cons task rest)
    with world_inv_task [OF assms(1)] Ev_task show ?thesis by (cases task) blast
  qed
next
  case (Ev_packet chn pkt)
  with assms show ?thesis
    by (auto simp: sendRtpPacket_def world_inv_def split: option.splits)
next
  case Ev_tcp_gone
  with assms show ?thesis by (fastforce simp: world_inv_def)
next
  case (Ev_setup_tcp chn a b)
  with world_inv_conn [OF assms(1), of "snd (setupRtpOverTcp (w_tcp w) chn a b (w_conn w))"]
  show ?thesis by (cases "w_tcp w") simp_all
next
  case (Ev_setup_udp peer att chn a b)
  with world_inv_conn [OF assms(1), of "snd (snd (setupRtpOverUdp (w_tcp w) peer att chn a b (w_conn w)))"]
  show ?thesis by (cases "w_tcp w") simp_all
qed (use world_inv_conn [OF assms(1)] in simp_all)

interpretation rtp: transition_system rtp_step "\<lambda>w e. event_ok e" "world_inv s0" for s0
  by unfold_locales (rule world_inv_step)

definition world_init :: "RtpConnection \<Rightarrow> tcp_ref \<Rightarrow> rtp_world" where
  "world_init c t = \<lparr>w_conn = c, w_tcp = Some t, w_tasks = [], w_out = []\<rparr>"

lemma world_inv_init: "world_inv (next_seq c) (world_init c t)"
  by (auto simp: world_inv_def world_init_def sent_seqs_def numbered_def intro!: exI [of _ 0])

text \<open>
  C14: Whatever order setups, PLAY, RECORD, TEARDOWN, packets, tasks of the loop and the loss of the TCP
  connection come in, no step faults and each track's packets leave with consecutive
  sequence numbers, modulo 65536, from the one the connection was created with: no
  number is skipped or used twice, also across pauses, changes of transport and the other track's traffic.
\<close>

theorem sequence_numbers_consecutive:
  assumes "\<forall>e \<in> set es. event_ok e"
  shows "\<exists>w. run_steps rtp_step (world_init (RtpConnection_new rd memory) t) es = Inr w \<and>
    (\<forall>chn. \<exists>n. sent_seqs chn (w_out w) = numbered (next_seq (RtpConnection_new rd memory) chn) n)"
proof -
  let ?c = "RtpConnection_new rd memory"
  have "admissible rtp_step (\<lambda>w e. event_ok e) w es" for w
    using assms by (induction es arbitrary: w) (auto split: sum.splits)
  from rtp.run_inv [OF world_inv_init [of ?c t] this] obtain w where
    w: "run_steps rtp_step (world_init ?c t) es = Inr w" "world_inv (next_seq ?c) w" by blast
  have "\<exists>n. sent_seqs chn (w_out w) = numbered (next_seq ?c chn) n" for chn
    using w(2) unfolding world_inv_def by blast
  with w(1) show ?thesis by blast
qed

definition sample_packet :: RtpPacket where
  "sample_packet = \<lparr>pkt_data = replicate 1600 7, pkt_size = 20, pkt_timestamp = 90, pkt_type = 0, pkt_last = 1\<rparr>"

definition sample_rtp :: RtpConnection where
  "sample_rtp = \<lparr>isClosed = False, hasIDRFrame = False, transportMode = RTP_OVER_UDP, frameType = 0,
     localRtpPort = (\<lambda>_. 0), localRtcpPort = (\<lambda>_. 0), rtpfd = (\<lambda>_. 0), rtcpfd = (\<lambda>_. 0), peerAddr = 0,
     peerRtpAddr = (\<lambda>_. (0, 0)), peerRtcpAddr = (\<lambda>_. (0, 0)), mediaChannelInfo = (\<lambda>_. MediaChannelInfo_init 0 0 0)\<rparr>"

definition sample_tcp :: tcp_ref where
  "sample_tcp = \<lparr>tcp_fd = 9, tcp_name = ''RtspServer-0.0.0.0:554#1''\<rparr>"

definition playing_rtp :: RtpConnection where
  "playing_rtp = rtp_play (snd (setupRtpOverTcp (Some sample_tcp) channel_0 2 3 (RtpConnection_new (\<lambda>_. 5) sample_rtp)))"

lemma sample_packet_ok: "packet_block_ok sample_packet"
  by (simp add: packet_block_ok_def sample_packet_def)

lemma playing_info:
  "isPlay (mediaChannelInfo playing_rtp channel_0)" "packetSeq (mediaChannelInfo playing_rtp channel_0) = 5"
  by (simp_all add: playing_rtp_def rtp_play_def setupRtpOverTcp_def RtpConnection_new_def MediaChannelInfo_init_def
      Let_def upd_info_def)

theorem rtp_packet_on_wire_witness:
  "\<exists>out c'. rtp_task (Some sample_tcp) 0 (channel_0, sample_packet) playing_rtp = Inr ([out], c') \<and>
     packetSeq (mediaChannelInfo c' channel_0) = 6"
proof -
  have "hasIDRFrame (setFrameType 0 c)" for c
    by (simp add: setFrameType_def Let_def)
  then have "sending channel_0 (setFrameType (pkt_type sample_packet) playing_rtp)"
    by (simp add: sending_def playing_info sample_packet_def)
  from rtp_packet_on_wire [OF this sample_packet_ok, of sample_tcp 0] show ?thesis
    by (auto simp: playing_info)
qed

theorem sequence_numbers_consecutive_witness:
  "\<exists>w. run_steps rtp_step (world_init (RtpConnection_new (\<lambda>_. 5) sample_rtp) sample_tcp)
       [Ev_setup_tcp channel_0 2 3, Ev_play, Ev_packet channel_0 sample_packet, Ev_packet channel_0 sample_packet,
        Ev_task 0, Ev_teardown, Ev_task 0] = Inr w"
  using sequence_numbers_consecutive [of "[Ev_setup_tcp channel_0 2 3, Ev_play, Ev_packet channel_0 sample_packet,
      Ev_packet channel_0 sample_packet, Ev_task 0, Ev_teardown, Ev_task 0]" "\<lambda>_. 5" sample_rtp sample_tcp]
    sample_packet_ok
  by (simp only: list.set ball_simps event_ok.simps) blast

section \<open>Silence outside play\<close>

definition quiet :: "RtpConnection \<Rightarrow> bool" where
  "quiet c \<longleftrightarrow> (\<forall>chn. \<not> isPlay (mediaChannelInfo c chn) \<and> \<not> isRecord (mediaChannelInfo c chn))"

lemma quiet_not_sending: "quiet c \<Longrightarrow> \<not> sending chn (setFrameType t c)"
  by (simp add: quiet_def sending_def)

lemma quiet_keeps:
  "quiet c \<Longrightarrow> quiet (setFrameType t c)"
  "quiet c \<Longrightarrow> quiet (rtp_teardown c)"
  "quiet c \<Longrightarrow> quiet (snd (setupRtpOverTcp tcp chn a b c))"
  "quiet c \<Longrightarrow> quiet (snd (snd (setupRtpOverUdp tcp peer att chn a b c)))"
proof -
  assume q: "quiet c"
  show "quiet (setFrameType t c)" using q by (simp add: quiet_def)
  show "quiet (rtp_teardown c)" using q by (simp add: quiet_def rtp_teardown_def)
  show "quiet (snd (setupRtpOverTcp tcp chn a b c))"
    using q by (auto simp: quiet_def setupRtpOverTcp_def upd_info_def split: option.splits)
  show "quiet (snd (snd (setupRtpOverUdp tcp peer att chn a b c)))"
    using q by (auto simp: quiet_def setupRtpOverUdp_def upd_info_def Let_def
        split: option.splits prod.splits bool.splits if_splits dest!: udp_try_frame)
qed

lemma quiet_step:
  assumes "quiet (w_conn w)" "rtp_step w e = Inr w'" "e \<noteq> Ev_play" "e \<noteq> Ev_record"
  shows "quiet (w_conn w') \<and> w_out w' = w_out w"
proof (cases e)
  case (Ev_task sent)
  show ?thesis
  proof (cases "w_tasks w")
    case Nil
    with assms Ev_task show ?thesis by simp
  next
    case (Cons task rest)
    obtain chn pkt where "task = (chn, pkt)" by (cases task)
    with assms Ev_task Cons quiet_not_sending [OF assms(1), of chn "pkt_type pkt"] show ?thesis
      by (auto simp: rtp_task_silent quiet_keeps(1))
  qed
qed (use assms quiet_keeps in \<open>auto split: option.splits\<close>)

text \<open>
  C22: A client gets no media it has not asked for: from a connection on which nothing plays (a
  new one, or one after TEARDOWN), no sequence of setups, packets, queued tasks and disconnects
  sends anything until a PLAY or RECORD, even tasks that were queued while it was playing.
\<close>

theorem silent_without_play:
  assumes "quiet (w_conn w)" "Ev_play \<notin> set es" "Ev_record \<notin> set es" "run_steps rtp_step w es = Inr w'"
  shows "w_out w' = w_out w"
  using assms
proof (induction es arbitrary: w)
  case (Cons e es)
  then obtain w1 where w1: "rtp_step w e = Inr w1" "run_steps rtp_step w1 es = Inr w'"
    by (auto simp: rbind_eq_Inr)
  have "quiet (w_conn w1) \<and> w_out w1 = w_out w"
    using quiet_step [OF Cons.prems(1) w1(1)] Cons.prems(2,3) by auto
  with Cons.IH [of w1] w1(2) Cons.prems(2,3) show ?case by simp
qed simp

theorem silent_without_play_witness:
  "\<exists>w'. run_steps rtp_step (world_init (rtp_teardown playing_rtp) sample_tcp)
       [Ev_packet channel_0 sample_packet, Ev_task 0] = Inr w' \<and> w_out w' = []"
proof -
  let ?w = "world_init (rtp_teardown playing_rtp) sample_tcp"
  have "rtp_teardown playing_rtp = playing_rtp\<lparr>isClosed := True, mediaChannelInfo :=
      (\<lambda>chn. (mediaChannelInfo playing_rtp chn)\<lparr>isRecord := False, isPlay := False\<rparr>)\<rparr>"
    by (simp add: rtp_teardown_def playing_rtp_def rtp_play_def setupRtpOverTcp_def RtpConnection_new_def upd_info_def)
  then have c: "isClosed (w_conn ?w)" "quiet (w_conn ?w)"
    by (simp_all add: world_init_def quiet_def)
  then have r: "run_steps rtp_step ?w [Ev_packet channel_0 sample_packet, Ev_task 0] = Inr ?w"
    by (simp add: sendRtpPacket_def world_init_def)
  show ?thesis
    using silent_without_play [OF c(2) _ _ r] r by (simp add: world_init_def)
qed

section \<open>UDP setup\<close>

text \<open>The descriptors open after a list of events.\<close>

fun open_after :: "int set \<Rightarrow> fd_event list \<Rightarrow> int set" where
  "open_after S [] = S"
| "open_after S (Opened f # evs) = open_after (insert f S) evs"
| "open_after S (Closed f # evs) = open_after (S - {f}) evs"

text \<open>The kernel hands out no descriptor that is open already.\<close>

definition fresh_fds :: "int set \<Rightarrow> (nat \<Rightarrow> udp_attempt) \<Rightarrow> bool" where
  "fresh_fds S att \<longleftrightarrow> (\<forall>n. att_rtpfd (att n) \<notin> S \<and> att_rtcpfd (att n) \<notin> S \<and> att_rtpfd (att n) \<noteq> att_rtcpfd (att n))"

definition attempt_succeeds :: "udp_attempt \<Rightarrow> bool" where
  "attempt_succeeds a \<longleftrightarrow> att_rtp_bound a \<and> att_rtcp_bound a"

lemma udp_try_result:
  assumes "fresh_fds S att" "udp_try left att n chn c = (ok, evs, c')"
  shows "(ok \<longleftrightarrow> (\<exists>k. n \<le> k \<and> k < n + left \<and> attempt_succeeds (att k))) \<and>
    open_after S evs = (if ok then {rtpfd c' chn, rtcpfd c' chn} \<union> S else S) \<and>
    (ok \<longrightarrow> localRtcpPort c' chn = localRtpPort c' chn + 1 \<and> localRtpPort c' chn AND 1 = 0 \<and>
       (\<exists>k. n \<le> k \<and> k < n + left \<and> rtpfd c' chn = att_rtpfd (att k) \<and> rtcpfd c' chn = att_rtcpfd (att k) \<and>
          attempt_succeeds (att k)))"
  using assms(2)
proof (induction left arbitrary: n c evs)
  case 0
  have "\<not> (n \<le> k \<and> k < n + 0 \<and> P)" for k P by linarith
  moreover have ok: "\<not> ok" and evs: "evs = []" using 0 by simp_all
  ultimately show ?case unfolding evs using ok by simp
next
  case (Suc left)
  let ?a = "att n"
  let ?p = "ucast (att_random ?a AND 0xfffe) :: u16"
  let ?c1 = "c\<lparr>localRtpPort := (localRtpPort c)(chn := ?p), localRtcpPort := (localRtcpPort c)(chn := ?p + 1),
      rtpfd := (rtpfd c)(chn := att_rtpfd ?a)\<rparr>"
  let ?c2 = "?c1\<lparr>rtcpfd := (rtcpfd ?c1)(chn := att_rtcpfd ?a)\<rparr>"
  have f: "att_rtpfd ?a \<notin> S" "att_rtcpfd ?a \<notin> S" "att_rtpfd ?a \<noteq> att_rtcpfd ?a"
    using assms(1) by (auto simp: fresh_fds_def)
  have range: "(\<exists>k. n \<le> k \<and> k < n + Suc left \<and> P k) \<longleftrightarrow> P n \<or> (\<exists>k. n + 1 \<le> k \<and> k < n + 1 + left \<and> P k)" for P
  proof -
    have "n \<le> k \<and> k < n + Suc left \<and> Q \<longleftrightarrow> k = n \<and> Q \<or> n + 1 \<le> k \<and> k < n + 1 + left \<and> Q" for k Q by arith
    then show ?thesis by (simp only: ex_disj_distrib simp_thms)
  qed
  have even: "?p AND 1 = 0"
  proof (rule bit_word_eqI)
    fix k
    show "bit (?p AND 1) k = bit (0 :: u16) k" if "k < LENGTH(16)"
      by (cases k) (simp_all add: bit_and_iff bit_1_iff bit_ucast_iff)
  qed
  show ?case
  proof (cases "attempt_succeeds ?a")
    case True
    with Suc.prems have "ok" "evs = [Opened (att_rtpfd ?a), Opened (att_rtcpfd ?a)]" "c' = ?c2"
      by (auto simp: attempt_succeeds_def Let_def)
    then show ?thesis
      unfolding range using True even by auto
  next
    case False
    obtain d pre evs' where d: "udp_try left att (n + 1) chn d = (ok, evs', c')" "evs = pre @ evs'"
      "pre = [Opened (att_rtpfd ?a), Closed (att_rtpfd ?a)] \<or>
       pre = [Opened (att_rtpfd ?a), Opened (att_rtcpfd ?a), Closed (att_rtcpfd ?a), Closed (att_rtpfd ?a)]"
    proof (cases "att_rtp_bound ?a")
      case True
      with Suc.prems False that [of ?c2 _ "[Opened (att_rtpfd ?a), Opened (att_rtcpfd ?a), Closed (att_rtcpfd ?a), Closed (att_rtpfd ?a)]"]
      show ?thesis by (auto simp: attempt_succeeds_def Let_def split: prod.splits)
    next
      case nb: False
      with Suc.prems that [of ?c1 _ "[Opened (att_rtpfd ?a), Closed (att_rtpfd ?a)]"]
      show ?thesis by (auto simp: Let_def split: prod.splits)
    qed
    have "open_after S evs = open_after S evs'"
      using d(2,3) f by auto
    with Suc.IH [OF d(1)] False show ?thesis
      unfolding range by auto
  qed
qed

text \<open>
  C32: A UDP setup is all or nothing for descriptors: provided the kernel hands out only
  descriptors that are not open, the call succeeds exactly when one of its ten attempts can bind
  both sockets; then precisely the two descriptors it stores stay open, on an even port and the next
  one, and the track is set up; otherwise every socket it opened is closed again and no track becomes
  set up.
\<close>

theorem setup_udp_descriptors:
  assumes "fresh_fds S att" "setupRtpOverUdp (Some t) peer att chn a b c = (ok, evs, c')"
  shows "(ok \<longleftrightarrow> (\<exists>k<10. attempt_succeeds (att k))) \<and>
    (if ok then open_after S evs = {rtpfd c' chn, rtcpfd c' chn} \<union> S \<and>
            localRtcpPort c' chn = localRtpPort c' chn + 1 \<and> localRtpPort c' chn AND 1 = 0 \<and>
            isSetup (mediaChannelInfo c' chn) \<and> transportMode c' = RTP_OVER_UDP
     else open_after S evs = S \<and> (\<forall>ch. isSetup (mediaChannelInfo c' ch) = isSetup (mediaChannelInfo c ch)))"
proof -
  let ?c = "upd_info chn (\<lambda>i. i\<lparr>rtpPort := a, rtcpPort := b\<rparr>) (c\<lparr>peerAddr := peer\<rparr>)"
  obtain ok1 evs1 c1 where t: "udp_try 10 att 0 chn ?c = (ok1, evs1, c1)"
    by (cases "udp_try 10 att 0 chn ?c") auto
  have r: "ok1 \<longleftrightarrow> (\<exists>k<10. attempt_succeeds (att k))"
    "open_after S evs1 = (if ok1 then {rtpfd c1 chn, rtcpfd c1 chn} \<union> S else S)"
    "ok1 \<Longrightarrow> localRtcpPort c1 chn = localRtpPort c1 chn + 1 \<and> localRtpPort c1 chn AND 1 = 0"
    using udp_try_result [OF assms(1) t] by auto
  have f: "mediaChannelInfo c1 = mediaChannelInfo ?c" using udp_try_frame [OF t] by blast
  have "isSetup (mediaChannelInfo ?c ch) = isSetup (mediaChannelInfo c ch)" for ch
    by (simp add: upd_info_def)
  then show ?thesis
    using assms(2) r f t by (cases ok1) (auto simp: setupRtpOverUdp_def udp_attempts_def Let_def upd_info_def)
qed

definition sample_attempts :: "nat \<Rightarrow> udp_attempt" where
  "sample_attempts n = \<lparr>att_random = 40001, att_rtpfd = 11, att_rtp_bound = True, att_rtcpfd = 12, att_rtcp_bound = (n = 1)\<rparr>"

lemma sample_setup: "\<exists>evs c'. setupRtpOverUdp (Some sample_tcp) 1 sample_attempts channel_0 6970 6971 sample_rtp = (True, evs, c')"
proof -
  let ?c = "upd_info channel_0 (\<lambda>i. i\<lparr>rtpPort := 6970, rtcpPort := 6971\<rparr>) (sample_rtp\<lparr>peerAddr := 1\<rparr>)"
  obtain ok evs c1 where t: "udp_try udp_attempts sample_attempts 0 channel_0 ?c = (ok, evs, c1)"
    by (cases "udp_try udp_attempts sample_attempts 0 channel_0 ?c") auto
  have "fresh_fds {9} sample_attempts" by (simp add: fresh_fds_def sample_attempts_def)
  from udp_try_result [OF this t] have ok
    by (auto simp: attempt_succeeds_def sample_attempts_def udp_attempts_def intro: exI [of _ "1 :: nat"])
  with t show ?thesis by (auto simp: setupRtpOverUdp_def Let_def)
qed

theorem setup_udp_descriptors_witness:
  "fst (setupRtpOverUdp (Some sample_tcp) 1 sample_attempts channel_0 6970 6971 sample_rtp)"
proof -
  obtain ok evs c' where s: "setupRtpOverUdp (Some sample_tcp) 1 sample_attempts channel_0 6970 6971 sample_rtp = (ok, evs, c')"
    by (cases "setupRtpOverUdp (Some sample_tcp) 1 sample_attempts channel_0 6970 6971 sample_rtp") auto
  have "fresh_fds {9} sample_attempts" by (simp add: fresh_fds_def sample_attempts_def)
  from setup_udp_descriptors [OF this s]
  have "ok" by (auto simp: attempt_succeeds_def sample_attempts_def intro: exI [of _ "1 :: nat"])
  with s show ?thesis by simp
qed

text \<open>
  C39: Over UDP the media goes to the wrong port: after a successful setup of a track for a client that
  announced RTP port \<open>a\<close> and a different RTCP port \<open>b\<close>, and a PLAY, the task of a packet of the track (of
  type 0 or I, or after an I frame) sends one datagram, from the track's RTP socket to the client's address
  with port \<open>b\<close>, because both peer addresses are filled in from the RTCP port.
\<close>

theorem udp_media_sent_to_rtcp_port:
  assumes "setupRtpOverUdp (Some t) peer att chn a b c = (True, evs, c')" "a \<noteq> b" "packet_block_ok pkt"
    and "pkt_type pkt = 0 \<or> pkt_type pkt = frame_type_code VIDEO_FRAME_I \<or> hasIDRFrame c"
  shows "\<exists>rtp c2. rtp_task (Some t) sent (chn, pkt) (rtp_play c') = Inr ([UdpSend (rtpfd c' chn) (peer, htons b) rtp], c2) \<and>
    htons b \<noteq> htons a"
proof -
  have "htons b \<noteq> htons a"
    using assms(2) byte_swap_byte_swap [of 2 a] byte_swap_byte_swap [of 2 b] unfolding htons_def by fastforce
  moreover have c': "peerRtpAddr c' chn = (peer, htons b)" "isSetup (mediaChannelInfo c' chn)" "transportMode c' \<noteq> RTP_OVER_TCP"
      "hasIDRFrame c' = hasIDRFrame c"
    using assms(1) by (auto simp: setupRtpOverUdp_def Let_def upd_info_def split: prod.splits bool.splits dest!: udp_try_frame)
  then have p: "sending chn (setFrameType (pkt_type pkt) (rtp_play c'))" "peerRtpAddr (rtp_play c') chn = (peer, htons b)"
      "rtpfd (rtp_play c') chn = rtpfd c' chn" "transportMode (rtp_play c') \<noteq> RTP_OVER_TCP"
    using assms(4) by (auto simp: sending_def setFrameType_def rtp_play_def Let_def)
  ultimately show ?thesis
    using rtp_task_sends [OF p(1) assms(3), of "Some t" sent] by (simp add: Let_def)
qed

theorem udp_media_sent_to_rtcp_port_witness:
  "\<exists>evs c' rtp c2. setupRtpOverUdp (Some sample_tcp) 1 sample_attempts channel_0 6970 6971 sample_rtp = (True, evs, c') \<and>
     rtp_task (Some sample_tcp) 100 (channel_0, \<lparr>pkt_data = replicate 1600 0, pkt_size = 116, pkt_timestamp = 0, pkt_type = 0, pkt_last = 1\<rparr>)
       (rtp_play c') = Inr ([UdpSend (rtpfd c' channel_0) (1, htons 6971) rtp], c2)"
proof -
  let ?pkt = "\<lparr>pkt_data = replicate 1600 0, pkt_size = 116, pkt_timestamp = 0, pkt_type = 0, pkt_last = 1\<rparr>"
  obtain evs c' where s: "setupRtpOverUdp (Some sample_tcp) 1 sample_attempts channel_0 6970 6971 sample_rtp = (True, evs, c')"
    using sample_setup by blast
  have "(6970 :: u16) \<noteq> 6971" "packet_block_ok ?pkt"
    "pkt_type ?pkt = 0 \<or> pkt_type ?pkt = frame_type_code VIDEO_FRAME_I \<or> hasIDRFrame sample_rtp"
    by (simp_all add: packet_block_ok_def)
  from udp_media_sent_to_rtcp_port [OF s this, of 100] s show ?thesis by blast
qed

text \<open>
  C40: Destroying the RTP side of an interleaved client closes the descriptor of its RTSP
  connection, which \<open>setupRtpOverTcp\<close> stored and the TCP connection still owns: the
  destructor's list of closed descriptors contains it.
\<close>

theorem destructor_closes_rtsp_socket:
  assumes "0 < tcp_fd t"
  shows "Closed (tcp_fd t) \<in> set (RtpConnection_destroy (snd (setupRtpOverTcp (Some t) chn a b c)))"
  using assms by (cases chn) (simp_all add: RtpConnection_destroy_def setupRtpOverTcp_def close_fds_def upd_info_def)

theorem destructor_closes_rtsp_socket_witness:
  "Closed 9 \<in> set (RtpConnection_destroy (snd (setupRtpOverTcp (Some sample_tcp) channel_0 2 3 sample_rtp)))"
  using destructor_closes_rtsp_socket [of sample_tcp channel_0 2 3 sample_rtp] by (simp add: sample_tcp_def)

end
