(* ===== verification/Media_Delivery.thy ===== *)
theory Media_Delivery
  imports Media_Session Rtp_Delivery
begin

text \<open>
  From a frame to every client's network: what the session's callback posts to each
  \<open>RtpConnection\<close>, and, put together with the packetisation and the wire format, the
  end-to-end theorem that a playing client's decoder gets the pushed NAL unit back.
\<close>

section \<open>One packet to all clients\<close>

definition same_packet :: "RtpPacket \<Rightarrow> RtpPacket \<Rightarrow> bool" where
  "same_packet p q \<longleftrightarrow> pkt_size p = pkt_size q \<and> pkt_timestamp p = pkt_timestamp q \<and> pkt_type p = pkt_type q \<and>
     pkt_last p = pkt_last q \<and> length (pkt_data p) = RTP_PACKET_BLOCK \<and>
     take (unat (pkt_size q)) (pkt_data p) = take (unat (pkt_size q)) (pkt_data q)"

definition deliverable :: "live_conns \<Rightarrow> tcp_conns \<Rightarrow> nat \<Rightarrow> bool" where
  "deliverable live tcp r \<longleftrightarrow>
     (case live r of None \<Rightarrow> False | Some c \<Rightarrow> \<not> isClosed c \<and> getId (tcp r) \<noteq> '''')"

definition source_packet_ok :: "RtpPacket \<Rightarrow> bool" where
  "source_packet_ok p \<longleftrightarrow> unat (pkt_size p) \<le> length (pkt_data p) \<and> unat (pkt_size p) \<le> RTP_PACKET_BLOCK"

lemma copy_packet_same:
  assumes "source_packet_ok p" "length block = RTP_PACKET_BLOCK"
  shows "\<exists>q. copy_packet block p = Inr q \<and> same_packet q p"
  using assms by (auto simp: copy_packet_def memcpy_def source_packet_ok_def same_packet_def write_at_def segment_def)

definition all_same :: "(string \<rightharpoonup> RtpPacket) \<Rightarrow> RtpPacket \<Rightarrow> bool" where
  "all_same m p \<longleftrightarrow> (\<forall>q \<in> ran m. same_packet q p)"

definition connected :: "live_conns \<Rightarrow> tcp_conns \<Rightarrow> nat \<Rightarrow> bool" where
  "connected live tcp r \<longleftrightarrow> live r \<noteq> None \<and> getId (tcp r) \<noteq> ''''"

lemma collect_effect:
  assumes "source_packet_ok pkt" "\<And>r. length (fresh r) = RTP_PACKET_BLOCK"
    and "all_same packets pkt" "\<forall>r \<in> set conns. getId (tcp r) \<in> dom packets"
  shows "\<exists>packets'. collect live tcp fresh pkt cs packets conns =
      Inr (filter (\<lambda>(fd, r). live r \<noteq> None) cs, packets', rev (filter (connected live tcp) (map snd cs)) @ conns) \<and>
    all_same packets' pkt \<and> (\<forall>r \<in> set (rev (filter (connected live tcp) (map snd cs)) @ conns). getId (tcp r) \<in> dom packets')"
  using assms(3,4)
proof (induction cs arbitrary: packets conns)
  case Nil
  then show ?case by simp
next
  case (Cons a cs)
  obtain fd r where a: "a = (fd, r)" by (cases a)
  show ?case
  proof (cases "live r = None \<or> getId (tcp r) = ''''")
    case True
    with a Cons.IH [OF Cons.prems] show ?thesis by (auto simp: connected_def Let_def)
  next
    case False
    have "\<exists>packets1. (if packets (getId (tcp r)) = None then rbind (copy_packet (fresh r) pkt) (\<lambda>p. Inr (packets(getId (tcp r) \<mapsto> p)))
        else Inr packets) = Inr packets1 \<and> all_same packets1 pkt \<and> dom packets1 = insert (getId (tcp r)) (dom packets)"
    proof (cases "packets (getId (tcp r))")
      case None
      obtain q where "copy_packet (fresh r) pkt = Inr q" "same_packet q pkt"
        using copy_packet_same [OF assms(1,2)] by blast
      with None Cons.prems(1) show ?thesis by (auto simp: all_same_def)
    next
      case (Some q)
      with Cons.prems(1) show ?thesis by auto
    qed
    then obtain packets1 where p1: "(if packets (getId (tcp r)) = None then rbind (copy_packet (fresh r) pkt) (\<lambda>p. Inr (packets(getId (tcp r) \<mapsto> p)))
        else Inr packets) = Inr packets1" "all_same packets1 pkt" "dom packets1 = insert (getId (tcp r)) (dom packets)" by blast
    have "\<forall>x \<in> set (r # conns). getId (tcp x) \<in> dom packets1"
      using Cons.prems(2) p1(3) by auto
    from Cons.IH [OF p1(2) this] False a p1(1) show ?thesis
      by (auto simp: connected_def Let_def)
  qed
qed

lemma deliver_effect:
  assumes "all_same packets pkt" "\<forall>r \<in> set conns. connected live tcp r \<and> getId (tcp r) \<in> dom packets"
  shows "map fst (deliver live tcp chn packets conns) = filter (deliverable live tcp) conns \<and>
    (\<forall>(r, ch, p) \<in> set (deliver live tcp chn packets conns). ch = chn \<and> same_packet p pkt)"
  using assms(2)
proof (induction conns)
  case (Cons r rs)
  then obtain c p t where c: "live r = Some c" "packets (getId (tcp r)) = Some p" "tcp r = Some t" "getId (tcp r) \<noteq> ''''"
    by (auto simp: connected_def getId_def split: option.splits)
  have "same_packet p pkt" using assms(1) c(2) by (auto simp: all_same_def ran_def)
  with Cons c show ?case
    by (cases "isClosed c") (auto simp: deliverable_def sendRtpPacket_def Let_def)
qed simp

lemma callback_effect:
  assumes "source_packet_ok pkt" "\<And>k r. length (fresh k r) = RTP_PACKET_BLOCK"
  shows "\<exists>ps. send_frame_callback live tcp fresh chn pkt (Inr cs) =
      (True, Inr \<lparr>cs_clients = filter (\<lambda>(fd, r). live r \<noteq> None) (cs_clients cs), cs_tasks = cs_tasks cs @ ps\<rparr>) \<and>
    map fst ps = rev (filter (deliverable live tcp) (map snd (cs_clients cs))) \<and>
    (\<forall>(r, ch, p) \<in> set ps. ch = chn \<and> same_packet p pkt)"
proof -
  let ?conns = "rev (filter (connected live tcp) (map snd (cs_clients cs)))"
  obtain packets where p: "collect live tcp (fresh (length (cs_tasks cs))) pkt (cs_clients cs) Map.empty [] =
      Inr (filter (\<lambda>(fd, r). live r \<noteq> None) (cs_clients cs), packets, ?conns)"
    "all_same packets pkt" "\<forall>r \<in> set ?conns. getId (tcp r) \<in> dom packets"
    using collect_effect [where fresh = "fresh (length (cs_tasks cs))" and packets = Map.empty and conns = "[]"
        and live = live and tcp = tcp and cs = "cs_clients cs", OF assms(1,2)]
    by (auto simp: all_same_def)
  have "\<forall>r \<in> set ?conns. connected live tcp r \<and> getId (tcp r) \<in> dom packets"
    using p(3) by auto
  note d = deliver_effect [OF p(2) this, of chn]
  have "filter (deliverable live tcp) ?conns = rev (filter (deliverable live tcp) (map snd (cs_clients cs)))"
    by (auto simp: rev_filter [symmetric] deliverable_def connected_def intro!: filter_cong split: option.splits)
  with d show ?thesis
    by (intro exI [of _ "deliver live tcp chn packets ?conns"]) (simp add: send_frame_callback_def p(1))
qed

section \<open>One frame to all clients\<close>

definition client_tasks :: "nat \<Rightarrow> posted list \<Rightarrow> (MediaChannelId \<times> RtpPacket) list" where
  "client_tasks r ps = map snd (filter (\<lambda>x. fst x = r) ps)"

definition tasks_of_packets :: "MediaChannelId \<Rightarrow> (MediaChannelId \<times> RtpPacket) list \<Rightarrow> RtpPacket list \<Rightarrow> bool" where
  "tasks_of_packets chn ts pkts = list_all2 (\<lambda>(ch, p) q. ch = chn \<and> same_packet p q) ts pkts"

lemma client_tasks_append [simp]: "client_tasks r (a @ b) = client_tasks r a @ client_tasks r b"
  by (simp add: client_tasks_def)

lemma client_tasks_single:
  assumes "distinct (map fst ps)" "\<forall>(r, ch, p) \<in> set ps. ch = chn \<and> same_packet p q"
  shows "tasks_of_packets chn (client_tasks r ps) (if r \<in> set (map fst ps) then [q] else [])"
  using assms
proof (induction ps)
  case Nil
  then show ?case by (simp add: client_tasks_def tasks_of_packets_def)
next
  case (Cons a ps)
  obtain r' ch p where a: "a = (r', ch, p)" by (cases a) auto
  have none: "client_tasks r' ps = []"
    using Cons.prems(1) a by (auto simp: client_tasks_def filter_empty_conv)
  show ?case
  proof (cases "r = r'")
    case True
    with Cons.prems a none show ?thesis
      by (auto simp: client_tasks_def tasks_of_packets_def)
  next
    case False
    with Cons a show ?thesis by (auto simp: client_tasks_def)
  qed
qed

lemma live_deliverable: "filter (deliverable live tcp) (map snd (filter (\<lambda>(fd, r). live r \<noteq> None) cs)) =
    filter (deliverable live tcp) (map snd cs)"
  by (induction cs) (auto simp: deliverable_def split: option.splits)

lemma distinct_live: "distinct (map snd cs) \<Longrightarrow> distinct (map snd (filter (\<lambda>(fd, r). live r \<noteq> None) cs))"
  by (simp add: distinct_map_filter)

lemma send_all_effect:
  assumes "\<forall>q \<in> set pkts. source_packet_ok q" "\<And>k r. length (fresh k r) = RTP_PACKET_BLOCK" "distinct (map snd (cs_clients cs))"
  shows "\<exists>cs' ps. send_all (Some (send_frame_callback live tcp fresh)) chn pkts (Inr cs) = (True, Inr cs') \<and>
    cs_tasks cs' = cs_tasks cs @ ps \<and>
    cs_clients cs' = (if pkts = [] then cs_clients cs else filter (\<lambda>(fd, r). live r \<noteq> None) (cs_clients cs)) \<and>
    (\<forall>r. tasks_of_packets chn (client_tasks r ps)
       (if r \<in> set (filter (deliverable live tcp) (map snd (cs_clients cs))) then pkts else []))"
  using assms(1,3)
proof (induction pkts arbitrary: cs)
  case Nil
  then show ?case by (simp add: client_tasks_def tasks_of_packets_def)
next
  case (Cons q qs)
  let ?D = "\<lambda>cs. set (filter (deliverable live tcp) (map snd (cs_clients cs)))"
  let ?live = "filter (\<lambda>(fd, r). live r \<noteq> None)"
  obtain ps where ps: "send_frame_callback live tcp fresh chn q (Inr cs) =
      (True, Inr \<lparr>cs_clients = ?live (cs_clients cs), cs_tasks = cs_tasks cs @ ps\<rparr>)"
    "map fst ps = rev (filter (deliverable live tcp) (map snd (cs_clients cs)))"
    "\<forall>(r, ch, p) \<in> set ps. ch = chn \<and> same_packet p q"
    using callback_effect [where fresh = fresh and pkt = q and cs = cs and chn = chn and live = live and tcp = tcp, OF _ assms(2)]
      Cons.prems(1) by auto
  let ?cs1 = "\<lparr>cs_clients = ?live (cs_clients cs), cs_tasks = cs_tasks cs @ ps\<rparr>"
  have "distinct (map fst ps)" unfolding ps(2) using Cons.prems(2) by simp
  from client_tasks_single [OF this ps(3)]
  have one: "tasks_of_packets chn (client_tasks r ps) (if r \<in> ?D cs then [q] else [])" for r
    unfolding ps(2) by simp
  obtain cs' ps' where r: "send_all (Some (send_frame_callback live tcp fresh)) chn qs (Inr ?cs1) = (True, Inr cs')"
    "cs_tasks cs' = cs_tasks ?cs1 @ ps'"
    "cs_clients cs' = (if qs = [] then cs_clients ?cs1 else ?live (cs_clients ?cs1))"
    "\<forall>r. tasks_of_packets chn (client_tasks r ps') (if r \<in> ?D ?cs1 then qs else [])"
    using Cons.IH [of ?cs1] Cons.prems distinct_live [OF Cons.prems(2), of live] by auto
  have D: "?D ?cs1 = ?D cs" using live_deliverable [of live tcp "cs_clients cs"] by simp
  have "tasks_of_packets chn (client_tasks r (ps @ ps')) (if r \<in> ?D cs then q # qs else [])" for r
    using list_all2_appendI [OF one [of r, unfolded tasks_of_packets_def] spec [OF r(4), of r, unfolded tasks_of_packets_def]]
    unfolding D tasks_of_packets_def by (simp split: if_splits)
  moreover have "?live (?live x) = ?live x" for x by simp
  ultimately show ?case
    using r(1,2,3) ps(1) by (intro exI [of _ cs'] exI [of _ "ps @ ps'"]) (simp add: send_packet_def)
qed

section \<open>The client's loop runs its tasks\<close>

fun run_tasks :: "tcp_ref option \<Rightarrow> int \<Rightarrow> (MediaChannelId \<times> RtpPacket) list \<Rightarrow> RtpConnection \<Rightarrow> (rtp_out list \<times> RtpConnection) result" where
  "run_tasks tcp sent [] c = Inr ([], c)"
| "run_tasks tcp sent (t # ts) c =
     rbind (rtp_task tcp sent t c)
       (\<lambda>(out, c1). rbind (run_tasks tcp sent ts c1) (\<lambda>(outs, c2). Inr (out @ outs, c2)))"

text \<open>The outputs carry RTP packets with these fields, addressed as the track was set up.\<close>

definition received :: "RtpConnection \<Rightarrow> MediaChannelId \<Rightarrow> rtp_out list \<Rightarrow> rtp_view list \<Rightarrow> bool" where
  "received c chn outs vs = list_all2 (\<lambda>out v. \<exists>rtp. carries c chn out rtp \<and> rtp_parse rtp = Some v) outs vs"

lemma copied_packet_ok:
  assumes "packet_ok f q" "same_packet p q"
  shows "packet_block_ok p" "payload_of p = rtp_payload q" "pkt_timestamp p = frame_timestamp f" "pkt_type p = frame_type f"
    "pkt_last p = pkt_last q"
proof -
  let ?n = "unat (pkt_size q)"
  have n: "?n = 16 + length (rtp_payload q)" "length (rtp_payload q) \<le> 1420" "length (pkt_data q) = 1600"
    using assms(1) by (auto simp: packet_ok_def rtp_sizes)
  have p: "length (pkt_data p) = 1600" "pkt_size p = pkt_size q" "take ?n (pkt_data p) = take ?n (pkt_data q)"
    using assms(2) by (auto simp: same_packet_def rtp_sizes)
  show "packet_block_ok p" using n p by (simp add: packet_block_ok_def)
  have "drop 16 (take ?n (pkt_data p)) = drop 16 (take ?n (pkt_data q))" unfolding p(3) ..
  then show "payload_of p = rtp_payload q"
    using p(2) by (simp add: payload_of_def rtp_payload_def segment_def RTP_HEADER_SIZE_def drop_take)
  show "pkt_timestamp p = frame_timestamp f" "pkt_type p = frame_type f" "pkt_last p = pkt_last q"
    using assms by (simp_all add: same_packet_def packet_ok_def)
qed

lemma source_of_packet_ok: "packet_ok f q \<Longrightarrow> source_packet_ok q"
  by (auto simp: packet_ok_def source_packet_ok_def rtp_sizes)

lemma after_task_frame:
  assumes "0 \<le> sent" "sending chn (setFrameType t c)" "pkt_type pkt = t"
  shows "sending chn (setFrameType t (after_task sent chn pkt c))" "carries (after_task sent chn pkt c) chn = carries c chn"
proof -
  let ?c1 = "upd_info chn (stamped_info pkt) (setFrameType t c)"
  have e: "after_task sent chn pkt c = ?c1"
    using assms by (simp add: after_task_def Let_def)
  have idr: "hasIDRFrame ?c1" using assms(2) by (simp add: sending_def)
  have "hasIDRFrame (setFrameType t ?c1)" using idr by (simp add: setFrameType_def Let_def)
  then show "sending chn (setFrameType t (after_task sent chn pkt c))"
    unfolding e using assms(2) by (simp add: sending_def stamped_info_def)
  show "carries (after_task sent chn pkt c) chn = carries c chn"
    unfolding e by (intro ext) (simp add: carries_def stamped_info_def split: rtp_out.split)
qed

lemma run_tasks_received:
  assumes "0 \<le> sent" "tasks_of_packets chn ts pkts" "list_all (packet_ok f) pkts"
    and "sending chn (setFrameType (frame_type f) c)"
  shows "\<exists>outs c' vs. run_tasks (Some t) sent ts c = Inr (outs, c') \<and> received c chn outs vs \<and>
    map v_payload vs = map rtp_payload pkts \<and>
    map v_seq vs = map (\<lambda>k. packetSeq (mediaChannelInfo c chn) + word_of_nat k) [0..<length pkts] \<and>
    map v_marker vs = map (\<lambda>q. ucast (pkt_last q)) pkts \<and> (\<forall>v \<in> set vs. v_timestamp v = frame_timestamp f)"
  using assms(2-4)
proof (induction pkts arbitrary: ts c)
  case Nil
  then show ?case by (simp add: tasks_of_packets_def received_def)
next
  case (Cons q qs)
  then obtain p ts' where ts: "ts = (chn, p) # ts'" "same_packet p q" "tasks_of_packets chn ts' qs"
    by (auto simp: tasks_of_packets_def list_all2_Cons2)
  have "packet_ok f q" using Cons.prems(2) by simp
  note p = copied_packet_ok [OF this ts(2)]
  let ?c1 = "after_task sent chn p c" and ?i = "mediaChannelInfo c chn"
  let ?v = "view_of (stamped_header p ?i) (payload_of p)"
  obtain out where out: "rtp_task (Some t) sent (chn, p) c = Inr ([out], ?c1)" "carries c chn out (rtp_bytes p ?i)"
    using rtp_task_wire [of chn p c] Cons.prems(3) p(1,4) by auto
  have s1: "sending chn (setFrameType (frame_type f) ?c1)" and c1: "carries ?c1 chn = carries c chn"
    using after_task_frame [OF assms(1) Cons.prems(3) p(4)] by auto
  have q1: "packetSeq (mediaChannelInfo ?c1 chn) = packetSeq ?i + 1"
    using after_task_seq by blast
  from Cons.IH [OF ts(3) _ s1] Cons.prems(2) obtain outs c' vs where r: "run_tasks (Some t) sent ts' ?c1 = Inr (outs, c')"
    "received ?c1 chn outs vs" "map v_payload vs = map rtp_payload qs"
    "map v_seq vs = map (\<lambda>k. packetSeq (mediaChannelInfo ?c1 chn) + word_of_nat k) [0..<length qs]"
    "map v_marker vs = map (\<lambda>q. ucast (pkt_last q)) qs" "\<forall>v \<in> set vs. v_timestamp v = frame_timestamp f"
    by auto
  have "received c chn (out # outs) (?v # vs)"
    using r(2) out(2) rtp_bytes_view [of p ?i] unfolding received_def c1 by auto
  moreover have "map v_seq (?v # vs) = map (\<lambda>k. packetSeq ?i + word_of_nat k) [0..<length (q # qs)]"
    using r(4) unfolding q1 by (simp add: view_fields upt_conv_Cons map_Suc_upt [symmetric] add.assoc del: upt_Suc)
  ultimately show ?case
    using out(1) r(1,3,5,6) p(2,3,5) ts(1)
    by (intro exI [of _ "out # outs"] exI [of _ c'] exI [of _ "?v # vs"]) (simp add: view_fields)
qed

lemma session_frame_received:
  assumes "\<And>k r. length (fresh k r) = RTP_PACKET_BLOCK" "\<And>i. length (blocks i) = RTP_PACKET_BLOCK" "frame_wf frame"
    and "ms_sources ss chn \<noteq> None" "distinct (map snd (ms_clients ss))"
  shows "\<exists>ps ss' pkts. session_handleFrame live tcp fresh blocks now chn frame ss = Inr (True, ps, ss') \<and>
    ss' = ss\<lparr>ms_clients := filter (\<lambda>(fd, r). live r \<noteq> None) (ms_clients ss)\<rparr> \<and>
    (plain_unit (frame_buffer frame) \<longrightarrow> reassembles (map rtp_payload pkts) (frame_buffer frame)) \<and>
    list_all (packet_ok (stamp now frame)) pkts \<and> last_flags (map pkt_last pkts) \<and>
    (\<forall>r. tasks_of_packets chn (client_tasks r ps)
       (if r \<in> set (filter (deliverable live tcp) (map snd (ms_clients ss))) then pkts else []))"
proof -
  let ?cs = "\<lparr>cs_clients = ms_clients ss, cs_tasks = []\<rparr>"
  obtain pkts where pkts: "\<And>cb s. handleFrame cb blocks now chn frame (s :: cast_state result) = Inr (send_all cb chn pkts s)"
    "(plain_unit (frame_buffer frame) \<longrightarrow> reassembles (map rtp_payload pkts) (frame_buffer frame))"
    "list_all (packet_ok (stamp now frame)) pkts" "last_flags (map pkt_last pkts)"
    using handleFrame_packets [where fresh = blocks and now = now and ch = chn and ?'s = "cast_state result", OF assms(2,3)] by auto
  have ne: "pkts \<noteq> []" using pkts(4) by auto
  have ok: "\<forall>q \<in> set pkts. source_packet_ok q"
    using pkts(3) source_of_packet_ok by (auto simp: list_all_iff)
  obtain cs' ps where cs': "send_all (Some (send_frame_callback live tcp fresh)) chn pkts (Inr ?cs) = (True, Inr cs')"
    "cs_tasks cs' = ps" "cs_clients cs' = filter (\<lambda>(fd, r). live r \<noteq> None) (ms_clients ss)"
    "\<forall>r. tasks_of_packets chn (client_tasks r ps)
       (if r \<in> set (filter (deliverable live tcp) (map snd (ms_clients ss))) then pkts else [])"
    using send_all_effect [where fresh = fresh and cs = ?cs and chn = chn and live = live and tcp = tcp, OF ok assms(1)] assms(5) ne
    by auto
  obtain src where "ms_sources ss chn = Some src" using assms(4) by blast
  then have "session_handleFrame live tcp fresh blocks now chn frame ss = Inr (True, ps, ss\<lparr>ms_clients := cs_clients cs'\<rparr>)"
    by (simp add: session_handleFrame_def pkts(1) cs'(1,2))
  with cs'(3,4) pkts(2-4) show ?thesis
    by (intro exI [of _ ps] exI [of _ "ss\<lparr>ms_clients := cs_clients cs'\<rparr>"] exI [of _ pkts]) (simp del: filter.simps)
qed

lemma last_marker: "last_flags ls \<Longrightarrow> map (\<lambda>l. ucast l :: 1 word) ls = replicate (length ls - 1) 0 @ [1]"
proof (induction ls rule: last_flags.induct)
  case (3 l l' ls)
  then show ?case by (cases ls) simp_all
qed simp_all

text \<open>What a client's decoder needs of the packets it received for one frame.\<close>

definition decodes_to :: "rtp_view list \<Rightarrow> AVFrame \<Rightarrow> u16 \<Rightarrow> bool" where
  "decodes_to vs f seq \<longleftrightarrow>
     reassembles (map v_payload vs) (frame_buffer f) \<and>
     map v_seq vs = map (\<lambda>k. seq + word_of_nat k) [0..<length vs] \<and>
     map v_marker vs = replicate (length vs - 1) 0 @ [1] \<and>
     (\<forall>v \<in> set vs. v_timestamp v = frame_timestamp f)"

lemma stamp_buffer [simp]: "frame_buffer (stamp now f) = frame_buffer f" "frame_type (stamp now f) = frame_type f"
  by (simp_all add: stamp_def)

lemma client_receives_frame:
  assumes "tasks_of_packets chn ts pkts" "reassembles (map rtp_payload pkts) (frame_buffer frame)"
    and "list_all (packet_ok (stamp now frame)) pkts" "last_flags (map pkt_last pkts)"
    and "sending chn (setFrameType (frame_type frame) c)" "0 \<le> sent"
  shows "\<exists>outs c' vs. run_tasks (Some t) sent ts c = Inr (outs, c') \<and> received c chn outs vs \<and>
    decodes_to vs (stamp now frame) (packetSeq (mediaChannelInfo c chn))"
proof -
  obtain outs c' vs where r: "run_tasks (Some t) sent ts c = Inr (outs, c')" "received c chn outs vs"
    "map v_payload vs = map rtp_payload pkts"
    "map v_seq vs = map (\<lambda>k. packetSeq (mediaChannelInfo c chn) + word_of_nat k) [0..<length pkts]"
    "map v_marker vs = map (\<lambda>q. ucast (pkt_last q)) pkts" "\<forall>v \<in> set vs. v_timestamp v = frame_timestamp (stamp now frame)"
    using run_tasks_received [OF assms(6,1,3), of c t] assms(5) unfolding stamp_buffer by blast
  have len: "length vs = length pkts" using map_eq_imp_length_eq [OF r(3)] .
  have "map v_marker vs = replicate (length vs - 1) 0 @ [1]"
    using last_marker [OF assms(4)] unfolding r(5) len by (simp add: comp_def)
  then show ?thesis
    using r assms(2) len by (auto simp: decodes_to_def)
qed

end
