(* ===== verification/Server_Invariant.thy ===== *)
theory Server_Invariant
  imports Rtsp_Server Rtsp_Requests Rtsp_Replies Media_Delivery
begin

text \<open>
  The invariant of the server over any sequence of connections, messages, frames, loop tasks and
  session changes, and the conditions under which a message can fault.
\<close>

section \<open>The invariant\<close>

definition conn_ok :: "'a Rtsp_scheme \<Rightarrow> RtspConnection \<Rightarrow> bool" where
  "conn_ok s c \<longleftrightarrow>
     connMode c = RTSP_SERVER \<and> (rtpConnPtr c = None \<longrightarrow> sessionId c = 0) \<and>
     (\<forall>r. rtpConnPtr c = Some r \<longrightarrow> r < nextRtp s \<and> rtpConns s r \<noteq> None \<and> rtpTcps s r = Some (tcpConn c))"

definition clients_ok :: "'a Rtsp_scheme \<Rightarrow> MediaSession \<Rightarrow> bool" where
  "clients_ok s ss \<longleftrightarrow> distinct (map fst (ms_clients ss)) \<and>
     (\<forall>(fd, r) \<in> set (ms_clients ss). r < nextRtp s \<and> (\<exists>t. rtpTcps s r = Some t \<and> tcp_fd t = fd))"

definition shared_inv :: "'a Rtsp_scheme \<Rightarrow> bool" where
  "shared_inv s \<longleftrightarrow> tables_inv s \<and> (\<forall>r. nextRtp s \<le> r \<longrightarrow> rtpConns s r = None) \<and>
     (\<forall>k ss. mediaSessions s k = Some ss \<longrightarrow> clients_ok s ss)"

text \<open>What a handler may do to the shared state: make new objects, update existing ones.\<close>

definition grows :: "'a Rtsp_scheme \<Rightarrow> 'a Rtsp_scheme \<Rightarrow> bool" where
  "grows s s' \<longleftrightarrow> Rtsp.more s' = Rtsp.more s \<and> nextRtp s \<le> nextRtp s' \<and>
     (\<forall>r < nextRtp s. (rtpConns s r \<noteq> None \<longrightarrow> rtpConns s' r \<noteq> None) \<and> rtpTcps s' r = rtpTcps s r)"

lemma grows_refl [simp]: "grows s s"
  by (simp add: grows_def)

lemma grows_trans: "grows s t \<Longrightarrow> grows t u \<Longrightarrow> grows s u"
  by (auto simp: grows_def)

lemma conn_ok_grows: "conn_ok s c \<Longrightarrow> grows s s' \<Longrightarrow> conn_ok s' c"
  by (auto simp: conn_ok_def grows_def)

lemma clients_ok_grows: "clients_ok s ss \<Longrightarrow> grows s s' \<Longrightarrow> clients_ok s' ss"
  by (fastforce simp: clients_ok_def grows_def)

lemma shared_inv_put_rtp:
  assumes "shared_inv s" "rtpConns s r \<noteq> None"
  shows "shared_inv (put_rtp r rtp s) \<and> grows s (put_rtp r rtp s)"
proof -
  have "r < nextRtp s" using assms by (metis not_le shared_inv_def)
  moreover have g: "grows s (put_rtp r rtp s)" by (simp add: grows_def put_rtp_def)
  moreover have "tables_inv (put_rtp r rtp s)"
    using assms(1) tables_inv_frame [of "put_rtp r rtp s" s] by (simp add: shared_inv_def put_rtp_def)
  ultimately show ?thesis
    using assms(1) clients_ok_grows [OF _ g] by (auto simp: shared_inv_def put_rtp_def)
qed

lemma shared_inv_put_session:
  assumes "shared_inv s" "mediaSessions s (ms_id ss) = Some old" "ms_suffix ss = ms_suffix old" "clients_ok s ss"
  shows "shared_inv (put_session ss s) \<and> grows s (put_session ss s)"
proof -
  have g: "grows s (put_session ss s)" by (simp add: grows_def put_session_def)
  moreover have "tables_inv (put_session ss s)"
    using assms tables_inv_put by (auto simp: shared_inv_def)
  ultimately show ?thesis
    using assms(1,4) clients_ok_grows [OF _ g] by (auto simp: shared_inv_def put_session_def)
qed

lemma clients_ok_add:
  assumes "clients_ok s ss" "r < nextRtp s" "rtpTcps s r = Some t"
  shows "clients_ok s (snd (snd (addClient (tcp_fd t) r ss)))"
proof (cases "map_of (ms_clients ss) (tcp_fd t)")
  case None
  then have "tcp_fd t \<notin> fst ` set (ms_clients ss)" by (simp add: map_of_eq_None_iff)
  moreover have "distinct (map fst (insort_key fst (fd, r) cs)) = distinct (map fst ((fd, r) # cs))" for fd and cs :: "(int \<times> nat) list"
    by (induction cs) (auto simp: set_insort_key image_iff)
  ultimately show ?thesis
    using assms None by (auto simp: clients_ok_def addClient_def Let_def set_insort_key)
next
  case (Some x)
  with assms show ?thesis by (simp add: addClient_def)
qed

lemma addClient_frame [simp]:
  "ms_id (snd (snd (addClient fd r ss))) = ms_id ss" "ms_suffix (snd (snd (addClient fd r ss))) = ms_suffix ss"
  "ms_sources (snd (snd (addClient fd r ss))) = ms_sources ss"
  "ms_sdp (snd (snd (addClient fd r ss))) = ms_sdp ss"
  by (simp_all add: addClient_def Let_def)

lemma getSdpMessage_frame [simp]:
  "ms_id (snd (getSdpMessage ip now v ss)) = ms_id ss" "ms_suffix (snd (getSdpMessage ip now v ss)) = ms_suffix ss"
  "ms_clients (snd (getSdpMessage ip now v ss)) = ms_clients ss" "ms_sources (snd (getSdpMessage ip now v ss)) = ms_sources ss"
  by (simp_all add: getSdpMessage_def Let_def)

section \<open>Handlers\<close>

text \<open>A command that needs the \<open>RtpConnection\<close> before DESCRIBE has made one.\<close>

definition premature :: "RtspConnection \<Rightarrow> Method \<Rightarrow> bool" where
  "premature c m \<longleftrightarrow> rtpConnPtr c = None \<and> (m = PLAY \<or> m = TEARDOWN \<or> m = GET_PARAMETER)"

definition handled :: "'a Rtsp_scheme \<Rightarrow> RtspConnection \<Rightarrow> (rtsp_out list \<times> 'a Rtsp_scheme \<times> RtspConnection) result \<Rightarrow> bool" where
  "handled s c res \<longleftrightarrow> (\<exists>outs s' c'. res = Inr (outs, s', c') \<and> shared_inv s' \<and> conn_ok s' c' \<and> grows s s' \<and>
     tcpConn c' = tcpConn c \<and> rtspRequest c' = rtspRequest c \<and>
     (rtpConnPtr c' = rtpConnPtr c \<or> rtpConnPtr c = None \<and> rtpConnPtr c' = Some (nextRtp s)))"

lemma with_rtp_live:
  "conn_ok s c \<Longrightarrow> rtpConnPtr c = Some r \<Longrightarrow> \<exists>rtp. rtpConns s r = Some rtp \<and> with_rtp c s f = f r rtp"
  by (auto simp: conn_ok_def with_rtp_def)

lemma handled_put_rtp:
  assumes "shared_inv s" "conn_ok s c" "rtpConnPtr c = Some r"
  shows "handled s c (Inr (outs, put_rtp r rtp s, c))"
proof -
  have "rtpConns s r \<noteq> None" using assms(2,3) by (simp add: conn_ok_def)
  from shared_inv_put_rtp [OF assms(1) this] conn_ok_grows [OF assms(2)] show ?thesis
    by (auto simp: handled_def)
qed

lemma handled_same: "shared_inv s \<Longrightarrow> conn_ok s c \<Longrightarrow> handled s c (Inr (outs, s, c))"
  by (simp add: handled_def)

lemma ensure_rtp_effect:
  assumes "shared_inv s" "conn_ok s c"
  shows "\<exists>r s' c'. ensure_rtp e s c = (r, s', c') \<and> shared_inv s' \<and> conn_ok s' c' \<and> grows s s' \<and> rtpConnPtr c' = Some r \<and>
    tcpConn c' = tcpConn c \<and> rtspRequest c' = rtspRequest c \<and>
    mediaSessions s' = mediaSessions s \<and> rtspSuffixMap s' = rtspSuffixMap s \<and>
    (rtpConnPtr c' = rtpConnPtr c \<or> rtpConnPtr c = None \<and> rtpConnPtr c' = Some (nextRtp s))"
proof (cases "rtpConnPtr c")
  case (Some r)
  with assms show ?thesis by (simp add: ensure_rtp_def)
next
  case None
  let ?r = "nextRtp s"
  let ?s = "s\<lparr>rtpConns := (rtpConns s)(?r \<mapsto> RtpConnection_new (env_random e) (env_memory e)),
      rtpTcps := (rtpTcps s)(?r := Some (tcpConn c)), nextRtp := ?r + 1\<rparr>"
  have g: "grows s ?s" by (simp add: grows_def)
  have "tables_inv ?s"
    using assms(1) tables_inv_frame [of ?s s] by (simp add: shared_inv_def)
  then have "shared_inv ?s"
    using assms(1) clients_ok_grows [OF _ g] by (auto simp: shared_inv_def)
  moreover have "conn_ok ?s (c\<lparr>rtpConnPtr := Some ?r\<rparr>)"
    using assms(2) by (simp add: conn_ok_def)
  ultimately show ?thesis
    using None g by (simp add: ensure_rtp_def Let_def)
qed

lemma handleCmdDescribe_ok:
  assumes "shared_inv s" "conn_ok s c"
  shows "handled s c (handleCmdDescribe e s c)"
proof -
  obtain r s1 c1 where e1: "ensure_rtp e s c = (r, s1, c1)" "shared_inv s1" "conn_ok s1 c1" "grows s s1" "rtpConnPtr c1 = Some r"
    "tcpConn c1 = tcpConn c" "rtspRequest c1 = rtspRequest c"
    "rtpConnPtr c1 = rtpConnPtr c \<or> rtpConnPtr c = None \<and> rtpConnPtr c1 = Some (nextRtp s)"
    using ensure_rtp_effect [OF assms] by blast
  show ?thesis
  proof (cases "lookMediaSession_suffix (getRtspUrlSuffix (rtspRequest c1)) s1")
    case None
    with e1 show ?thesis by (simp add: handleCmdDescribe_def handled_def)
  next
    case (Some ss)
    then have ss: "mediaSessions s1 (ms_id ss) = Some ss"
      using e1(2) by (auto simp: lookMediaSession_suffix_def shared_inv_def tables_inv_def split: option.splits)
    let ?c = "c1\<lparr>sessionId := ms_id ss\<rparr>"
    let ?ss1 = "snd (snd (addClient (tcp_fd (tcpConn c1)) r ss))"
    let ?ss2 = "snd (getSdpMessage (env_ip e) (env_time e) (getVersion s1) ?ss1)"
    have r: "r < nextRtp s1" "rtpTcps s1 r = Some (tcpConn c1)" "rtpConns s1 r \<noteq> None"
      using e1(3,5) by (auto simp: conn_ok_def)
    have "clients_ok s1 ss" using e1(2) ss by (auto simp: shared_inv_def)
    from clients_ok_add [OF this r(1,2)] have "clients_ok s1 ?ss2"
      by (simp add: clients_ok_def)
    then have p: "shared_inv (put_session ?ss2 s1)" "grows s1 (put_session ?ss2 s1)"
      using shared_inv_put_session [OF e1(2), of ?ss2 ss] ss by auto
    have "rtpConns (put_session ?ss2 s1) r \<noteq> None" using r(3) by (simp add: put_session_def)
    note q = shared_inv_put_rtp [OF p(1) this]
    have ok: "conn_ok s1 ?c" using e1(3,5) by (simp add: conn_ok_def)
    obtain rtp where w: "\<And>f :: nat \<Rightarrow> RtpConnection \<Rightarrow> (rtsp_out list \<times> 'a Rtsp_scheme \<times> RtspConnection) result. with_rtp ?c s1 f = f r rtp"
      using r(3) e1(5) by (auto simp: with_rtp_def)
    have "grows s (put_rtp r x (put_session ?ss2 s1))" "conn_ok (put_rtp r x (put_session ?ss2 s1)) ?c" for x
      using q grows_trans [OF e1(4) grows_trans [OF p(2)]] conn_ok_grows [OF conn_ok_grows [OF ok p(2)]] by blast+
    moreover have tc: "tcpConn ?c = tcpConn c1" by simp
    moreover have "\<exists>outs x. handleCmdDescribe e s c = Inr (outs, put_rtp r x (put_session ?ss2 s1), ?c)"
      unfolding handleCmdDescribe_def e1(1) Let_def prod.case Some option.case w tc by (intro exI, rule refl)
    moreover have "tcpConn ?c = tcpConn c \<and> rtspRequest ?c = rtspRequest c \<and>
        (rtpConnPtr ?c = rtpConnPtr c \<or> rtpConnPtr c = None \<and> rtpConnPtr ?c = Some (nextRtp s))"
      using e1(6-8) by simp
    ultimately show ?thesis
      using q unfolding handled_def by blast
  qed
qed

lemma handleCmdSetup_ok:
  assumes "shared_inv s" "conn_ok s c"
  shows "handled s c (handleCmdSetup e s c)"
proof (cases "lookMediaSession_id (sessionId c) s")
  case None
  with assms show ?thesis by (simp add: handleCmdSetup_def server_error_def handled_same Let_def)
next
  case (Some ss)
  then have "sessionId c \<noteq> 0"
    using assms(1) by (auto simp: lookMediaSession_id_def shared_inv_def tables_inv_def)
  then obtain r where r: "rtpConnPtr c = Some r" using assms(2) by (auto simp: conn_ok_def)
  obtain rtp where w: "\<And>f :: nat \<Rightarrow> RtpConnection \<Rightarrow> (rtsp_out list \<times> 'a Rtsp_scheme \<times> RtspConnection) result. with_rtp c s f = f r rtp"
    using assms(2) r by (auto simp: with_rtp_def conn_ok_def)
  show ?thesis
    using handled_put_rtp [OF assms r] handled_same [OF assms] Some
    by (cases "req_transport (rtspRequest c)")
      (auto simp: handleCmdSetup_def Let_def w server_error_def split: prod.split)
qed

lemma handle_command_ok:
  assumes "shared_inv s" "conn_ok s c" "\<not> premature c m"
  shows "handled s c (handle_command e m s c)"
proof -
  have live: "\<exists>r rtp. rtpConnPtr c = Some r \<and> rtpConns s r = Some rtp" if "m = PLAY \<or> m = TEARDOWN \<or> m = GET_PARAMETER"
    using that assms(2,3) by (auto simp: premature_def conn_ok_def)
  show ?thesis
  proof (cases m)
    case PLAY
    then obtain r rtp where r: "rtpConnPtr c = Some r" "rtpConns s r = Some rtp" using live by blast
    have "conn_ok s (c\<lparr>connState := START_PLAY\<rparr>)" using assms(2) by (simp add: conn_ok_def)
    from handled_put_rtp [OF assms(1) this] show ?thesis
      using PLAY r by (auto simp: handle_command_def handleCmdPlay_def with_rtp_def handled_def)
  next
    case TEARDOWN
    then obtain r rtp where "rtpConnPtr c = Some r" "rtpConns s r = Some rtp" using live by blast
    with TEARDOWN handled_put_rtp [OF assms(1,2)] show ?thesis
      by (simp add: handle_command_def handleCmdTeardown_def with_rtp_def)
  next
    case GET_PARAMETER
    then obtain r rtp where "rtpConnPtr c = Some r" "rtpConns s r = Some rtp" using live by blast
    with GET_PARAMETER handled_same [OF assms(1,2)] show ?thesis
      by (simp add: handle_command_def handleCmdGetParamter_def with_rtp_def)
  qed (use assms handleCmdDescribe_ok handleCmdSetup_ok handled_same in
      \<open>auto simp: handle_command_def handleCmdOption_def\<close>)
qed

section \<open>Input buffers\<close>

text \<open>Reading \<open>peek()[0]\<close> stays inside the vector, also when nothing is readable.\<close>

definition input_ok :: "buffer \<Rightarrow> bool" where
  "input_ok b \<longleftrightarrow> buffer_inv b \<and> readerIndex b < length (buffer_vec b) \<and> kCheapPrepend < length (buffer_vec b)"

lemma input_ok_advance: "input_ok b \<Longrightarrow> input_ok (advance n b)"
  by (auto simp: input_ok_def advance_def retrieveAll_def index_defs)

lemma input_ok_retrieveAll: "input_ok b \<Longrightarrow> input_ok (retrieveAll b)"
  by (auto simp: input_ok_def retrieveAll_def index_defs)

lemma input_ok_init: "0 < n \<Longrightarrow> input_ok (Buffer_init n)"
  by (simp add: input_ok_def Buffer_init_def index_defs)

lemma input_ok_append: "input_ok b \<Longrightarrow> input_ok (buf_append d b)"
proof -
  assume a: "input_ok b"
  let ?b1 = "ensureWritableBytes (length d) b"
  have inv: "buffer_inv (buf_append d b)" using a by (simp add: input_ok_def inv_intros)
  have e: "buffer_inv ?b1" "length d \<le> writableBytes ?b1"
    using ensureWritableBytes_effect [of b "length d"] a by (auto simp: input_ok_def)
  then have len: "length (write_at (writerIndex ?b1) d (buffer_vec ?b1)) = length (buffer_vec ?b1)"
    by (intro length_write_at) (auto simp: index_defs)
  have "readerIndex ?b1 < length (buffer_vec ?b1) \<and> kCheapPrepend < length (buffer_vec ?b1)"
  proof (cases "writableBytes b < length d")
    case True
    have fit: "8 + (writerIndex b - readerIndex b) \<le> length (buffer_vec b)"
      if "\<not> writableBytes b + prependableBytes b < length d + kCheapPrepend"
      using that True a by (auto simp: input_ok_def index_defs)
    then show ?thesis
      using a True
      by (auto simp: ensureWritableBytes_def makeSpace_def input_ok_def index_defs Let_def)
  next
    case False
    with a show ?thesis by (simp add: ensureWritableBytes_def input_ok_def)
  qed
  with inv len show ?thesis
    by (simp add: input_ok_def buf_append_def Let_def hasWritten_def beginWrite_def)
qed

lemma input_ok_peek: "input_ok b \<Longrightarrow> \<exists>c. peek_at 0 b = Inr c"
  by (simp add: input_ok_def peek_at_def peek_def)

lemma headers_turn_closed:
  assumes "\<And>n b. P b \<Longrightarrow> P (advance n b)" "P b" "headers_turn ret b r = Inr (ok, b', r')"
  shows "P b'"
  using assms by (auto simp: headers_turn_def rbind_eq_Inr retrieveUntil_eq_Inr split: option.splits prod.splits)

lemma parseRequest_closed:
  assumes "\<And>n b. P b \<Longrightarrow> P (advance n b)" "\<And>b. P b \<Longrightarrow> P (retrieveAll b)" "P b" "parseRequest b r = Inr (ok, b', r')"
  shows "P b'"
proof (cases "peek_at 0 b = Inr (byte_of_char CHR ''$'')")
  case True
  with assms show ?thesis by (auto simp: parseRequest_def)
next
  case False
  then obtain c where c: "peek_at 0 b = Inr c" "c \<noteq> byte_of_char CHR ''$''"
    using assms(4) by (cases "peek_at 0 b") (auto simp: parseRequest_def)
  show ?thesis
  proof (cases "parse_state r")
    case kParseRequestLine
    then obtain ret b1 r1 where t: "request_turn b r = Inr (ret, b1, r1)"
      using assms(4) c by (auto simp: parseRequest_def rbind_eq_Inr)
    have "P b1" using t assms(1,3) by (auto simp: request_turn_def rbind_eq_Inr retrieveUntil_eq_Inr split: option.splits)
    then show ?thesis
      using assms(4) c t kParseRequestLine headers_turn_closed [where P = P, OF assms(1)]
      by (auto simp: parseRequest_def split: if_splits)
  next
    case kParseHeadersLine
    with assms(4) c headers_turn_closed [where P = P, OF assms(1,3)] show ?thesis by (auto simp: parseRequest_def)
  next
    case kGotAll
    with assms c show ?thesis by (auto simp: parseRequest_def)
  qed
qed

lemma parseRequest_input_ok: "input_ok b \<Longrightarrow> parseRequest b r = Inr (ok, b', r') \<Longrightarrow> input_ok b'"
  by (rule parseRequest_closed [of input_ok]) (auto intro: input_ok_advance input_ok_retrieveAll)

text \<open>
  \<open>handleRtcp\<close> takes a packet out only when its length says that it reaches at least to the end of the input; if it says that
  it reaches further, \<open>retrieve\<close> is asked for more than is there.
\<close>

definition rtcp_cut_short :: "buffer \<Rightarrow> bool" where
  "rtcp_cut_short b \<longleftrightarrow> peek_at 0 b = Inr (byte_of_char CHR ''$'') \<and> 4 < readableBytes b \<and>
     (case (peek_at 2 b, peek_at 3 b) of
        (Inr hi, Inr lo) \<Rightarrow> readableBytes b < unat (rtcp_size hi lo + 4)
      | _ \<Rightarrow> False)"

lemma handleRtcp_fault: "rtcp_cut_short b \<Longrightarrow> handleRtcp b = Inl AssertFail"
  by (auto simp: rtcp_cut_short_def handleRtcp_def retrieve_def Let_def split: sum.splits)

lemma handleRtcp_ok: 
  assumes "input_ok b" "\<not> rtcp_cut_short b"
  shows "\<exists>b'. handleRtcp b = Inr b' \<and> input_ok b'"
proof -
  note a = assms(1)
  have "\<exists>x. peek_at i b = Inr x" if "4 < readableBytes b" "i < 4" for i
    using that a by (auto simp: input_ok_def peek_at_def index_defs)
  then have "4 < readableBytes b \<Longrightarrow> \<exists>x y. peek_at 2 b = Inr x \<and> peek_at 3 b = Inr y" by simp
  with input_ok_peek [OF a] assms show ?thesis
    by (auto simp: handleRtcp_def Let_def rtcp_cut_short_def retrieve_def input_ok_advance)
qed

section \<open>Messages\<close>

text \<open>The three ways a message can make the server fault.\<close>

definition message_faults :: "buffer \<Rightarrow> RtspConnection \<Rightarrow> bool" where
  "message_faults buf c \<longleftrightarrow>
     (case parseRequest buf (rtspRequest c) of
        Inl f \<Rightarrow> True
      | Inr (ok, buf', req) \<Rightarrow>
          ok \<and> (if req_method req = RTCP then rtcp_cut_short buf' else gotAll req \<and> premature c (req_method req)))"

lemma conn_ok_request [simp]: "conn_ok s (c\<lparr>rtspRequest := q\<rparr>) = conn_ok s c"
  by (simp add: conn_ok_def)

lemma premature_request [simp]: "premature (c\<lparr>rtspRequest := q\<rparr>) m = premature c m"
  by (simp add: premature_def)

definition message_handled :: "'a Rtsp_scheme \<Rightarrow> RtspConnection \<Rightarrow> (rtsp_out list \<times> buffer \<times> 'a Rtsp_scheme \<times> RtspConnection) result \<Rightarrow> bool" where
  "message_handled s c res \<longleftrightarrow> (\<exists>outs buf' s' c'. res = Inr (outs, buf', s', c') \<and> input_ok buf' \<and>
     req_inv (rtspRequest c') \<and> shared_inv s' \<and> conn_ok s' c' \<and> grows s s' \<and> tcpConn c' = tcpConn c \<and>
     (rtpConnPtr c' = rtpConnPtr c \<or> rtpConnPtr c = None \<and> rtpConnPtr c' = Some (nextRtp s)))"

lemma message_handledI:
  assumes "handleRtspRequest e buf s c = Inr (ok, outs, buf', s', c')" "connMode c = RTSP_SERVER" "input_ok buf'"
    "req_inv (rtspRequest c')" "shared_inv s'" "conn_ok s' c'" "grows s s'" "tcpConn c' = tcpConn c"
    "rtpConnPtr c' = rtpConnPtr c \<or> rtpConnPtr c = None \<and> rtpConnPtr c' = Some (nextRtp s)"
  shows "message_handled s c (handleRtspMessage e buf s c)"
  using assms by (simp add: message_handled_def handleRtspMessage_def input_ok_retrieveAll)

lemma handleRtspMessage_ok:
  assumes "shared_inv s" "conn_ok s c" "req_inv (rtspRequest c)" "input_ok buf" "\<not> message_faults buf c"
  shows "message_handled s c (handleRtspMessage e buf s c)"
proof -
  obtain ok buf1 req where p: "parseRequest buf (rtspRequest c) = Inr (ok, buf1, req)"
    using assms(5) by (cases "parseRequest buf (rtspRequest c)") (auto simp: message_faults_def)
  have b1: "input_ok buf1" using parseRequest_input_ok [OF assms(4) p] .
  have req: "req_inv req" using parseRequest_inv [OF assms(3) _ p] assms(4) by (simp add: input_ok_def)
  let ?c = "c\<lparr>rtspRequest := req\<rparr>"
  have mode: "connMode c = RTSP_SERVER" using assms(2) by (simp add: conn_ok_def)
  have same: "message_handled s c (handleRtspMessage e buf s c)"
    if "handleRtspRequest e buf s c = Inr (ok', outs, buf', s, ?c)" "input_ok buf'" for ok' outs buf'
    by (rule message_handledI [OF that(1) mode that(2)]) (use req assms(1,2) in simp_all)
  show ?thesis
  proof (cases "ok \<and> req_method req \<noteq> RTCP \<and> gotAll req")
    case False
    show ?thesis
    proof (cases "ok \<and> req_method req = RTCP")
      case True
      then have "\<not> rtcp_cut_short buf1" using assms(5) by (simp add: message_faults_def p)
      with True show ?thesis
        using handleRtcp_ok [OF b1] same by (auto simp: handleRtspRequest_def p)
    next
      case no: False
      then have "handleRtspRequest e buf s c = Inr (ok, [], buf1, s, ?c)"
        using False by (auto simp: handleRtspRequest_def p Let_def)
      from same [OF this b1] show ?thesis .
    qed
  next
    case True
    have "\<not> premature ?c (req_method req)"
      using assms(5) True by (simp add: message_faults_def p)
    with assms(2) have "handled s ?c (handle_command e (req_method req) s ?c)"
      by (intro handle_command_ok [OF assms(1)]) simp_all
    then obtain outs s' c' where h: "handle_command e (req_method req) s ?c = Inr (outs, s', c')" "shared_inv s'"
      "conn_ok s' c'" "grows s s'" "tcpConn c' = tcpConn c" "rtspRequest c' = req"
      "rtpConnPtr c' = rtpConnPtr c \<or> rtpConnPtr c = None \<and> rtpConnPtr c' = Some (nextRtp s)"
      unfolding handled_def by auto
    let ?c' = "c'\<lparr>rtspRequest := req_reset req\<rparr>"
    have "handleRtspRequest e buf s c = Inr (True, outs, buf1, s', ?c')"
      using True by (simp add: handleRtspRequest_def p h(1,6))
    from message_handledI [OF this mode b1] show ?thesis
      using h req_inv_reset by simp
  qed
qed

lemma handleRtspMessage_fault:
  assumes "connMode c = RTSP_SERVER" "message_faults buf c"
  shows "\<exists>f. handleRtspMessage e buf s c = Inl f"
proof (cases "parseRequest buf (rtspRequest c)")
  case (Inl f)
  then show ?thesis using assms(1) by (simp add: handleRtspMessage_def handleRtspRequest_def)
next
  case (Inr x)
  obtain ok buf1 req where x: "x = (ok, buf1, req)" by (cases x)
  show ?thesis
  proof (cases "req_method req = RTCP")
    case True
    with assms(2) Inr x have "ok" "handleRtcp buf1 = Inl AssertFail" by (auto simp: message_faults_def handleRtcp_fault)
    with True Inr x assms(1) show ?thesis by (simp add: handleRtspMessage_def handleRtspRequest_def)
  next
    case False
    with assms(2) Inr x have "ok" "gotAll req" "premature c (req_method req)" by (auto simp: message_faults_def)
    with Inr x assms(1) show ?thesis
      by (auto simp: handleRtspMessage_def handleRtspRequest_def premature_def handle_command_def handleCmdPlay_def
          handleCmdTeardown_def handleCmdGetParamter_def with_rtp_def)
  qed
qed

section \<open>The server\<close>

definition server_inv :: "RtspServer \<Rightarrow> bool" where
  "server_inv s \<longleftrightarrow>
     shared_inv s \<and>
     (\<forall>name c. rtspConnMap s name = Some c \<longrightarrow> tcp_name (tcpConn c) = name \<and> conn_ok s c \<and> req_inv (rtspRequest c)) \<and>
     (\<forall>n1 n2 c1 c2 r. rtspConnMap s n1 = Some c1 \<longrightarrow> rtspConnMap s n2 = Some c2 \<longrightarrow>
        rtpConnPtr c1 = Some r \<longrightarrow> rtpConnPtr c2 = Some r \<longrightarrow> n1 = n2) \<and>
     (\<forall>name. input_ok (inputBuffers s name)) \<and>
     (\<forall>task \<in> set (loopTasks s). packet_block_ok (snd (snd task)))"

lemma more_eq:
  "Rtsp.more s' = Rtsp.more s \<Longrightarrow> rtspConnMap s' = rtspConnMap s \<and> inputBuffers s' = inputBuffers s \<and> loopTasks s' = loopTasks s"
  for s s' :: RtspServer
  by (cases s; cases s') simp

lemma server_inv_message:
  assumes "server_inv s" "rtspConnMap s name = Some c" "\<not> message_faults (buf_append d (inputBuffers s name)) c"
  shows "\<exists>outs s'. onMessage e name d s = Inr (outs, s') \<and> server_inv s'"
proof -
  have c: "shared_inv s" "conn_ok s c" "req_inv (rtspRequest c)" "tcp_name (tcpConn c) = name"
    and buf: "input_ok (buf_append d (inputBuffers s name))"
    using assms(1,2) input_ok_append by (auto simp: server_inv_def)
  obtain outs buf' s' c' where h: "handleRtspMessage e (buf_append d (inputBuffers s name)) s c = Inr (outs, buf', s', c')"
    "input_ok buf'" "req_inv (rtspRequest c')" "shared_inv s'" "conn_ok s' c'" "grows s s'" "tcpConn c' = tcpConn c"
    "rtpConnPtr c' = rtpConnPtr c \<or> rtpConnPtr c = None \<and> rtpConnPtr c' = Some (nextRtp s)"
    using handleRtspMessage_ok [OF c(1-3) buf assms(3), of e] unfolding message_handled_def by blast
  have m: "rtspConnMap s' = rtspConnMap s" "inputBuffers s' = inputBuffers s" "loopTasks s' = loopTasks s"
    using h(6) more_eq [of s' s] by (auto simp: grows_def)
  let ?t = "s'\<lparr>rtspConnMap := (rtspConnMap s')(name \<mapsto> c'), inputBuffers := (inputBuffers s')(name := buf')\<rparr>"
  have g: "conn_ok ?t x = conn_ok s' x" "shared_inv ?t = shared_inv s'" for x
    by (simp_all add: conn_ok_def shared_inv_def tables_inv_def clients_ok_def)
  have others: "rtpConnPtr c2 \<noteq> Some (nextRtp s)" if "rtspConnMap s n2 = Some c2" for n2 c2
    using that assms(1) by (force simp: server_inv_def conn_ok_def)
  have uniq: "n1 = n2" if "rtspConnMap s n1 = Some c1" "rtpConnPtr c1 = Some r" "rtspConnMap s n2 = Some c2" "rtpConnPtr c2 = Some r"
    for n1 n2 c1 c2 r
    using that assms(1) unfolding server_inv_def by blast
  have origin: "(\<exists>y. rtspConnMap s n = Some y \<and> rtpConnPtr y = Some r) \<or> n = name \<and> r = nextRtp s"
    if "rtspConnMap ?t n = Some x" "rtpConnPtr x = Some r" for n x r
    using that h(8) assms(2) by (cases "n = name") (auto simp: m)
  have "server_inv ?t"
    unfolding server_inv_def g
  proof (intro conjI allI impI)
    fix n x
    assume x: "rtspConnMap ?t n = Some x"
    show "tcp_name (tcpConn x) = n" "conn_ok s' x" "req_inv (rtspRequest x)"
      using x h c assms(1) conn_ok_grows [OF _ h(6)] by (auto simp: server_inv_def m split: if_splits)
  next
    fix n1 n2 c1 c2 r
    assume a: "rtspConnMap ?t n1 = Some c1" "rtspConnMap ?t n2 = Some c2" "rtpConnPtr c1 = Some r" "rtpConnPtr c2 = Some r"
    show "n1 = n2"
      using origin [OF a(1,3)] origin [OF a(2,4)] others uniq by metis
  qed (use h(2,4) assms(1) in \<open>auto simp: server_inv_def m\<close>)
  then show ?thesis
    using assms(2) h(1) by (simp add: onMessage_def)
qed

lemma server_inv_parts:
  assumes "server_inv s"
  shows "shared_inv s" "rtspConnMap s name = Some c \<Longrightarrow> tcp_name (tcpConn c) = name \<and> conn_ok s c \<and> req_inv (rtspRequest c)"
    "rtspConnMap s n1 = Some c1 \<Longrightarrow> rtpConnPtr c1 = Some r \<Longrightarrow> rtspConnMap s n2 = Some c2 \<Longrightarrow> rtpConnPtr c2 = Some r \<Longrightarrow> n1 = n2"
    "input_ok (inputBuffers s name)" "task \<in> set (loopTasks s) \<Longrightarrow> packet_block_ok (snd (snd task))"
  using assms unfolding server_inv_def by blast+

lemma server_inv_release:
  assumes "server_inv s"
  shows "server_inv (snd (release_name name s)) \<and> rtspConnMap (snd (release_name name s)) = (rtspConnMap s)(name := None)"
proof (cases "rtspConnMap s name")
  case None
  with assms show ?thesis by (simp add: release_name_def fun_upd_idem)
next
  case (Some c)
  obtain t where t: "snd (release_name name s) = t" "rtspConnMap t = (rtspConnMap s)(name := None)"
    "mediaSessions t = mediaSessions s" "rtspSuffixMap t = rtspSuffixMap s" "rtpTcps t = rtpTcps s" "nextRtp t = nextRtp s"
    "inputBuffers t = inputBuffers s" "loopTasks t = loopTasks s"
    "rtpConns t = (case rtpConnPtr c of None \<Rightarrow> rtpConns s | Some r \<Rightarrow> (rtpConns s)(r := None))"
    using Some by (cases "rtpConnPtr c") (auto simp: release_name_def destroy_conn_def)
  have sh: "shared_inv t"
    using server_inv_parts(1) [OF assms] t tables_inv_frame [of t s]
    by (auto simp: shared_inv_def clients_ok_def split: option.splits)
  have "conn_ok t x" if x: "rtspConnMap t n = Some x" for n x
  proof -
    have "rtspConnMap s n = Some x" "n \<noteq> name" using x t(2) by (auto split: if_splits)
    then have "rtpConnPtr x \<noteq> rtpConnPtr c \<or> rtpConnPtr c = None"
      using server_inv_parts(3) [OF assms] Some by (metis not_None_eq)
    moreover have "conn_ok s x" using server_inv_parts(2) [OF assms] \<open>rtspConnMap s n = Some x\<close> by blast
    ultimately show ?thesis using t(5,6,9) by (auto simp: conn_ok_def split: option.splits)
  qed
  then show ?thesis
    using sh assms t by (auto simp: server_inv_def split: if_splits)
qed

lemma server_inv_connect:
  assumes "server_inv s"
  shows "server_inv (snd (onConnection up conn memory m s))"
proof (cases up)
  case False
  with server_inv_release [OF assms] show ?thesis by (simp add: onConnection_def)
next
  case True
  obtain outs t where r: "release_name (tcp_name conn) s = (outs, t)" by (cases "release_name (tcp_name conn) s")
  have t: "server_inv t" "rtspConnMap t = (rtspConnMap s)(tcp_name conn := None)"
    using server_inv_release [OF assms, of "tcp_name conn"] r by simp_all
  let ?u = "t\<lparr>rtspConnMap := (rtspConnMap t)(tcp_name conn \<mapsto> RtspConnection_new memory m conn),
      inputBuffers := (inputBuffers t)(tcp_name conn := Buffer_init kInitialSize)\<rparr>"
  have g: "conn_ok ?u x = conn_ok t x" "shared_inv ?u = shared_inv t" for x
    by (simp_all add: conn_ok_def shared_inv_def tables_inv_def clients_ok_def)
  have n: "rtpConnPtr (RtspConnection_new memory m conn) = None" "tcpConn (RtspConnection_new memory m conn) = conn"
    "conn_ok t (RtspConnection_new memory m conn)" "req_inv (rtspRequest (RtspConnection_new memory m conn))"
    by (simp_all add: RtspConnection_new_def conn_ok_def req_inv_init)
  have "server_inv ?u"
    unfolding server_inv_def g
    using server_inv_parts [OF t(1)] n input_ok_init [of kInitialSize] by (auto simp: kInitialSize_def split: if_splits)
  then show ?thesis using True r by (simp add: onConnection_def)
qed

lemma client_tasks_mem: "(r, ch, p) \<in> set ps \<longleftrightarrow> (ch, p) \<in> set (client_tasks r ps)"
  by (force simp: client_tasks_def)

lemma list_all2_mem: "list_all2 P xs ys \<Longrightarrow> x \<in> set xs \<Longrightarrow> \<exists>y \<in> set ys. P x y"
  by (induction rule: list_all2_induct) auto

lemma clients_distinct: "clients_ok s ss \<Longrightarrow> distinct (map snd (ms_clients ss))"
proof -
  assume a: "clients_ok s ss"
  have "inj_on snd (set (ms_clients ss))"
  proof (rule inj_onI)
    fix x y assume "x \<in> set (ms_clients ss)" "y \<in> set (ms_clients ss)" "snd x = snd y"
    with a show "x = y" unfolding clients_ok_def by (cases x, cases y) fastforce
  qed
  moreover have "distinct (ms_clients ss)" using a by (simp add: clients_ok_def distinct_map)
  ultimately show ?thesis by (simp add: distinct_map)
qed

lemma pushFrame_effect:
  assumes "server_inv s" "mediaSessions s k = Some ss" "ms_sources ss chn \<noteq> None" "getNumClient ss \<noteq> 0"
    and "\<And>k r. length (fresh k r) = RTP_PACKET_BLOCK" "\<And>i. length (blocks i) = RTP_PACKET_BLOCK" "frame_wf frame"
  shows "\<exists>ps s' pkts. pushFrame fresh blocks now k chn frame s = Inr (True, s') \<and> server_inv s' \<and>
    loopTasks s' = loopTasks s @ ps \<and> rtpConns s' = rtpConns s \<and> rtpTcps s' = rtpTcps s \<and> rtspConnMap s' = rtspConnMap s \<and>
    mediaSessions s' = (mediaSessions s)(k \<mapsto> ss\<lparr>ms_clients := filter (\<lambda>(fd, r). rtpConns s r \<noteq> None) (ms_clients ss)\<rparr>) \<and>
    (plain_unit (frame_buffer frame) \<longrightarrow> reassembles (map rtp_payload pkts) (frame_buffer frame)) \<and>
    list_all (packet_ok (stamp now frame)) pkts \<and> last_flags (map pkt_last pkts) \<and>
    (\<forall>r. tasks_of_packets chn (client_tasks r ps)
       (if r \<in> set (filter (deliverable (rtpConns s) (rtpTcps s)) (map snd (ms_clients ss))) then pkts else []))"
proof -
  have ss: "clients_ok s ss" "ms_id ss = k"
    using server_inv_parts(1) [OF assms(1)] assms(2) by (auto simp: shared_inv_def tables_inv_def)
  obtain ps ss' pkts where h: "session_handleFrame (rtpConns s) (rtpTcps s) fresh blocks now chn frame ss = Inr (True, ps, ss')"
    "ss' = ss\<lparr>ms_clients := filter (\<lambda>(fd, r). rtpConns s r \<noteq> None) (ms_clients ss)\<rparr>"
    "(plain_unit (frame_buffer frame) \<longrightarrow> reassembles (map rtp_payload pkts) (frame_buffer frame))"
    "list_all (packet_ok (stamp now frame)) pkts" "last_flags (map pkt_last pkts)"
    "\<forall>r. tasks_of_packets chn (client_tasks r ps)
       (if r \<in> set (filter (deliverable (rtpConns s) (rtpTcps s)) (map snd (ms_clients ss))) then pkts else [])"
    using session_frame_received [where fresh = fresh and blocks = blocks and live = "rtpConns s" and tcp = "rtpTcps s" and now = now
        and chn = chn and frame = frame and ss = ss, OF assms(5-7,3) clients_distinct [OF ss(1)]]
    by blast
  let ?t = "(put_session ss' s)\<lparr>loopTasks := loopTasks s @ ps\<rparr>"
  have "clients_ok s ss'"
    using ss(1) h(2) by (auto simp: clients_ok_def distinct_map_filter)
  then have p: "shared_inv (put_session ss' s)"
    using shared_inv_put_session [OF server_inv_parts(1) [OF assms(1)], of ss' ss] assms(2) ss(2) h(2) by simp
  have g: "shared_inv ?t = shared_inv (put_session ss' s)" "conn_ok ?t x = conn_ok s x" for x
    by (simp_all add: conn_ok_def shared_inv_def tables_inv_def clients_ok_def put_session_def)
  have "packet_block_ok (snd (snd x))" if "x \<in> set ps" for x
  proof -
    obtain r ch p where x: "x = (r, ch, p)" by (cases x) auto
    then have "(ch, p) \<in> set (client_tasks r ps)" using that client_tasks_mem by fastforce
    moreover have "list_all2 (\<lambda>(ch, p) q. ch = chn \<and> same_packet p q) (client_tasks r ps)
      (if r \<in> set (filter (deliverable (rtpConns s) (rtpTcps s)) (map snd (ms_clients ss))) then pkts else [])"
      using h(6) unfolding tasks_of_packets_def by blast
    ultimately have "\<exists>q \<in> set pkts. same_packet p q"
      by (fastforce dest: list_all2_mem split: if_splits)
    then obtain q where "q \<in> set pkts" "same_packet p q" by blast
    then show ?thesis using h(4) copied_packet_ok(1) x by (auto simp: list_all_iff)
  qed
  then have "server_inv ?t"
    using p server_inv_parts [OF assms(1)] unfolding server_inv_def g by (auto simp: put_session_def)
  moreover have "pushFrame fresh blocks now k chn frame s = Inr (True, ?t)"
    using assms(2,4) h(1) by (simp add: pushFrame_def)
  ultimately show ?thesis
    using h(2-6) ss(2) by (intro exI [of _ ps] exI [of _ ?t] exI [of _ pkts]) (simp add: put_session_def)
qed

end
