(* ===== verification/H264_File.thy ===== *)
theory H264_File
  imports Prelude
begin

text \<open>
  The frame reader of \<open>src/h264_file.cc\<close> and \<open>h264_file.h\<close>: it reads a block of the file, looks for
  the start code that opens a picture and for the next one that closes it, and hands out
  the bytes up to there. The file is a byte list; the \<open>FILE*\<close> is its position. Reads of \<open>_buffer\<close>
  are checked against its length, so an index that leaves the block is the fault \<open>OutOfBounds\<close>.
\<close>

record H264File =
  fpos :: "nat option"
  filebuf :: "byte list"
  bytesUsed :: "32 word"
  frame_count :: int

definition H264File_init :: "byte list \<Rightarrow> H264File" where
  "H264File_init block = \<lparr>fpos = None, filebuf = block, bytesUsed = 0, frame_count = 0\<rparr>"

definition h264_open :: "bool \<Rightarrow> H264File \<Rightarrow> bool \<times> H264File" where
  "h264_open fopen_ok h = (if fopen_ok then (True, h\<lparr>fpos := Some 0\<rparr>) else (False, h\<lparr>fpos := None\<rparr>))"

definition h264_close :: "H264File \<Rightarrow> H264File" where
  "h264_close h =
     (if fpos h \<noteq> None then h\<lparr>fpos := None, frame_count := 0, bytesUsed := 0\<rparr> else h)"

definition isOpend :: "H264File \<Rightarrow> bool" where
  "isOpend h \<longleftrightarrow> fpos h \<noteq> None"

section \<open>The C library's file functions\<close>

text \<open>\<open>fread(_buffer, 1, _bufSize, _fp)\<close>: the number of bytes read, the block and the position after.\<close>

definition fread :: "byte list \<Rightarrow> nat \<Rightarrow> byte list \<Rightarrow> nat \<times> byte list \<times> nat" where
  "fread file pos block =
     (let d = take (length block) (drop pos file)
      in (length d, write_at 0 d block, pos + length d))"

text \<open>\<open>fseek(_fp, offset, SEEK_SET)\<close> fails on a negative offset and leaves the position alone.\<close>

definition fseek_set :: "32 word \<Rightarrow> nat \<Rightarrow> nat" where
  "fseek_set off pos = (if 0 \<le> sint off then nat (sint off) else pos)"

section \<open>Looking for start codes\<close>

definition rd :: "byte list \<Rightarrow> nat \<Rightarrow> byte result" where
  "rd buf i = (if i < length buf then Inr (buf ! i) else Inl OutOfBounds)"

text \<open>A chain of \<open>_buffer[i] == a && _buffer[i+1] == b && ...\<close>, evaluated left to right.\<close>

fun match_at :: "byte list \<Rightarrow> nat \<Rightarrow> byte list \<Rightarrow> bool result" where
  "match_at buf i [] = Inr True"
| "match_at buf i (p # ps) =
     rbind (rd buf i) (\<lambda>b. if b = p then match_at buf (Suc i) ps else Inr False)"

definition start_code :: "byte list \<Rightarrow> nat \<Rightarrow> nat option result" where
  "start_code buf i =
     rbind (match_at buf i [0, 0, 1])
       (\<lambda>m3. if m3 then Inr (Some 3)
             else rbind (match_at buf i [0, 0, 0, 1]) (\<lambda>m4. Inr (if m4 then Some 4 else None)))"

definition first_slice :: "byte list \<Rightarrow> nat \<Rightarrow> bool result" where
  "first_slice buf j =
     rbind (rd buf j)
       (\<lambda>n. if n AND 0x1f = 5 \<or> n AND 0x1f = 1
            then rbind (rd buf (j + 1)) (\<lambda>b. Inr (b AND 0x80 = 0x80)) else Inr False)"

definition opens_frame :: "byte list \<Rightarrow> nat \<Rightarrow> bool result" where
  "opens_frame buf j =
     rbind (rd buf j)
       (\<lambda>n. if n AND 0x1f = 6 \<or> n AND 0x1f = 7 \<or> n AND 0x1f = 8 then Inr True else first_slice buf j)"

text \<open>
  The two loops share their shape: walk \<open>i\<close> up to \<open>limit\<close> and stop where a start code is followed
  by what \<open>test\<close> accepts.
\<close>

function find_from :: "(byte list \<Rightarrow> nat \<Rightarrow> bool result) \<Rightarrow> byte list \<Rightarrow> nat \<Rightarrow> nat \<Rightarrow> (bool \<times> nat) result" where
  "find_from test buf limit i =
     (if i < limit
      then (case start_code buf i of
              Inl e \<Rightarrow> Inl e
            | Inr None \<Rightarrow> find_from test buf limit (Suc i)
            | Inr (Some sc) \<Rightarrow>
                (case test buf (i + sc) of
                   Inl e \<Rightarrow> Inl e
                 | Inr True \<Rightarrow> Inr (True, i)
                 | Inr False \<Rightarrow> find_from test buf limit (Suc i)))
      else Inr (False, i))"
  by pat_completeness auto

termination
  by (relation "measure (\<lambda>(test, buf, limit, i). limit - i)") auto

declare find_from.simps [simp del]

text \<open>\<open>bytesRead - 5\<close> is a \<open>size_t\<close>: below five it wraps around.\<close>

definition scan_limit :: "nat \<Rightarrow> nat" where
  "scan_limit bytesRead = (if 5 \<le> bytesRead then bytesRead - 5 else 2 ^ 64 + bytesRead - 5)"

section \<open>readFrame\<close>

text \<open>
  The result: the return value, \<open>*endOfFrame\<close> if the call assigned it, and the bytes copied to
  the caller's buffer.
\<close>

record frame_result =
  fr_ret :: int
  fr_end :: "bool option"
  fr_bytes :: "byte list"

definition readFrame_block ::
  "nat \<Rightarrow> nat \<Rightarrow> byte list \<Rightarrow> nat \<Rightarrow> H264File \<Rightarrow> (frame_result \<times> H264File) result" where
  "readFrame_block bytesRead pos block bufSize h =
     (let limit = scan_limit bytesRead in
      rbind (find_from first_slice block limit 0)
        (\<lambda>(findStart, i0).
           let i1 = (if findStart then i0 + 4 else i0) in
           rbind (find_from opens_frame block limit i1)
             (\<lambda>(findEnd, i2).
                let flag = (findStart \<and> \<not> findEnd \<and> frame_count h > 0);
                    i = (if flag then bytesRead else i2)
                in if \<not> findStart \<or> \<not> (findEnd \<or> flag)
                   then Inr (\<lparr>fr_ret = -1, fr_end = Some False, fr_bytes = []\<rparr>,
                             h264_close (h\<lparr>filebuf := block, fpos := Some pos\<rparr>))
                   else (let n = (if i \<le> bufSize then i else bufSize);
                             h' = (if \<not> flag
                                   then h\<lparr>filebuf := block, frame_count := frame_count h + 1,
                                          bytesUsed := bytesUsed h + word_of_nat i\<rparr>
                                   else h\<lparr>filebuf := block, frame_count := 0, bytesUsed := 0\<rparr>)
                         in if n \<le> length block
                            then Inr (\<lparr>fr_ret = int n, fr_end = Some flag, fr_bytes = take n block\<rparr>,
                                      h'\<lparr>fpos := Some (fseek_set (bytesUsed h') pos)\<rparr>)
                            else Inl OutOfBounds))))"

definition readFrame :: "byte list \<Rightarrow> nat \<Rightarrow> H264File \<Rightarrow> (frame_result \<times> H264File) result" where
  "readFrame file bufSize h =
     (case fpos h of
        None \<Rightarrow> Inr (\<lparr>fr_ret = -1, fr_end = None, fr_bytes = []\<rparr>, h)
      | Some pos \<Rightarrow>
          (case fread file pos (filebuf h) of (bytesRead, block, pos1) \<Rightarrow>
             if bytesRead = 0
             then (case fread file 0 block of (bytesRead2, block2, pos2) \<Rightarrow>
                     if bytesRead2 = 0
                     then Inr (\<lparr>fr_ret = -1, fr_end = None, fr_bytes = []\<rparr>,
                               h264_close (h\<lparr>filebuf := block2, fpos := Some pos2,
                                             frame_count := 0, bytesUsed := 0\<rparr>))
                     else readFrame_block bytesRead2 pos2 block2 bufSize (h\<lparr>frame_count := 0, bytesUsed := 0\<rparr>))
             else readFrame_block bytesRead pos1 block bufSize h))"

section \<open>The scan stays inside the block\<close>

lemma rd_ok: "i < length buf \<Longrightarrow> rd buf i = Inr (buf ! i)"
  by (simp add: rd_def)

lemma match_at_ok: "i + length ps \<le> length buf \<Longrightarrow> match_at buf i ps = Inr (segment i (i + length ps) buf = ps)"
proof (induction ps arbitrary: i)
  case Nil
  then show ?case by simp
next
  case (Cons p ps)
  have "segment i (i + length (p # ps)) buf = buf ! i # segment (Suc i) (Suc i + length ps) buf"
    using Cons.prems by (simp add: segment_def take_Suc_conv_app_nth Cons_nth_drop_Suc [symmetric])
  with Cons show ?case by (auto simp: rd_ok)
qed

lemma start_code_ok:
  "i + 4 \<le> length buf \<Longrightarrow> \<exists>r. start_code buf i = Inr r \<and> (r = None \<or> r = Some 3 \<or> r = Some 4)"
  by (auto simp: start_code_def match_at_ok simp del: match_at.simps)

lemma first_slice_eq:
  "j + 2 \<le> length buf \<Longrightarrow> first_slice buf j =
     Inr ((buf ! j AND 0x1f = 5 \<or> buf ! j AND 0x1f = 1) \<and> buf ! (j + 1) AND 0x80 = 0x80)"
  by (simp add: first_slice_def rd_ok)

lemma first_slice_ok: "j + 2 \<le> length buf \<Longrightarrow> \<exists>r. first_slice buf j = Inr r"
  by (simp add: first_slice_eq)

lemma opens_frame_ok: "j + 2 \<le> length buf \<Longrightarrow> \<exists>r. opens_frame buf j = Inr r"
  using first_slice_ok [of j buf] by (auto simp: opens_frame_def rd_ok)

lemma find_from_ok:
  assumes "\<And>j. j + 2 \<le> length buf \<Longrightarrow> \<exists>r. test buf j = Inr r" and "limit + 5 \<le> length buf"
  shows "\<exists>f j. find_from test buf limit i = Inr (f, j) \<and> i \<le> j \<and> (f \<longrightarrow> j < limit) \<and> (\<not> f \<longrightarrow> j = max i limit)"
proof (induction "limit - i" arbitrary: i rule: less_induct)
  case less
  show ?case
  proof (cases "i < limit")
    case True
    then obtain r where r: "start_code buf i = Inr r" "r = None \<or> r = Some 3 \<or> r = Some 4"
      using start_code_ok [of i buf] assms(2) by auto
    obtain f j where next_i: "find_from test buf limit (Suc i) = Inr (f, j)" "Suc i \<le> j"
        "f \<longrightarrow> j < limit" "\<not> f \<longrightarrow> j = max (Suc i) limit"
      using less [OF diff_less_mono2 [OF lessI True]] by auto
    have "find_from test buf limit i = Inr (True, i) \<or>
        find_from test buf limit i = find_from test buf limit (Suc i)"
    proof (cases r)
      case None
      with r True show ?thesis by (subst (1 2) find_from.simps) simp
    next
      case (Some sc)
      with r have "sc \<le> 4" by auto
      then obtain t where "test buf (i + sc) = Inr t"
        using assms(1) [of "i + sc"] assms(2) True by auto
      with r Some True show ?thesis by (cases t) (simp_all add: find_from.simps [of test buf limit i])
    qed
    then show ?thesis
    proof
      assume "find_from test buf limit i = Inr (True, i)"
      with True show ?thesis by (intro exI [of _ True] exI [of _ i]) simp
    next
      assume "find_from test buf limit i = find_from test buf limit (Suc i)"
      with next_i True show ?thesis by (intro exI [of _ f] exI [of _ j]) auto
    qed
  next
    case False
    then show ?thesis by (subst find_from.simps) auto
  qed
qed


lemma find_from_zero: "find_from test buf limit i = Inr (True, j) \<Longrightarrow> buf ! j = 0"
proof (induction test buf limit i rule: find_from.induct)
  case (1 test buf limit i)
  show ?case
  proof (cases "start_code buf i")
    case (Inr r)
    have "buf ! i = 0" if "r = Some sc" for sc
      using Inr that by (auto simp: start_code_def rd_def rbind_def split: if_splits sum.splits)
    with 1 Inr show ?thesis
      by (subst (asm) (3) find_from.simps) (auto split: if_splits option.splits sum.splits bool.splits)
  qed (use 1 in \<open>subst (asm) (3) find_from.simps, auto split: if_splits\<close>)
qed

text \<open>Without a start code in the block, a scan past its end faults.\<close>

lemma match_at_Inl: "match_at buf i ps = Inl e \<Longrightarrow> e = OutOfBounds"
  by (induction buf i ps rule: match_at.induct) (auto simp: rd_def split: if_splits)

lemma start_code_Inl: "start_code buf i = Inl e \<Longrightarrow> e = OutOfBounds"
  by (auto simp: start_code_def rbind_def dest: match_at_Inl split: sum.splits if_splits simp del: match_at.simps)

lemma find_from_runs_out:
  assumes "\<And>i sc. start_code buf i \<noteq> Inr (Some sc)" and "length buf < limit"
  shows "i \<le> length buf \<Longrightarrow> find_from test buf limit i = Inl OutOfBounds"
proof (induction "length buf - i" arbitrary: i rule: less_induct)
  case less
  show ?case
  proof (cases "start_code buf i")
    case (Inl e)
    then show ?thesis
      using assms(2) less.prems start_code_Inl [OF Inl] by (subst find_from.simps) simp
  next
    case (Inr r)
    with assms(1) have r: "start_code buf i = Inr None" by (cases r) auto
    then have "i < length buf"
      by (rule_tac ccontr) (simp add: start_code_def rd_def)
    with less r assms(2) show ?thesis by (subst find_from.simps) simp
  qed
qed

section \<open>One call\<close>

text \<open>What a successful call has done: \<open>n\<close> bytes of the block, and where the next call starts.\<close>

definition frame_cut :: "nat \<Rightarrow> byte list \<Rightarrow> H264File \<Rightarrow> frame_result \<Rightarrow> H264File \<Rightarrow> bool" where
  "frame_cut bytesRead block h r h' \<longleftrightarrow>
     (\<exists>n pos. 0 < n \<and> n \<le> bytesRead \<and> fr_ret r = int n \<and> fr_bytes r = take n block \<and>
        filebuf h' = block \<and> fpos h' = Some (fseek_set (bytesUsed h') pos) \<and>
        (if fr_end r = Some True then n = bytesRead \<and> bytesUsed h' = 0
         else n + 5 < bytesRead \<and> block ! n = 0 \<and> fr_end r = Some False \<and> bytesUsed h' = bytesUsed h + word_of_nat n))"

definition frame_none :: "frame_result \<Rightarrow> H264File \<Rightarrow> bool" where
  "frame_none r h' \<longleftrightarrow> fr_ret r = -1 \<and> fr_bytes r = [] \<and> fpos h' = None"

lemma readFrame_block_ok:
  assumes "5 \<le> bytesRead" "bytesRead \<le> length block" "bytesRead \<le> bufSize"
  shows "\<exists>r h'. readFrame_block bytesRead pos block bufSize h = Inr (r, h') \<and> filebuf h' = block \<and>
    (frame_none r h' \<or> frame_cut bytesRead block h r h')"
proof -
  let ?l = "bytesRead - 5"
  obtain s i0 where 1: "find_from first_slice block ?l 0 = Inr (s, i0)" "s \<longrightarrow> i0 < ?l"
    using find_from_ok [where test = first_slice and buf = block and limit = ?l and i = 0, OF first_slice_ok] assms by auto
  let ?i1 = "if s then i0 + 4 else i0"
  obtain e i2 where 2: "find_from opens_frame block ?l ?i1 = Inr (e, i2)" "?i1 \<le> i2" "e \<longrightarrow> i2 < ?l"
    using find_from_ok [where test = opens_frame and buf = block and limit = ?l and i = ?i1, OF opens_frame_ok] assms by auto
  let ?flag = "s \<and> \<not> e \<and> frame_count h > 0"
  show ?thesis
  proof (cases "s \<and> (e \<or> ?flag)")
    case False
    then show ?thesis
      using 1 2 assms
      by (auto simp: readFrame_block_def scan_limit_def Let_def frame_none_def h264_close_def)
  next
    case True
    then have s: "s" and i2: "4 \<le> i2" using 2 by auto
    show ?thesis
    proof (cases ?flag)
      case flag: True
      then show ?thesis
        using 1 2 assms s
        by (auto simp: readFrame_block_def scan_limit_def Let_def frame_cut_def)
    next
      case noflag: False
      with True have e by blast
      then have "block ! i2 = 0" using find_from_zero [of opens_frame block ?l ?i1 i2] 2(1) by simp
      with noflag \<open>e\<close> show ?thesis
        using 1 2 assms s i2
        by (auto simp: readFrame_block_def scan_limit_def Let_def frame_cut_def)
    qed
  qed
qed

section \<open>One pass over the file\<close>

definition reader_at :: "byte list \<Rightarrow> nat \<Rightarrow> H264File \<Rightarrow> bool" where
  "reader_at file p h \<longleftrightarrow> fpos h = Some p \<and> unat (bytesUsed h) = p \<and>
     5 \<le> length (filebuf h) \<and> p + 5 \<le> length file"

lemma sint_small:
  assumes "unat (w :: 32 word) < 2 ^ 31"
  shows "sint w = int (unat w)"
proof -
  have "uint w < 2 ^ 31"
    using assms by (metis of_nat_less_iff of_nat_numeral of_nat_power uint_nat)
  then have "signed_take_bit 31 (uint w) = uint w"
    using order_trans [of "- (2 ^ 31)" 0 "uint w"] by (intro signed_take_bit_int_eq_self) simp_all
  then show ?thesis by (simp add: sint_uint)
qed

lemma fseek_small: "unat w < 2 ^ 31 \<Longrightarrow> fseek_set w pos = unat w"
  by (simp add: fseek_set_def sint_small)

lemma fread_block:
  assumes "5 \<le> length block" "p + 5 \<le> length file"
  shows "\<exists>n b. fread file p block = (n, b, p + n) \<and> n = min (length block) (length file - p) \<and>
     length b = length block \<and> take n b = segment p (p + n) file"
  using assms by (auto simp: fread_def Let_def segment_def write_at_def)

lemma readFrame_step:
  assumes "reader_at file p h" and "length file < 2 ^ 31" and "length (filebuf h) \<le> bufSize"
  shows "\<exists>r h'. readFrame file bufSize h = Inr (r, h') \<and> length (filebuf h') = length (filebuf h) \<and>
    (frame_none r h' \<or>
     (\<exists>n>0. fr_ret r = int n \<and> fr_bytes r = segment p (p + n) file \<and> p + n \<le> length file \<and>
        (if fr_end r = Some True
         then fpos h' = Some 0 \<and> bytesUsed h' = 0 \<and> n = min (length (filebuf h)) (length file - p)
         else fr_end r = Some False \<and> reader_at file (p + n) h' \<and> file ! (p + n) = 0)))"
proof -
  obtain n b where f: "fread file p (filebuf h) = (n, b, p + n)" "n = min (length (filebuf h)) (length file - p)"
      "length b = length (filebuf h)" "take n b = segment p (p + n) file"
    using fread_block [of "filebuf h" p "file"] assms by (auto simp: reader_at_def)
  have n: "5 \<le> n" "n \<le> length b" "n \<le> bufSize" "p + n \<le> length file"
    using f assms by (auto simp: reader_at_def)
  have rf: "readFrame file bufSize h = readFrame_block n (p + n) b bufSize h"
    using f(1) n(1) assms(1) by (simp add: readFrame_def reader_at_def)
  obtain r h' where r: "readFrame_block n (p + n) b bufSize h = Inr (r, h')"
      "frame_none r h' \<or> frame_cut n b h r h'" and fb: "filebuf h' = b"
    using readFrame_block_ok [OF n(1-3)] by blast
  have cut: "\<exists>m>0. fr_ret r = int m \<and> fr_bytes r = segment p (p + m) file \<and> p + m \<le> length file \<and>
        (if fr_end r = Some True
         then fpos h' = Some 0 \<and> bytesUsed h' = 0 \<and> m = min (length (filebuf h)) (length file - p)
         else fr_end r = Some False \<and> reader_at file (p + m) h' \<and> file ! (p + m) = 0)"
    if c: "frame_cut n b h r h'"
  proof -
    obtain m pos where m: "0 < m" "m \<le> n" "fr_ret r = int m" "fr_bytes r = take m b"
      "fpos h' = Some (fseek_set (bytesUsed h') pos)"
      "if fr_end r = Some True then m = n \<and> bytesUsed h' = 0
         else m + 5 < n \<and> b ! m = 0 \<and> fr_end r = Some False \<and> bytesUsed h' = bytesUsed h + word_of_nat m"
      using c by (auto simp: frame_cut_def)
    have seg: "take m b = segment p (p + m) file"
    proof -
      have "take m b = take m (take n b)" using m(2) by simp
      also have "\<dots> = take m (segment p (p + n) file)" using f(4) by simp
      finally show ?thesis using m(2) by (simp add: segment_take)
    qed
    show ?thesis
    proof (cases "fr_end r = Some True")
      case True
      with m have "m = n" "bytesUsed h' = 0" by simp_all
      with True m(1,3-5) seg f(2) n(4) show ?thesis
        by (intro exI [of _ m] conjI) (simp_all add: fseek_small)
    next
      case False
      with m have lim: "m + 5 < n" "bytesUsed h' = bytesUsed h + word_of_nat m" "fr_end r = Some False"
        by simp_all
      have "b ! m = take n b ! m" using lim(1) by simp
      then have zero: "file ! (p + m) = 0" using False m(6) lim(1) f(4) n(4) by (simp add: segment_def)
      have small: "p + m < 2 ^ 31" using lim(1) n(4) assms(2) by linarith
      have "unat (bytesUsed h + word_of_nat m) = (unat (bytesUsed h) + m) mod 2 ^ 32"
        by (simp add: unat_word_ariths unat_of_nat mod_add_right_eq)
      then have used: "unat (bytesUsed h') = p + m"
        using lim(2) small assms(1) by (simp add: reader_at_def)
      have "fpos h' = Some (p + m)"
        using m(5) used small by (simp add: fseek_small)
      then have "reader_at file (p + m) h'"
        using used lim(1) n(4) f(3) fb assms(1) by (simp add: reader_at_def)
      moreover have "p + m \<le> length file" using lim(1) n(4) by linarith
      ultimately show ?thesis
        using m(1,3) trans [OF m(4) seg] lim(3) zero by (intro exI [of _ m] conjI) simp_all
    qed
  qed
  have "readFrame file bufSize h = Inr (r, h')" using rf r(1) by simp
  moreover have "length (filebuf h') = length (filebuf h)" using fb f(3) by simp
  ultimately show ?thesis using r(2) cut by blast
qed

text \<open>Calling \<open>readFrame\<close> until it closes the file or reports the end of it.\<close>

fun play_pass :: "nat \<Rightarrow> byte list \<Rightarrow> nat \<Rightarrow> H264File \<Rightarrow> (byte list list \<times> bool \<times> H264File) result" where
  "play_pass 0 file bufSize h = Inr ([], False, h)"
| "play_pass (Suc k) file bufSize h =
     rbind (readFrame file bufSize h)
       (\<lambda>(r, h'). if fr_ret r \<le> 0 then Inr ([], False, h')
                  else if fr_end r = Some True then Inr ([fr_bytes r], True, h')
                  else rbind (play_pass k file bufSize h')
                         (\<lambda>(fs, e, h''). Inr (fr_bytes r # fs, e, h'')))"

lemma play_pass_ok:
  assumes "length file < 2 ^ 31"
  shows "reader_at file p h \<Longrightarrow> length (filebuf h) = B \<Longrightarrow> B \<le> bufSize \<Longrightarrow>
    \<exists>fs e h'. play_pass k file bufSize h = Inr (fs, e, h') \<and>
      concat fs = segment p (p + length (concat fs)) file \<and> p + length (concat fs) \<le> length file \<and>
      (e \<longrightarrow> fpos h' = Some 0 \<and> bytesUsed h' = 0) \<and>
      (e \<longrightarrow> length file \<le> B \<longrightarrow> p + length (concat fs) = length file) \<and>
      (length file \<le> p + k \<longrightarrow> e \<or> fpos h' = None)"
proof (induction k arbitrary: p h)
  case 0
  then show ?case by (auto simp: reader_at_def)
next
  case (Suc k)
  obtain r h' where r: "readFrame file bufSize h = Inr (r, h')" "length (filebuf h') = B"
    and cases: "frame_none r h' \<or>
     (\<exists>n>0. fr_ret r = int n \<and> fr_bytes r = segment p (p + n) file \<and> p + n \<le> length file \<and>
        (if fr_end r = Some True
         then fpos h' = Some 0 \<and> bytesUsed h' = 0 \<and> n = min B (length file - p)
         else fr_end r = Some False \<and> reader_at file (p + n) h'))"
    using readFrame_step [OF Suc.prems(1) assms, of "bufSize"] Suc.prems by auto
  show ?case
  proof (cases "frame_none r h'")
    case True
    with r Suc.prems show ?thesis by (auto simp: frame_none_def reader_at_def)
  next
    case False
    with cases obtain n where n: "0 < n" "fr_ret r = int n" "fr_bytes r = segment p (p + n) file" "p + n \<le> length file"
      "if fr_end r = Some True
         then fpos h' = Some 0 \<and> bytesUsed h' = 0 \<and> n = min B (length file - p)
         else fr_end r = Some False \<and> reader_at file (p + n) h'" by auto
    show ?thesis
    proof (cases "fr_end r = Some True")
      case True
      with n have "fpos h' = Some 0" "bytesUsed h' = 0" "n = min B (length file - p)" by simp_all
      with r(1) n(1-4) True show ?thesis
        by (intro exI [of _ "[fr_bytes r]"] exI [of _ True] exI [of _ h']) simp
    next
      case cont: False
      then have "reader_at file (p + n) h'" using n by simp
      from Suc.IH [OF this r(2) Suc.prems(3)] obtain fs e h'' where
        q: "play_pass k file bufSize h' = Inr (fs, e, h'')"
        "concat fs = segment (p + n) (p + n + length (concat fs)) file" "p + n + length (concat fs) \<le> length file"
        "e \<longrightarrow> fpos h'' = Some 0 \<and> bytesUsed h'' = 0"
        "e \<longrightarrow> length file \<le> B \<longrightarrow> p + n + length (concat fs) = length file"
        "length file \<le> p + n + k \<longrightarrow> e \<or> fpos h'' = None"
        by blast
      have len: "length (concat (fr_bytes r # fs)) = n + length (concat fs)"
        using n by simp
      have "concat (fr_bytes r # fs) = segment p (p + n + length (concat fs)) file"
        using segment_append_next [of p "p + n" "p + n + length (concat fs)" "file"] q(2,3) n(3) by simp
      then show ?thesis
        using r(1) n(1,2) cont q len
        by (intro exI [of _ "fr_bytes r # fs"] exI [of _ e] exI [of _ h'']) (auto simp: add.assoc)
    qed
  qed
qed

section \<open>Properties\<close>

text \<open>
  C26: Playback is lossless and comes to an end: from a freshly opened file, \<open>length file\<close> calls are
  enough to reach the end of a pass (or the file is closed on malformed data), no call reads
  outside the block, the frames handed out are consecutive pieces of the file from its start, and
  when the block can hold the file a pass that ends hands out all of it and rewinds to 0.
\<close>

theorem playback_pass:
  assumes "5 \<le> length file" and "length file < 2 ^ 31" and "5 \<le> length block" and "length block \<le> bufSize"
  shows "\<exists>fs e h'. play_pass (length file) file bufSize (snd (h264_open True (H264File_init block))) = Inr (fs, e, h') \<and>
    concat fs = take (length (concat fs)) file \<and>
    (e \<and> fpos h' = Some 0 \<or> \<not> isOpend h') \<and>
    (e \<and> length file \<le> length block \<longrightarrow> concat fs = file)"
proof -
  let ?h = "snd (h264_open True (H264File_init block))"
  have "reader_at file 0 ?h" "length (filebuf ?h) = length block"
    using assms by (simp_all add: reader_at_def h264_open_def H264File_init_def)
  then obtain fs e h' where "play_pass (length file) file bufSize ?h = Inr (fs, e, h')"
      "concat fs = segment 0 (length (concat fs)) file" "e \<longrightarrow> fpos h' = Some 0"
      "e \<longrightarrow> length file \<le> length block \<longrightarrow> length (concat fs) = length file" "e \<or> fpos h' = None"
    using play_pass_ok [OF assms(2), of 0 ?h "length block" "bufSize" "length file"] assms(4) by fastforce
  then show ?thesis
    by (intro exI [of _ fs] exI [of _ e] exI [of _ h']) (auto simp: segment_def isOpend_def)
qed

theorem playback_pass_witness:
  "\<exists>fs e h'. play_pass 26 [0,0,0,1,0x65,0x88,1,2,3,4, 0,0,1,0x41,0x9a,5,6,7,8,9,10,11,12,13,14,15] 64
      (snd (h264_open True (H264File_init (replicate 32 0)))) = Inr (fs, e, h') \<and>
    concat fs = take (length (concat fs)) [0,0,0,1,0x65,0x88,1,2,3,4, 0,0,1,0x41,0x9a,5,6,7,8,9,10,11,12,13,14,15] \<and>
    (e \<and> fpos h' = Some 0 \<or> \<not> isOpend h')"
proof -
  let ?file = "[0,0,0,1,0x65,0x88,1,2,3,4, 0,0,1,0x41,0x9a,5,6,7,8,9,10,11,12,13,14,15] :: byte list"
  have "length ?file = 26" "5 \<le> length ?file" "length ?file < 2 ^ 31" "5 \<le> length (replicate 32 (0 :: byte))"
    "length (replicate 32 (0 :: byte)) \<le> 64" by simp_all
  with playback_pass [of "?file" "replicate 32 0" 64] show ?thesis by (metis (no_types, lifting))
qed

text \<open>
  C38: A short read breaks the scan: with one to four bytes read, \<open>bytesRead - 5\<close> wraps around, and when no start code stands
  anywhere in the block, stale bytes included, the first loop runs over the whole block and past its end.
\<close>

theorem readFrame_short_read_faults:
  assumes "0 < bytesRead" and "bytesRead < 5" and "\<And>i sc. start_code block i \<noteq> Inr (Some sc)"
    and "length block < 2 ^ 63"
  shows "readFrame_block bytesRead pos block bufSize h = Inl OutOfBounds"
proof -
  have "length block < scan_limit bytesRead"
    using assms by (simp add: scan_limit_def)
  then have "find_from first_slice block (scan_limit bytesRead) 0 = Inl OutOfBounds"
    using find_from_runs_out assms(3) by blast
  then show ?thesis by (simp add: readFrame_block_def)
qed

theorem readFrame_short_read_faults_witness:
  "readFrame_block 3 3 (replicate 16 0xFF) 100 (H264File_init (replicate 16 0)) = Inl OutOfBounds"
proof (rule readFrame_short_read_faults)
  show "start_code (replicate 16 0xFF) i \<noteq> Inr (Some sc)" for i sc
    by (simp add: start_code_def rd_def)
qed simp_all

end
