(* ===== verification/Rtsp_H264file.thy ===== *)
theory Rtsp_H264file
  imports Rtsp_Server H264_File
begin

text \<open>
  The program of \<open>src/rtsp_h264file.cc\<close>: \<open>main\<close> registers one session for the H.264 file, and a thread
  of its own reads it frame by frame and pushes each to the server.
\<close>

section \<open>The program\<close>

text \<open>\<open>port\<close>: what the uninitialised port of the server's \<open>RtspUrlInfo\<close> holds.\<close>

definition main_session :: MediaSession where
  "main_session = snd (addMediaSource channel_0 (H264Source_new 25) (fst (MediaSession_new ''live'' 1)))"

definition main_server :: "u16 \<Rightarrow> MediaSessionId \<times> RtspServer" where
  "main_server port =
     addMediaSession main_session
       (RtspServer_new \<lparr>info_url = '''', info_ip = '''', info_port = port, info_suffix = ''''\<rparr>)"

definition play_url :: string where
  "play_url = ''rtsp://'' @ ''0.0.0.0'' @ '':554/'' @ ms_suffix main_session"

text \<open>The exits of \<open>main\<close> before the loop runs, and the state it runs from.\<close>

datatype start = Usage string | OpenFailed string | Running MediaSessionId RtspServer H264File

definition start_main :: "string list \<Rightarrow> bool \<Rightarrow> byte list \<Rightarrow> u16 \<Rightarrow> start" where
  "start_main argv fopen_ok block port =
     (if length argv \<noteq> 2 then Usage (''Usage: '' @ c_str (hd argv) @ '' test.264'' @ [CHR 0x0A])
      else case h264_open fopen_ok (H264File_init block) of (ok, h) \<Rightarrow>
        if \<not> ok then OpenFailed (''Open '' @ c_str (argv ! 1) @ '' failed'' @ [CHR 0x0A])
        else case main_server port of (k, server) \<Rightarrow> Running k server h)"

definition bufSize :: nat where
  "bufSize = 500000"

text \<open>One turn of the thread's loop: \<open>None\<close> is the \<open>break\<close>. \<open>count\<close> is the clock's microseconds.\<close>

definition next_frame :: "byte list \<Rightarrow> nat \<Rightarrow> H264File \<Rightarrow> (AVFrame option \<times> H264File) result" where
  "next_frame file count h =
     rbind (readFrame file bufSize h)
       (\<lambda>(r, h'). Inr (if 0 < fr_ret r
          then Some ((AVFrame_init 0 [])\<lparr>frame_size := word_of_int (fr_ret r), frame_timestamp := getTimestamp count,
                                       frame_buffer := fr_bytes r\<rparr>)
          else None, h'))"

definition sendFrame_step ::
  "(nat \<Rightarrow> nat \<Rightarrow> byte list) \<Rightarrow> (nat \<Rightarrow> byte list) \<Rightarrow> nat \<Rightarrow> MediaSessionId \<Rightarrow> byte list \<Rightarrow> H264File \<Rightarrow> RtspServer \<Rightarrow>
     (bool \<times> H264File \<times> RtspServer) result" where
  "sendFrame_step fresh blocks now k file h s =
     rbind (next_frame file now h)
       (\<lambda>(f, h'). case f of
          None \<Rightarrow> Inr (False, h', s)
        | Some videoFrame \<Rightarrow>
            rbind (pushFrame fresh blocks now k channel_0 videoFrame s) (\<lambda>(ok, s'). Inr (True, h', s')))"

text \<open>
  \<open>n\<close> turns of the thread, with the event loop idle again before each next one (the thread sleeps
  for 40 ms). The output is what the loop sent after each turn.
\<close>

fun sendFrameThread ::
  "nat \<Rightarrow> (nat \<Rightarrow> nat \<Rightarrow> byte list) \<Rightarrow> (nat \<Rightarrow> byte list) \<Rightarrow> (nat \<Rightarrow> nat) \<Rightarrow> int \<Rightarrow> MediaSessionId \<Rightarrow> byte list \<Rightarrow> H264File \<Rightarrow>
     RtspServer \<Rightarrow> ((nat \<times> rtp_out) list list \<times> bool \<times> H264File \<times> RtspServer) result" where
  "sendFrameThread 0 fresh blocks clock sent k file h s = Inr ([], True, h, s)"
| "sendFrameThread (Suc n) fresh blocks clock sent k file h s =
     rbind (sendFrame_step fresh blocks (clock n) k file h s)
       (\<lambda>(more_frames, h', s'). if \<not> more_frames then Inr ([], False, h', s')
          else rbind (drain sent s') (\<lambda>(outs, s2).
            rbind (sendFrameThread n fresh blocks clock sent k file h' s2)
              (\<lambda>(outss, running, h3, s3). Inr (outs # outss, running, h3, s3))))"

end
