(* ===== verification/Server_Run.thy ===== *)
theory Server_Run
  imports Server_Invariant Rtsp_H264file
begin

text \<open>
  The server as a transition system: any sequence of connections, messages, frames, loop tasks and
  session changes, the invariant over it, and the ways a message or a task can fault.
\<close>

section \<open>Tasks of the loop\<close>

lemma rtp_task_total: "packet_block_ok pkt \<Longrightarrow> \<exists>out c'. rtp_task tcp sent (chn, pkt) c = Inr (out, c')"
  using rtp_task_sends [of chn pkt c tcp sent] rtp_task_silent [of chn pkt c tcp sent]
  by (cases "sending chn (setFrameType (pkt_type pkt) c)"; cases "transportMode c = RTP_OVER_TCP") (simp_all add: Let_def)

lemma server_inv_task:
  assumes "server_inv s" "\<forall>r t rest. loopTasks s = (r, t) # rest \<longrightarrow> rtpConns s r \<noteq> None"
  shows "\<exists>outs s'. run_task sent s = Inr (outs, s') \<and> server_inv s'"
proof (cases "loopTasks s")
  case Nil
  with assms(1) show ?thesis by (simp add: run_task_def)
next
  case (Cons task rest)
  obtain r chn pkt where t: "task = (r, chn, pkt)" by (cases task)
  obtain rtp where rtp: "rtpConns s r = Some rtp" using assms(2) Cons t by auto
  have "packet_block_ok pkt" using server_inv_parts(5) [OF assms(1), of task] Cons t by simp
  then obtain out rtp' where o: "rtp_task (rtpTcps s r) sent (chn, pkt) rtp = Inr (out, rtp')"
    using rtp_task_total by blast
  let ?u = "put_rtp r rtp' s"
  have "shared_inv ?u \<and> grows s ?u"
    using shared_inv_put_rtp [OF server_inv_parts(1) [OF assms(1)]] rtp by simp
  then have "server_inv (?u\<lparr>loopTasks := rest\<rparr>)"
    using assms(1) conn_ok_grows [of s _ ?u] Cons
    by (simp add: server_inv_def conn_ok_def shared_inv_def tables_inv_def clients_ok_def put_rtp_def)
  then show ?thesis using Cons t rtp o by (simp add: run_task_def)
qed

section \<open>Media sessions come and go\<close>

lemma server_inv_tables:
  assumes "server_inv s" "tables_inv t" "\<forall>k ss. mediaSessions t k = Some ss \<longrightarrow> clients_ok s ss"
    and "rtpConns t = rtpConns s" "rtpTcps t = rtpTcps s" "nextRtp t = nextRtp s" "rtspConnMap t = rtspConnMap s"
    "inputBuffers t = inputBuffers s" "loopTasks t = loopTasks s"
  shows "server_inv t"
proof -
  have "clients_ok t = clients_ok s" "conn_ok t = conn_ok s"
    using assms(4-6) by (simp_all add: clients_ok_def conn_ok_def fun_eq_iff)
  then show ?thesis
    using assms by (simp add: server_inv_def shared_inv_def)
qed

lemma server_inv_add:
  assumes "server_inv s" "ms_id ss \<noteq> 0" "mediaSessions s (ms_id ss) = None" "ms_clients ss = []"
  shows "server_inv (snd (addMediaSession ss s))"
proof (rule server_inv_tables [OF assms(1)])
  show "tables_inv (snd (addMediaSession ss s))"
    using server_inv_parts(1) [OF assms(1)] assms(2,3) by (intro tables_inv_add) (simp_all add: shared_inv_def)
  show "\<forall>k x. mediaSessions (snd (addMediaSession ss s)) k = Some x \<longrightarrow> clients_ok s x"
    using server_inv_parts(1) [OF assms(1)] assms(3,4) by (simp add: addMediaSession_def shared_inv_def clients_ok_def)
qed (simp_all add: addMediaSession_def)

lemma server_inv_remove:
  assumes "server_inv s"
  shows "server_inv (removeMediaSession k s)"
proof (rule server_inv_tables [OF assms])
  show "tables_inv (removeMediaSession k s)"
    using server_inv_parts(1) [OF assms] by (intro tables_inv_remove) (simp add: shared_inv_def)
  show "\<forall>j x. mediaSessions (removeMediaSession k s) j = Some x \<longrightarrow> clients_ok s x"
    using server_inv_parts(1) [OF assms] by (auto simp: removeMediaSession_def shared_inv_def split: option.splits if_splits)
qed (simp_all add: removeMediaSession_def split: option.splits)

lemma server_inv_init: "server_inv (RtspServer_new info)"
  using input_ok_init [of kInitialSize]
  by (simp add: server_inv_def RtspServer_new_def shared_inv_def tables_inv_def kInitialSize_def)

section \<open>Steps\<close>

datatype server_event =
    Connected tcp_ref RtspRequest ClientMethod
  | Disconnected tcp_ref
  | Received env string "byte list"
  | Frame "nat \<Rightarrow> nat \<Rightarrow> byte list" "nat \<Rightarrow> byte list" nat MediaSessionId MediaChannelId AVFrame
  | Task int
  | AddSession MediaSession
  | RemoveSession MediaSessionId

fun server_step :: "RtspServer \<Rightarrow> server_event \<Rightarrow> RtspServer result" where
  "server_step s (Connected conn memory m) = Inr (snd (onConnection True conn memory m s))"
| "server_step s (Disconnected conn) =
     Inr (snd (onConnection False conn (RtspRequest_init METHOD_NONE channel_0 RTP_OVER_TCP) C_NONE s))"
| "server_step s (Received e name d) = rbind (onMessage e name d s) (\<lambda>(outs, s'). Inr s')"
| "server_step s (Frame fresh blocks now k chn frame) = rbind (pushFrame fresh blocks now k chn frame s) (\<lambda>(ok, s'). Inr s')"
| "server_step s (Task sent) = rbind (run_task sent s) (\<lambda>(outs, s'). Inr s')"
| "server_step s (AddSession ss) = Inr (snd (addMediaSession ss s))"
| "server_step s (RemoveSession k) = Inr (removeMediaSession k s)"

text \<open>
  What the environment respects: the network library delivers messages of known connections only,
  frames are well-formed, a new session has a fresh id; and the two conditions the code itself does not
  ensure: the message is none of those that fault, and the object of the next task still exists.
\<close>

fun server_ok :: "RtspServer \<Rightarrow> server_event \<Rightarrow> bool" where
  "server_ok s (Received e name d) =
     (case rtspConnMap s name of None \<Rightarrow> False | Some c \<Rightarrow> \<not> message_faults (buf_append d (inputBuffers s name)) c)"
| "server_ok s (Frame fresh blocks now k chn frame) =
     (frame_wf frame \<and> (\<forall>k r. length (fresh k r) = RTP_PACKET_BLOCK) \<and> (\<forall>i. length (blocks i) = RTP_PACKET_BLOCK))"
| "server_ok s (Task sent) = (case loopTasks s of [] \<Rightarrow> True | (r, t) # rest \<Rightarrow> rtpConns s r \<noteq> None)"
| "server_ok s (AddSession ss) = (ms_id ss \<noteq> 0 \<and> mediaSessions s (ms_id ss) = None \<and> ms_clients ss = [])"
| "server_ok s e = True"

lemma put_session_same: "mediaSessions s (ms_id ss) = Some ss \<Longrightarrow> put_session ss s = s"
  by (simp add: put_session_def map_upd_triv)

lemma pushFrame_none:
  assumes "server_inv s" "mediaSessions s k = Some ss" "ms_sources ss chn = None"
  shows "pushFrame fresh blocks now k chn frame s = Inr (False, s)"
proof -
  have "ms_id ss = k" using server_inv_parts(1) [OF assms(1)] assms(2) by (simp add: shared_inv_def tables_inv_def)
  then have "put_session ss s = s" using assms(2) put_session_same by blast
  then show ?thesis using assms(2,3) by (simp add: pushFrame_def session_handleFrame_def)
qed

lemma server_inv_frame:
  assumes "server_inv s" "frame_wf frame" "\<And>k r. length (fresh k r) = RTP_PACKET_BLOCK" "\<And>i. length (blocks i) = RTP_PACKET_BLOCK"
  shows "\<exists>ok s'. pushFrame fresh blocks now k chn frame s = Inr (ok, s') \<and> server_inv s'"
proof (cases "mediaSessions s k")
  case None
  then have "pushFrame fresh blocks now k chn frame s = Inr (False, s)" by (simp add: pushFrame_def)
  with assms(1) show ?thesis by blast
next
  case (Some ss)
  consider "ms_sources ss chn = None" | "ms_sources ss chn \<noteq> None" "getNumClient ss = 0" | "ms_sources ss chn \<noteq> None" "getNumClient ss \<noteq> 0"
    by blast
  then show ?thesis
  proof cases
    case 1
    with pushFrame_none [OF assms(1) Some] assms(1) show ?thesis by blast
  next
    case 2
    then have "pushFrame fresh blocks now k chn frame s = Inr (False, s)" using Some by (simp add: pushFrame_def)
    with assms(1) show ?thesis by blast
  next
    case 3
    from pushFrame_effect [where fresh = fresh and blocks = blocks and now = now, OF assms(1) Some 3 assms(3,4,2)]
    show ?thesis by blast
  qed
qed

lemma server_step_inv:
  assumes "server_inv s" "server_ok s e"
  shows "\<exists>t. server_step s e = Inr t \<and> server_inv t"
proof (cases e)
  case (Received en name d)
  with assms(2) obtain c where "rtspConnMap s name = Some c" "\<not> message_faults (buf_append d (inputBuffers s name)) c"
    by (auto split: option.splits)
  from server_inv_message [OF assms(1) this, of en] Received show ?thesis by auto
next
  case (Frame fresh blocks now k chn frame)
  then have "frame_wf frame" "\<And>k r. length (fresh k r) = RTP_PACKET_BLOCK" "\<And>i. length (blocks i) = RTP_PACKET_BLOCK"
    using assms(2) by simp_all
  from server_inv_frame [where fresh = fresh and blocks = blocks and now = now and k = k and chn = chn, OF assms(1) this] Frame show ?thesis by auto
next
  case (Task sent)
  with server_inv_task [OF assms(1), of sent] assms(2) show ?thesis by (fastforce split: list.splits)
qed (use assms server_inv_connect server_inv_add server_inv_remove in auto)

interpretation server: transition_system server_step server_ok server_inv
  by unfold_locales (rule server_step_inv)

section \<open>A server with one client\<close>

text \<open>The server \<open>main\<close> sets up, and the first client connected to it.\<close>

definition opened_server :: RtspServer where
  "opened_server = snd (onConnection True sample_tcp (RtspRequest_init METHOD_NONE channel_0 RTP_OVER_TCP) C_NONE (snd (main_server 0)))"

definition opened_conn :: RtspConnection where
  "opened_conn = RtspConnection_new (RtspRequest_init METHOD_NONE channel_0 RTP_OVER_TCP) C_NONE sample_tcp"

definition sample_env :: env where
  "sample_env = \<lparr>env_ip = ''10.0.0.1'', env_time = 1607690000, env_address = (\<lambda>_. 4096), env_memory = sample_rtp, env_random = (\<lambda>_. 7),
     env_peer = 1, env_attempts = sample_attempts, env_literal = 0\<rparr>"

lemma main_session_fields:
  "ms_id main_session = 2" "ms_suffix main_session = ''live''" "ms_clients main_session = []"
  "ms_sources main_session channel_0 = Some (H264Source_new 25)"
  by (simp_all add: main_session_def MediaSession_new_def addMediaSource_def)

lemma server_inv_main: "server_inv (snd (main_server port))"
  unfolding main_server_def
  by (rule server_inv_add [OF server_inv_init]) (simp_all add: main_session_fields RtspServer_new_def)

lemma opened_server_inv: "server_inv opened_server"
  unfolding opened_server_def by (rule server_inv_connect [OF server_inv_main])

lemma opened_server_fields:
  "rtspConnMap opened_server ''RtspServer-0.0.0.0:554#1'' = Some opened_conn" "mediaSessions opened_server 2 = Some main_session"
  "lookMediaSession_suffix ''live'' opened_server = Some main_session" "loopTasks opened_server = []" "nextRtp opened_server = 0"
  "inputBuffers opened_server ''RtspServer-0.0.0.0:554#1'' = Buffer_init kInitialSize"
  by (simp_all add: opened_server_def opened_conn_def onConnection_def release_name_def main_server_def addMediaSession_def
      RtspServer_new_def main_session_fields lookMediaSession_suffix_def sample_tcp_def)

lemma opened_server_suffix: "rtspSuffixMap opened_server ''live'' = Some 2"
  by (simp add: opened_server_def onConnection_def release_name_def main_server_def addMediaSession_def RtspServer_new_def
      main_session_fields sample_tcp_def)

lemma opened_conn_fields:
  "rtpConnPtr opened_conn = None" "tcpConn opened_conn = sample_tcp" "fresh_request (rtspRequest opened_conn)"
  by (simp_all add: opened_conn_def RtspConnection_new_def fresh_init)

lemma sample_urls: "valid_url ''10.0.0.1'' ''live''" "valid_url ''10.0.0.1'' ''live/track0''"
  by (simp_all add: valid_url_def url_part_def is_space_def)

end
