(* ===== verification/Rtsp_Dialogue.thy ===== *)
theory Rtsp_Dialogue
  imports Server_Run
begin

text \<open>
  Whole requests on a server connection: every one is answered, DESCRIBE, SETUP and PLAY
  in a row make the client a viewer of the session, and TEARDOWN ends that.
\<close>

section \<open>One request\<close>

text \<open>Between requests nothing of the last one is left in the parser or in the input buffer.\<close>

definition idle :: "RtspServer \<Rightarrow> string \<Rightarrow> RtspConnection \<Rightarrow> bool" where
  "idle s name c \<longleftrightarrow> rtspConnMap s name = Some c \<and> fresh_request (rtspRequest c) \<and> toStringPiece (inputBuffers s name) = []"

lemma opened_idle: "idle opened_server ''RtspServer-0.0.0.0:554#1'' opened_conn"
  using opened_server_fields opened_conn_fields by (simp add: idle_def buf_simps)

lemma onMessage_parsed:
  assumes "server_inv s" "rtspConnMap s name = Some c" "parseRequest (buf_append d (inputBuffers s name)) (rtspRequest c) = Inr (True, b, req)"
    and "buffer_inv b" "toStringPiece b = []" "gotAll req" "req_method req \<noteq> RTCP" "\<not> premature c (req_method req)"
  shows "\<exists>outs s1 c1 s'. handle_command e (req_method req) s (c\<lparr>rtspRequest := req\<rparr>) = Inr (outs, s1, c1) \<and>
    onMessage e name d s = Inr (outs, s') \<and>
    s' = s1\<lparr>rtspConnMap := (rtspConnMap s1)(name \<mapsto> c1\<lparr>rtspRequest := req_reset req\<rparr>), inputBuffers := (inputBuffers s1)(name := b)\<rparr> \<and>
    server_inv s' \<and> idle s' name (c1\<lparr>rtspRequest := req_reset req\<rparr>)"
proof -
  let ?b = "buf_append d (inputBuffers s name)" and ?c = "c\<lparr>rtspRequest := req\<rparr>"
  have co: "shared_inv s" "conn_ok s c" using server_inv_parts(1) [OF assms(1)] server_inv_parts(2) [OF assms(1,2)] by simp_all
  have "\<not> message_faults ?b c"
    using assms(3,6,7,8) by (simp add: message_faults_def)
  from server_inv_message [OF assms(1,2) this, of e] obtain outs' s' where
    s': "onMessage e name d s = Inr (outs', s')" "server_inv s'" by blast
  have "handled s ?c (handle_command e (req_method req) s ?c)"
    using co assms(8) by (intro handle_command_ok) simp_all
  then obtain outs s1 c1 where h: "handle_command e (req_method req) s ?c = Inr (outs, s1, c1)" "rtspRequest c1 = req"
    unfolding handled_def by auto
  have "readableBytes b = 0" using length_contents [OF assms(4)] assms(5) by simp
  then have "handleRtspMessage e ?b s c = Inr (outs, b, s1, c1\<lparr>rtspRequest := req_reset req\<rparr>)"
    using co(2) assms(3,6,7) h
    by (simp add: handleRtspMessage_def handleRtspRequest_def conn_ok_def MAX_RTSP_MESSAGE_SIZE_def)
  then have o: "onMessage e name d s = Inr (outs, s1\<lparr>rtspConnMap := (rtspConnMap s1)(name \<mapsto> c1\<lparr>rtspRequest := req_reset req\<rparr>),
      inputBuffers := (inputBuffers s1)(name := b)\<rparr>)"
    using assms(2) by (simp add: onMessage_def)
  then have "outs' = outs" "s' = s1\<lparr>rtspConnMap := (rtspConnMap s1)(name \<mapsto> c1\<lparr>rtspRequest := req_reset req\<rparr>), inputBuffers := (inputBuffers s1)(name := b)\<rparr>"
    using s'(1) by simp_all
  moreover have "idle s' name (c1\<lparr>rtspRequest := req_reset req\<rparr>)"
    using calculation assms(5) fresh_reset by (simp add: idle_def)
  ultimately show ?thesis using h(1) s' by blast
qed

text \<open>What an idle connection has in its buffer once a read has delivered a text.\<close>

lemma idle_append:
  assumes "server_inv s" "idle s name c"
  shows "buffer_inv (buf_append (bytes_of t) (inputBuffers s name))" "toStringPiece (buf_append (bytes_of t) (inputBuffers s name)) = bytes_of t"
proof -
  have "buffer_inv (inputBuffers s name)" using server_inv_parts(4) [OF assms(1)] by (simp add: input_ok_def)
  then show "buffer_inv (buf_append (bytes_of t) (inputBuffers s name))"
    "toStringPiece (buf_append (bytes_of t) (inputBuffers s name)) = bytes_of t"
    using assms(2) by (simp_all add: inv_intros buf_simps idle_def del: map_map)
qed

lemma onMessage_request:
  assumes "server_inv s" "idle s name c" "valid_url ip suffix" "agent_ok w agent"
    and "\<not> premature c (fst (wire_method w))"
  shows "\<exists>req outs s1 c1 b s'. request_read w (url_text ip port suffix) ip suffix cseq req \<and>
    handle_command e (fst (wire_method w)) s (c\<lparr>rtspRequest := req\<rparr>) = Inr (outs, s1, c1) \<and>
    onMessage e name (bytes_of (request_text w (url_text ip port suffix) cseq agent)) s = Inr (outs, s') \<and>
    s' = s1\<lparr>rtspConnMap := (rtspConnMap s1)(name \<mapsto> c1\<lparr>rtspRequest := req_reset req\<rparr>), inputBuffers := (inputBuffers s1)(name := b)\<rparr> \<and>
    server_inv s' \<and> idle s' name (c1\<lparr>rtspRequest := req_reset req\<rparr>)"
proof -
  have c: "rtspConnMap s name = Some c" "fresh_request (rtspRequest c)" using assms(2) by (simp_all add: idle_def)
  obtain b req where p: "parseRequest (buf_append (bytes_of (request_text w (url_text ip port suffix) cseq agent)) (inputBuffers s name)) (rtspRequest c) =
      Inr (True, b, req)" "buffer_inv b" "toStringPiece b = []" and req: "request_read w (url_text ip port suffix) ip suffix cseq req"
    using parseRequest_text [OF idle_append [OF assms(1,2)] c(2) assms(3,4)] by blast
  have "gotAll req" "req_method req = fst (wire_method w)" using req by (simp_all add: request_read_def)
  moreover have "fst (wire_method w) \<noteq> RTCP" by (cases w) simp_all
  ultimately show ?thesis
    using onMessage_parsed [OF assms(1) c(1) p, of e] assms(5) req by metis
qed

section \<open>One reply for every request\<close>

definition replies :: "rtsp_out list \<Rightarrow> string list" where
  "replies outs = concat (map (\<lambda>out. case out of Message m \<Rightarrow> [m] | _ \<Rightarrow> []) outs)"

lemma replies_simps [simp]:
  "replies [] = []"
  "replies (Message m # outs) = m # replies outs"
  "replies (Shutdown # outs) = replies outs"
  "replies (ForceCloseWithDelay n # outs) = replies outs"
  "replies (Descriptors evs # outs) = replies outs"
  "replies (Notify ns # outs) = replies outs"
  by (simp_all add: replies_def)

definition answers_request :: "RtspRequest \<Rightarrow> string \<Rightarrow> bool" where
  "answers_request req m \<longleftrightarrow> reply_number ''CSeq'' m = Some (getCSeq req) \<and>
     reply_status m \<in> {''200'', ''404'', ''461'', ''500''} \<and> length m < 1024"

lemma reply_answers: "answers_request req (reply_text req k)"
  using reply_reads [of req k] by (cases k) (simp_all add: answers_request_def)

lemma reply_answers_forms:
  "answers_request req (buildOptionRes req 1024)" "answers_request req (buildNotFoundRes req 1024)"
  "answers_request req (buildServerErrorRes req 1024)" "answers_request req (buildUnsupportedRes req 1024)"
  "answers_request req (buildSetupTcpRes req 1024 a b n)" "answers_request req (buildSetupUdpRes req 1024 a b n)"
  "answers_request req (buildPlayRes req 1024 None n)" "answers_request req (buildTeardownRes req 1024 n)"
  "answers_request req (buildGetParamterRes req 1024 n)"
  using reply_answers [of req R_Options] reply_answers [of req R_NotFound] reply_answers [of req R_ServerError]
    reply_answers [of req R_Unsupported] reply_answers [of req "R_SetupTcp a b n"] reply_answers [of req "R_SetupUdp a b n"]
    reply_answers [of req "R_Play n"] reply_answers [of req "R_Teardown n"] reply_answers [of req "R_GetParameter n"]
  by simp_all

lemma describe_answers: "answers_request req (buildDescribeRes req 1024 sdp)"
  and describe_status: "reply_status (buildDescribeRes req 1024 sdp) = ''200''"
  using describe_head [of req sdp] by (simp_all add: answers_request_def)

lemma setup_reply:
  assumes "handleCmdSetup e s c = Inr (outs, s', c')"
  shows "\<exists>m. replies outs = [m] \<and> answers_request (rtspRequest c) m"
proof (cases "lookMediaSession_id (sessionId c) s")
  case None
  with assms show ?thesis by (auto simp: handleCmdSetup_def server_error_def Let_def reply_answers_forms)
next
  case (Some ss)
  show ?thesis
  proof (cases "req_transport (rtspRequest c)")
    case RTP_OVER_MULTICAST
    with assms Some show ?thesis by (auto simp: handleCmdSetup_def Let_def reply_answers_forms)
  next
    case RTP_OVER_TCP
    with assms Some show ?thesis
      by (auto simp: handleCmdSetup_def with_rtp_def Let_def reply_answers_forms split: option.splits)
  next
    case RTP_OVER_UDP
    with assms Some show ?thesis
      by (auto simp: handleCmdSetup_def with_rtp_def server_error_def Let_def reply_answers_forms
          split: option.splits prod.splits if_splits)
  qed
qed

lemma describe_reply_one:
  assumes "handleCmdDescribe e s c = Inr (outs, s', c')"
  shows "\<exists>m. replies outs = [m] \<and> answers_request (rtspRequest c) m"
proof -
  obtain r s1 c1 where r: "ensure_rtp e s c = (r, s1, c1)" "rtspRequest c1 = rtspRequest c"
    by (cases "rtpConnPtr c") (auto simp: ensure_rtp_def Let_def)
  show ?thesis
  proof (cases "lookMediaSession_suffix (getRtspUrlSuffix (rtspRequest c1)) s1")
    case None
    with assms r show ?thesis by (auto simp: handleCmdDescribe_def reply_answers_forms)
  next
    case (Some ss)
    obtain ns m where "outs = [Notify ns, Message m]"
      "m = buildServerErrorRes (rtspRequest c1) 1024 \<or> (\<exists>sdp. m = buildDescribeRes (rtspRequest c1) 1024 sdp)"
      using assms Some r(1) by (auto simp: handleCmdDescribe_def with_rtp_def Let_def split: option.splits if_splits)
    then show ?thesis using r(2) describe_answers reply_answers_forms(3) by auto
  qed
qed

lemma command_reply:
  assumes "handle_command e m s c = Inr (outs, s', c')" "m \<noteq> RTCP" "m \<noteq> METHOD_NONE"
  shows "\<exists>x. replies outs = [x] \<and> answers_request (rtspRequest c) x"
proof (cases m)
  case DESCRIBE
  with assms(1) describe_reply_one show ?thesis by (auto simp: handle_command_def)
next
  case SETUP
  with assms(1) setup_reply show ?thesis by (auto simp: handle_command_def)
qed (use assms reply_answers_forms in
    \<open>auto simp: handle_command_def handleCmdOption_def handleCmdPlay_def handleCmdTeardown_def handleCmdGetParamter_def
       with_rtp_def Let_def split: option.splits\<close>)

text \<open>
  C15: A request that comes alone is answered, once: when an idle connection (nothing in its input, a fresh request object) receives
  the whole text of one request and nothing else in one read, with a URL and user agent within the parser's bounds, and it is not a PLAY,
  TEARDOWN or GET_PARAMETER before the connection's first DESCRIBE, the server sends exactly one
  message, which fits its buffer, carries the request's CSeq and one of the four status codes,
  and is left in its invariant with the connection idle for the next request.
\<close>

theorem every_request_answered:
  assumes "server_inv s" "idle s name c" "valid_url ip suffix" "agent_ok w agent"
    and "\<not> premature c (fst (wire_method w))"
  shows "\<exists>outs s' m c'. onMessage e name (bytes_of (request_text w (url_text ip port suffix) cseq agent)) s = Inr (outs, s') \<and>
    replies outs = [m] \<and> reply_number ''CSeq'' m = Some cseq \<and> length m < 1024 \<and>
    reply_status m \<in> {''200'', ''404'', ''461'', ''500''} \<and> server_inv s' \<and> idle s' name c'"
proof -
  obtain req outs s1 c1 s' where m: "request_read w (url_text ip port suffix) ip suffix cseq req"
    "handle_command e (fst (wire_method w)) s (c\<lparr>rtspRequest := req\<rparr>) = Inr (outs, s1, c1)"
    "onMessage e name (bytes_of (request_text w (url_text ip port suffix) cseq agent)) s = Inr (outs, s')"
    "server_inv s'" "idle s' name (c1\<lparr>rtspRequest := req_reset req\<rparr>)"
    using onMessage_request [OF assms, of port cseq e] by blast
  have "fst (wire_method w) \<noteq> RTCP" "fst (wire_method w) \<noteq> METHOD_NONE" by (cases w; simp)+
  from command_reply [OF m(2) this] obtain x where "replies outs = [x]" "answers_request req x" by auto
  with m(1,3-5) show ?thesis unfolding answers_request_def request_read_def by blast
qed

theorem every_request_answered_witness:
  "\<exists>outs s' m c'. onMessage sample_env ''RtspServer-0.0.0.0:554#1'' (bytes_of (request_text W_OPTIONS (url_text ''10.0.0.1'' 554 ''live'') 1 ''VLC'')) opened_server =
      Inr (outs, s') \<and> replies outs = [m] \<and> reply_number ''CSeq'' m = Some 1 \<and> idle s' ''RtspServer-0.0.0.0:554#1'' c'"
proof -
  have "agent_ok W_OPTIONS ''VLC''" "\<not> premature opened_conn (fst (wire_method W_OPTIONS))"
    by (simp_all add: agent_ok_def premature_def)
  then show ?thesis
    using every_request_answered [OF opened_server_inv opened_idle sample_urls(1), of W_OPTIONS "''VLC''" sample_env 554 1]
    by blast
qed

section \<open>Several requests in one read\<close>

text \<open>
  C37: Pipelining loses requests: the header part of a message ends at the last line end of the input, so when an idle
  connection receives an OPTIONS request and, in the same read, anything else up to a line end, be it further requests, the
  server sends one reply, with status 200 and the CSeq of the OPTIONS request, and is left with empty input and a fresh
  request object: what was behind the OPTIONS request is consumed and never answered.
\<close>

theorem pipelined_requests_lost:
  assumes "server_inv s" "idle s name c" "valid_url ip suffix"
  shows "\<exists>outs m s' c'. onMessage e name (bytes_of (request_text W_OPTIONS (url_text ip port suffix) cseq agent @ behind @ crlf)) s = Inr (outs, s') \<and>
    replies outs = [m] \<and> reply_status m = ''200'' \<and> reply_number ''CSeq'' m = Some cseq \<and> server_inv s' \<and> idle s' name c'"
proof -
  let ?t = "request_text W_OPTIONS (url_text ip port suffix) cseq agent @ behind @ crlf"
  have c: "rtspConnMap s name = Some c" "fresh_request (rtspRequest c)" using assms(2) by (simp_all add: idle_def)
  obtain b req where p: "parseRequest (buf_append (bytes_of ?t) (inputBuffers s name)) (rtspRequest c) = Inr (True, b, req)"
    "buffer_inv b" "toStringPiece b = []" and req: "request_read W_OPTIONS (url_text ip port suffix) ip suffix cseq req"
    using parse_pipelined [OF idle_append [OF assms(1,2)] c(2) assms(3)] by blast
  have r: "gotAll req" "req_method req = OPTIONS" "getCSeq req = cseq" using req by (simp_all add: request_read_def)
  then have "req_method req \<noteq> RTCP" "\<not> premature c (req_method req)" by (simp_all add: premature_def)
  from onMessage_parsed [OF assms(1) c(1) p r(1) this, of e] obtain outs s1 c1 s' where
    m: "handle_command e OPTIONS s (c\<lparr>rtspRequest := req\<rparr>) = Inr (outs, s1, c1)" "onMessage e name (bytes_of ?t) s = Inr (outs, s')"
    "server_inv s'" "idle s' name (c1\<lparr>rtspRequest := req_reset req\<rparr>)"
    unfolding r(2) by blast
  have "outs = [Message (buildOptionRes req 1024)]" using m(1) by (simp add: handle_command_def handleCmdOption_def)
  then have "replies outs = [buildOptionRes req 1024]" by simp
  moreover have "reply_status (buildOptionRes req 1024) = ''200''" "reply_number ''CSeq'' (buildOptionRes req 1024) = Some cseq"
    using reply_reads [of req R_Options] r(3) by simp_all
  ultimately show ?thesis using m(2-4) by blast
qed

theorem pipelined_requests_lost_witness:
  "\<exists>outs m s' c'. onMessage sample_env ''RtspServer-0.0.0.0:554#1'' (bytes_of (request_text W_OPTIONS (url_text ''10.0.0.1'' 554 ''live'') 1 ''VLC'' @
      ''DESCRIBE rtsp://10.0.0.1:554/live RTSP/1.0'' @ crlf @ ''CSeq: 2'' @ crlf)) opened_server = Inr (outs, s') \<and>
    replies outs = [m] \<and> reply_number ''CSeq'' m = Some 1 \<and> idle s' ''RtspServer-0.0.0.0:554#1'' c'"
  using pipelined_requests_lost [OF opened_server_inv opened_idle sample_urls(1), of sample_env 554 1 "''VLC''"
      "''DESCRIBE rtsp://10.0.0.1:554/live RTSP/1.0'' @ crlf @ ''CSeq: 2''"]
  by (simp only: append_assoc) blast

end
