(* ===== verification/Frame_Delivery.thy ===== *)
theory Frame_Delivery
  imports Server_Run
begin

text \<open>
  From \<open>pushFrame\<close> to the wire: the loop runs the tasks a frame has posted, and every client that
  plays the session receives packets that decode to the frame.
\<close>

section \<open>The loop runs until it is idle\<close>

definition outputs_of :: "nat \<Rightarrow> (nat \<times> rtp_out) list \<Rightarrow> rtp_out list" where
  "outputs_of r outs = map snd (filter (\<lambda>x. fst x = r) outs)"

lemma outputs_of_simps [simp]:
  "outputs_of r [] = []"
  "outputs_of r (xs @ ys) = outputs_of r xs @ outputs_of r ys"
  "outputs_of r (map (Pair r') out) = (if r = r' then out else [])"
  by (auto simp: outputs_of_def filter_map comp_def)

lemma client_tasks_Cons [simp]:
  "client_tasks r ((r', t) # ps) = (if r' = r then t # client_tasks r ps else client_tasks r ps)"
  by (simp add: client_tasks_def)

text \<open>What one client is sent, and what becomes of its object, depends on its own tasks only.\<close>

lemma run_loop_effect:
  assumes "server_inv s" "\<forall>x \<in> set (loopTasks s). rtpConns s (fst x) \<noteq> None"
  shows "\<exists>outs s'. drain sent s = Inr (outs, s') \<and> server_inv s' \<and> loopTasks s' = [] \<and>
    mediaSessions s' = mediaSessions s \<and> rtpTcps s' = rtpTcps s \<and> rtspConnMap s' = rtspConnMap s \<and>
    (\<forall>r c. rtpConns s r = Some c \<longrightarrow> (\<exists>c'. run_tasks (rtpTcps s r) sent (client_tasks r (loopTasks s)) c = Inr (outputs_of r outs, c') \<and>
       rtpConns s' r = Some c')) \<and>
    (\<forall>r. rtpConns s r = None \<longrightarrow> rtpConns s' r = None \<and> outputs_of r outs = [])"
  using assms
proof (induction "loopTasks s" arbitrary: s)
  case Nil
  then show ?case by (auto simp: drain_def client_tasks_def)
next
  case (Cons x rest)
  obtain r0 chn pkt where x: "x = (r0, chn, pkt)" by (cases x)
  have t: "loopTasks s = (r0, chn, pkt) # rest" using Cons.hyps(2) x by simp
  obtain c0 where c0: "rtpConns s r0 = Some c0" using Cons.prems(2) t by auto
  from server_inv_task [OF Cons.prems(1), of sent] obtain out0 s1 where
    r1: "run_task sent s = Inr (out0, s1)" "server_inv s1" using t c0 by auto
  obtain out c1 where o: "rtp_task (rtpTcps s r0) sent (chn, pkt) c0 = Inr (out, c1)" "out0 = map (Pair r0) out"
    "s1 = (put_rtp r0 c1 s)\<lparr>loopTasks := rest\<rparr>"
    using r1(1) t c0 by (auto simp: run_task_def rbind_eq_Inr)
  have s1: "loopTasks s1 = rest" "mediaSessions s1 = mediaSessions s" "rtpTcps s1 = rtpTcps s" "rtspConnMap s1 = rtspConnMap s"
    "rtpConns s1 = (rtpConns s)(r0 \<mapsto> c1)"
    using o(3) by (simp_all add: put_rtp_def)
  have "\<forall>x \<in> set (loopTasks s1). rtpConns s1 (fst x) \<noteq> None" using Cons.prems(2) t s1 by auto
  from Cons.hyps(1) [OF s1(1) [symmetric] r1(2) this] obtain outs s' where
    IH: "drain sent s1 = Inr (outs, s')" "server_inv s'" "loopTasks s' = []" "mediaSessions s' = mediaSessions s1"
    "rtpTcps s' = rtpTcps s1" "rtspConnMap s' = rtspConnMap s1"
    "\<forall>r c. rtpConns s1 r = Some c \<longrightarrow> (\<exists>c'. run_tasks (rtpTcps s1 r) sent (client_tasks r (loopTasks s1)) c = Inr (outputs_of r outs, c') \<and>
       rtpConns s' r = Some c')" "\<forall>r. rtpConns s1 r = None \<longrightarrow> rtpConns s' r = None \<and> outputs_of r outs = []" by blast
  have d: "drain sent s = Inr (out0 @ outs, s')"
    using IH(1) r1(1) by (simp add: drain_def t s1(1))
  have "\<exists>c'. run_tasks (rtpTcps s r) sent (client_tasks r (loopTasks s)) c = Inr (outputs_of r (out0 @ outs), c') \<and> rtpConns s' r = Some c'"
    if "rtpConns s r = Some c" for r c
  proof (cases "r = r0")
    case True
    with IH(7) [rule_format, of r0 c1] that c0 o(1,2) show ?thesis by (auto simp: s1 t)
  next
    case False
    with IH(7) [rule_format, of r c] that o(2) show ?thesis by (auto simp: s1 t)
  qed
  moreover have "rtpConns s' r = None \<and> outputs_of r (out0 @ outs) = []" if "rtpConns s r = None" for r
  proof -
    have "r \<noteq> r0" using that c0 by auto
    with IH(8) that o(2) show ?thesis by (simp add: s1(5))
  qed
  ultimately show ?case
    using d IH(2-6) unfolding s1 by blast
qed

section \<open>One frame\<close>

text \<open>A client that plays a track of a session: what DESCRIBE, SETUP and PLAY establish.\<close>

definition watching :: "RtspServer \<Rightarrow> MediaSessionId \<Rightarrow> MediaChannelId \<Rightarrow> nat \<Rightarrow> bool" where
  "watching s k chn r \<longleftrightarrow>
     (\<exists>ss fd c t. mediaSessions s k = Some ss \<and> ms_sources ss chn \<noteq> None \<and> (fd, r) \<in> set (ms_clients ss) \<and>
        rtpConns s r = Some c \<and> rtpTcps s r = Some t \<and> tcp_name t \<noteq> '''' \<and> \<not> isClosed c \<and> isPlay (mediaChannelInfo c chn))"

text \<open>
  A client that a track's packets also go out to: one in the record state. \<open>record()\<close> alone makes
  it, and no handler of the server calls it.
\<close>

definition recording :: "RtspServer \<Rightarrow> MediaChannelId \<Rightarrow> nat \<Rightarrow> bool" where
  "recording s chn r \<longleftrightarrow> (\<exists>c. rtpConns s r = Some c \<and> isRecord (mediaChannelInfo c chn))"

lemma run_tasks_silent:
  "\<not> isPlay (mediaChannelInfo c chn) \<Longrightarrow> \<not> isRecord (mediaChannelInfo c chn) \<Longrightarrow> \<forall>t \<in> set ts. fst t = chn \<Longrightarrow>
     run_tasks tcp sent ts c = Inr (outs, c') \<Longrightarrow> outs = []"
proof (induction ts arbitrary: c outs)
  case (Cons t ts)
  obtain pkt where t: "t = (chn, pkt)" using Cons.prems(3) by (cases t) auto
  let ?c = "setFrameType (pkt_type pkt) c"
  have i: "\<not> isPlay (mediaChannelInfo ?c chn)" "\<not> isRecord (mediaChannelInfo ?c chn)" using Cons.prems(1,2) by simp_all
  then have "rtp_task tcp sent t c = Inr ([], ?c)" using rtp_task_silent by (simp add: t sending_def)
  then show ?case using Cons.IH [OF i] Cons.prems(3,4) by (auto simp: rbind_eq_Inr)
qed simp

lemma client_task_sessions:
  assumes "\<forall>r. tasks_of_packets chn (client_tasks r ps) (if r \<in> set (filter (deliverable live tcp) rs) then pkts else [])"
    and "x \<in> set ps"
  shows "live (fst x) \<noteq> None"
proof -
  obtain r ch p where x: "x = (r, ch, p)" by (cases x)
  then have "(ch, p) \<in> set (client_tasks r ps)" using assms(2) client_tasks_mem by fastforce
  moreover have "list_all2 (\<lambda>(ch, p) q. ch = chn \<and> same_packet p q) (client_tasks r ps)
      (if r \<in> set (filter (deliverable live tcp) rs) then pkts else [])"
    using assms(1) unfolding tasks_of_packets_def by blast
  ultimately have "r \<in> set (filter (deliverable live tcp) rs)" by (auto split: if_splits)
  then show ?thesis using x by (auto simp: deliverable_def split: option.splits)
qed

text \<open>Sending keeps the settings of a client whose socket takes the data.\<close>

definition same_settings :: "RtpConnection \<Rightarrow> RtpConnection \<Rightarrow> bool" where
  "same_settings c c' \<longleftrightarrow> isClosed c' = isClosed c \<and> transportMode c' = transportMode c \<and> (hasIDRFrame c \<longrightarrow> hasIDRFrame c') \<and>
     (\<forall>chn. isPlay (mediaChannelInfo c' chn) = isPlay (mediaChannelInfo c chn) \<and> carries c' chn = carries c chn)"

lemma same_settings_refl [simp]: "same_settings c c"
  by (simp add: same_settings_def)

lemma same_settings_trans: "same_settings c d \<Longrightarrow> same_settings d e \<Longrightarrow> same_settings c e"
  by (simp add: same_settings_def)

lemma same_settings_frame [simp]: "same_settings c (setFrameType t c)"
  by (auto simp: same_settings_def carries_def setFrameType_def Let_def fun_eq_iff split: rtp_out.split)

lemma same_settings_stamp [simp]: "same_settings c (upd_info chn (stamped_info pkt) c)"
  by (auto simp: same_settings_def carries_def upd_info_def stamped_info_def fun_eq_iff split: rtp_out.split)

lemma rtp_task_settings:
  assumes "rtp_task tcp sent (chn, pkt) c = Inr (out, c')" "0 \<le> sent" "packet_block_ok pkt"
  shows "same_settings c c'"
proof (cases "sending chn (setFrameType (pkt_type pkt) c)")
  case False
  then have "c' = setFrameType (pkt_type pkt) c" using assms(1) by (simp add: rtp_task_silent)
  then show ?thesis by simp
next
  case True
  then have "c' = upd_info chn (stamped_info pkt) (setFrameType (pkt_type pkt) c)"
    using assms by (simp add: rtp_task_sends Let_def split: if_splits)
  then show ?thesis using same_settings_trans same_settings_frame same_settings_stamp by blast
qed

lemma run_tasks_settings:
  "run_tasks tcp sent ts c = Inr (outs, c') \<Longrightarrow> 0 \<le> sent \<Longrightarrow> \<forall>t \<in> set ts. packet_block_ok (snd t) \<Longrightarrow> same_settings c c'"
proof (induction ts arbitrary: c outs)
  case (Cons t ts)
  obtain chn pkt where t: "t = (chn, pkt)" by (cases t)
  from Cons.prems(1) obtain out c1 outs1 where s: "rtp_task tcp sent t c = Inr (out, c1)" "run_tasks tcp sent ts c1 = Inr (outs1, c')"
    by (auto simp: rbind_eq_Inr)
  have "same_settings c c1" using rtp_task_settings s(1) Cons.prems t by auto
  moreover have "same_settings c1 c'" using Cons.IH [OF s(2)] Cons.prems by simp
  ultimately show ?case by (rule same_settings_trans)
qed simp

lemma setFrameType_IDR: "hasIDRFrame c \<or> t = 0 \<or> t = frame_type_code VIDEO_FRAME_I \<Longrightarrow> hasIDRFrame (setFrameType t c)"
  by (auto simp: setFrameType_def Let_def)

lemma frame_delivery:
  assumes "server_inv s" "loopTasks s = []" "watching s k chn r" "mediaSessions s k = Some ss" "getNumClient ss \<noteq> 0"
    and "\<And>k r. length (fresh k r) = RTP_PACKET_BLOCK" "\<And>i. length (blocks i) = RTP_PACKET_BLOCK" "frame_wf frame" "0 \<le> sent"
    and "rtpConns s r = Some c" "hasIDRFrame c \<or> frame_type frame = 0 \<or> frame_type frame = frame_type_code VIDEO_FRAME_I"
    and "plain_unit (frame_buffer frame)"
  shows "\<exists>s1 outs s2 vs c'. pushFrame fresh blocks now k chn frame s = Inr (True, s1) \<and> drain sent s1 = Inr (outs, s2) \<and>
    received c chn (outputs_of r outs) vs \<and> decodes_to vs (stamp now frame) (packetSeq (mediaChannelInfo c chn)) \<and>
    server_inv s2 \<and> loopTasks s2 = [] \<and> watching s2 k chn r \<and> rtpConns s2 r = Some c' \<and> same_settings c c' \<and>
    mediaSessions s2 k = Some (ss\<lparr>ms_clients := filter (\<lambda>(fd, r). rtpConns s r \<noteq> None) (ms_clients ss)\<rparr>) \<and>
    rtspConnMap s2 = rtspConnMap s \<and>
    (\<forall>r'. \<not> watching s k chn r' \<longrightarrow> \<not> recording s chn r' \<longrightarrow> outputs_of r' outs = [])"
proof -
  obtain fd t where w: "ms_sources ss chn \<noteq> None" "(fd, r) \<in> set (ms_clients ss)" "rtpTcps s r = Some t" "tcp_name t \<noteq> ''''"
    "\<not> isClosed c" "isPlay (mediaChannelInfo c chn)"
    using assms(3,4,10) by (auto simp: watching_def)
  let ?live = "\<lambda>r. deliverable (rtpConns s) (rtpTcps s) r"
  obtain ps s1 pkts where p: "pushFrame fresh blocks now k chn frame s = Inr (True, s1)" "server_inv s1"
    "loopTasks s1 = loopTasks s @ ps" "rtpConns s1 = rtpConns s" "rtpTcps s1 = rtpTcps s" "rtspConnMap s1 = rtspConnMap s"
    "mediaSessions s1 = (mediaSessions s)(k \<mapsto> ss\<lparr>ms_clients := filter (\<lambda>(fd, r). rtpConns s r \<noteq> None) (ms_clients ss)\<rparr>)"
    "(plain_unit (frame_buffer frame) \<longrightarrow> reassembles (map rtp_payload pkts) (frame_buffer frame))"
    "list_all (packet_ok (stamp now frame)) pkts" "last_flags (map pkt_last pkts)"
    "\<forall>r. tasks_of_packets chn (client_tasks r ps) (if r \<in> set (filter ?live (map snd (ms_clients ss))) then pkts else [])"
    using pushFrame_effect [where fresh = fresh and blocks = blocks and now = now and chn = chn and frame = frame,
        OF assms(1,4) w(1) assms(5-8)] by (elim exE conjE) (rule that)
  have tasks: "loopTasks s1 = ps" using p(3) assms(2) by simp
  have "\<forall>x \<in> set (loopTasks s1). rtpConns s1 (fst x) \<noteq> None"
    using client_task_sessions [OF p(11)] unfolding tasks p(4) by blast
  from run_loop_effect [OF p(2) this, of sent] obtain outs s2 where d: "drain sent s1 = Inr (outs, s2)" "server_inv s2"
    "loopTasks s2 = []" "mediaSessions s2 = mediaSessions s1" "rtpTcps s2 = rtpTcps s" "rtspConnMap s2 = rtspConnMap s"
    "\<forall>r c. rtpConns s r = Some c \<longrightarrow>
       (\<exists>c'. run_tasks (rtpTcps s r) sent (client_tasks r ps) c = Inr (outputs_of r outs, c') \<and> rtpConns s2 r = Some c')"
    "\<forall>r. rtpConns s r = None \<longrightarrow> rtpConns s2 r = None \<and> outputs_of r outs = []"
    unfolding tasks p(4,5,6) by (elim exE conjE) (rule that)
  obtain c' where c': "run_tasks (Some t) sent (client_tasks r ps) c = Inr (outputs_of r outs, c')" "rtpConns s2 r = Some c'"
    using d(7) [rule_format, OF assms(10)] w(3) by auto
  have "r \<in> set (filter ?live (map snd (ms_clients ss)))"
    using w assms(10) by (force simp: deliverable_def getId_def)
  then have tp: "tasks_of_packets chn (client_tasks r ps) pkts" using p(11) by metis
  have snd: "sending chn (setFrameType (frame_type frame) c)"
    using w(6) setFrameType_IDR [OF assms(11)] by (simp add: sending_def)
  obtain vs where vs: "received c chn (outputs_of r outs) vs \<and> decodes_to vs (stamp now frame) (packetSeq (mediaChannelInfo c chn))"
    using client_receives_frame [OF tp p(8) [rule_format, OF assms(12)] p(9,10) snd assms(9), of t] c'(1) by (elim exE conjE) (rule that, simp)
  have "\<forall>x \<in> set (client_tasks r ps). packet_block_ok (snd x)"
    using server_inv_parts(5) [OF p(2)] unfolding tasks client_tasks_def by auto
  then have set: "same_settings c c'" using run_tasks_settings [OF c'(1) assms(9)] by blast
  have wat: "watching s2 k chn r"
    using w c'(2) set assms(10) d(4,5) p(7) by (auto simp: watching_def same_settings_def)
  have silent: "outputs_of r' outs = []" if "\<not> watching s k chn r'" "\<not> recording s chn r'" for r'
  proof (cases "rtpConns s r'")
    case (Some x)
    show ?thesis
    proof (cases "r' \<in> set (filter ?live (map snd (ms_clients ss)))")
      case False
      with spec [OF p(11), of r'] have "client_tasks r' ps = []" by (simp only: if_False tasks_of_packets_def list_all2_Nil2)
      with d(7) [rule_format, OF Some] show ?thesis by simp
    next
      case True
      then obtain fd' where "(fd', r') \<in> set (ms_clients ss)" "\<not> isClosed x" "getId (rtpTcps s r') \<noteq> ''''"
        using Some by (auto simp: deliverable_def)
      then have "\<not> isPlay (mediaChannelInfo x chn)"
        using that(1) Some w(1) assms(4) by (auto simp: watching_def getId_def split: option.splits)
      moreover have "\<not> isRecord (mediaChannelInfo x chn)" using that(2) Some by (simp add: recording_def)
      moreover have "tasks_of_packets chn (client_tasks r' ps) pkts" using p(11) True by metis
      then have "\<forall>t \<in> set (client_tasks r' ps). fst t = chn"
        unfolding tasks_of_packets_def by (auto dest: list_all2_mem)
      ultimately show ?thesis
        using d(7) [rule_format, OF Some] run_tasks_silent by blast
    qed
  next
    case None
    with d(8) show ?thesis by simp
  qed
  have ses: "mediaSessions s2 k = Some (ss\<lparr>ms_clients := filter (\<lambda>(fd, r). rtpConns s r \<noteq> None) (ms_clients ss)\<rparr>)"
    using d(4) p(7) by simp
  show ?thesis
    by (intro exI conjI, rule p(1), rule d(1), rule vs [THEN conjunct1], rule vs [THEN conjunct2], rule d(2), rule d(3), rule wat,
        rule c'(2), rule set, rule ses, rule d(6)) (use silent in blast)
qed

end
