(* ===== verification/Viewer_Dialogue.thy ===== *)
theory Viewer_Dialogue
  imports Rtsp_Dialogue Frame_Delivery
begin

text \<open>
  The dialogue that makes a client a viewer: DESCRIBE, SETUP and PLAY, each whole in one read, and
  what the handlers do to the connection, its \<open>RtpConnection\<close> and the session on the way.
\<close>

section \<open>DESCRIBE\<close>

lemma snprintf_more_nonempty: "buf \<noteq> [] \<Longrightarrow> hd buf = h \<Longrightarrow> hd (snprintf_more n buf s) = h \<and> snprintf_more n buf s \<noteq> []"
  by (simp add: snprintf_more_def)

lemma sdp_track_nonempty: "buf \<noteq> [] \<Longrightarrow> hd buf = h \<Longrightarrow> hd (sdp_track ss chn buf) = h \<and> sdp_track ss chn buf \<noteq> []"
  using snprintf_more_nonempty by (simp add: sdp_track_def Let_def split: option.split)

lemma c_str_nonempty: "s \<noteq> [] \<Longrightarrow> hd s \<noteq> CHR 0x00 \<Longrightarrow> c_str s \<noteq> ''''"
  by (cases s) (simp_all add: c_str_def)

lemma sdp_nonempty: "fst (getSdpMessage ip now v ss) \<noteq> ''''"
proof (cases "ms_sdp ss = ''''")
  case True
  define b where "b = snprintf 1024 (''v=0'' @ crlf @ ''o=- 9'' @ int_str now @ '' 1 IN IP4 '' @ c_str ip @ crlf @
     ''t= 0 0'' @ crlf @ ''a= control:*'' @ crlf)"
  define b1 where "b1 = (if v \<noteq> '''' then snprintf_more 1024 b (''s='' @ c_str v @ crlf) else b)"
  have "b \<noteq> []" "hd b = CHR ''v''" by (simp_all add: b_def snprintf_def)
  then have "b1 \<noteq> []" "hd b1 = CHR ''v''" using snprintf_more_nonempty by (simp_all add: b1_def)
  then have "sdp_track ss channel_1 (sdp_track ss channel_0 b1) \<noteq> []" "hd (sdp_track ss channel_1 (sdp_track ss channel_0 b1)) = CHR ''v''"
    using sdp_track_nonempty by blast+
  then have "c_str (sdp_track ss channel_1 (sdp_track ss channel_0 b1)) \<noteq> ''''" by (intro c_str_nonempty) simp_all
  with True show ?thesis by (simp only: getSdpMessage_def Let_def b_def [symmetric] b1_def [symmetric]) simp
next
  case False
  then show ?thesis by (simp add: getSdpMessage_def)
qed

lemma describe_track_frame [simp]:
  "isClosed (describe_track ss chn rtp) = isClosed rtp" "hasIDRFrame (describe_track ss chn rtp) = hasIDRFrame rtp"
  by (simp_all add: describe_track_def setPayloadType_def setClockRate_def upd_info_def split: option.split)

lemma describe_viewer:
  assumes "shared_inv s" "conn_ok s c" "rtpConnPtr c = None"
    and "lookMediaSession_suffix (getRtspUrlSuffix (rtspRequest c)) s = Some ss"
  shows "\<exists>m ns s' ss' rtp. handleCmdDescribe e s c = Inr ([Notify ns, Message m], s', c\<lparr>rtpConnPtr := Some (nextRtp s), sessionId := ms_id ss\<rparr>) \<and>
    reply_status m = ''200'' \<and> mediaSessions s' (ms_id ss) = Some ss' \<and> ms_sources ss' = ms_sources ss \<and>
    ms_clients ss' = ms_clients (snd (snd (addClient (tcp_fd (tcpConn c)) (nextRtp s) ss))) \<and>
    rtpConns s' (nextRtp s) = Some rtp \<and> \<not> isClosed rtp \<and> \<not> hasIDRFrame rtp \<and> rtpTcps s' (nextRtp s) = Some (tcpConn c) \<and> Rtsp.more s' = Rtsp.more s"
proof -
  let ?r = "nextRtp s" and ?c = "c\<lparr>rtpConnPtr := Some (nextRtp s), sessionId := ms_id ss\<rparr>"
  let ?rtp = "RtpConnection_new (env_random e) (env_memory e)"
  let ?s1 = "s\<lparr>rtpConns := (rtpConns s)(?r \<mapsto> ?rtp), rtpTcps := (rtpTcps s)(?r := Some (tcpConn c)), nextRtp := ?r + 1\<rparr>"
  let ?ss1 = "snd (snd (addClient (tcp_fd (tcpConn c)) ?r ss))"
  let ?d = "getSdpMessage (env_ip e) (env_time e) (getVersion ?s1) ?ss1"
  let ?m = "buildDescribeRes (rtspRequest c) 1024 (fst ?d)"
  let ?x = "describe_track ?ss1 channel_1 (describe_track ?ss1 channel_0 ?rtp)"
  let ?s' = "put_rtp ?r ?x (put_session (snd ?d) ?s1)"
  have en: "ensure_rtp e s c = (?r, ?s1, c\<lparr>rtpConnPtr := Some ?r\<rparr>)"
    using assms(3) by (simp add: ensure_rtp_def Let_def)
  have lk: "lookMediaSession_suffix x (s\<lparr>rtpConns := A, rtpTcps := B, nextRtp := n\<rparr>) = lookMediaSession_suffix x s" for x A B n
    by (simp add: lookMediaSession_suffix_def split: option.split)
  have "handleCmdDescribe e s c = Inr ([Notify (fst (snd (addClient (tcp_fd (tcpConn c)) ?r ss))), Message ?m], ?s', ?c)"
    using assms(4) sdp_nonempty [of "env_ip e" "env_time e" "getVersion ?s1" ?ss1]
    by (simp add: handleCmdDescribe_def en lk with_rtp_def Let_def)
  moreover have "mediaSessions ?s' (ms_id ss) = Some (snd ?d)" by (simp add: put_session_def put_rtp_def)
  moreover have "ms_clients (snd ?d) = ms_clients ?ss1" by simp
  moreover have "rtpConns ?s' ?r = Some ?x" "\<not> isClosed ?x" "\<not> hasIDRFrame ?x" "rtpTcps ?s' ?r = Some (tcpConn c)" "Rtsp.more ?s' = Rtsp.more s"
    by (simp_all add: put_rtp_def put_session_def RtpConnection_new_def)
  ultimately show ?thesis using describe_status by (metis getSdpMessage_frame(4) addClient_frame(3))
qed

section \<open>SETUP\<close>

lemma fst_udp_try: "fst (udp_try left att n chn c) \<longleftrightarrow> (\<exists>k<left. attempt_succeeds (att (n + k)))"
proof (induction left arbitrary: n c)
  case (Suc left)
  have "(\<exists>k<Suc left. attempt_succeeds (att (n + k))) \<longleftrightarrow> attempt_succeeds (att n) \<or> (\<exists>k<left. attempt_succeeds (att (n + 1 + k)))"
    by (simp add: Ex_less_Suc2)
  then show ?case
    using Suc.IH by (simp add: attempt_succeeds_def Let_def case_prod_unfold)
qed simp

text \<open>A SETUP request that can succeed: interleaved, or UDP when one of the ten attempts can bind.\<close>

fun setup_possible :: "env \<Rightarrow> wire_request \<Rightarrow> bool" where
  "setup_possible e (W_SETUP_TCP a b) = True"
| "setup_possible e (W_SETUP_UDP a b) = (\<exists>k<10. attempt_succeeds (env_attempts e k))"
| "setup_possible e w = False"

lemma setup_viewer:
  assumes "setup_possible e w" "understood w url (rtspRequest c)"
    and "lookMediaSession_id (sessionId c) s = Some ss" "rtpConnPtr c = Some r" "rtpConns s r = Some rtp"
  shows "\<exists>outs m rtp'. handleCmdSetup e s c = Inr (outs, put_rtp r rtp' s, c) \<and> replies outs = [m] \<and> reply_status m = ''200'' \<and>
    isSetup (mediaChannelInfo rtp' (channel_of_url url)) \<and> isClosed rtp' = isClosed rtp \<and> hasIDRFrame rtp' = hasIDRFrame rtp"
proof (cases w)
  case (W_SETUP_TCP a b)
  have st: "reply_status (buildSetupTcpRes q 1024 x y n) = ''200''" for q x y n
    using reply_reads [of q "R_SetupTcp x y n"] by simp
  let ?rtp = "snd (setupRtpOverTcp (Some (tcpConn c)) (channel_of_url url) (ucast (ucast a :: u8)) (ucast (ucast b :: u8)) rtp)"
  have "\<exists>m. handleCmdSetup e s c = Inr ([Message m], put_rtp r ?rtp s, c) \<and> reply_status m = ''200''"
    using W_SETUP_TCP assms st by (simp add: handleCmdSetup_def with_rtp_def Let_def)
  moreover have "isSetup (mediaChannelInfo ?rtp (channel_of_url url))" "isClosed ?rtp = isClosed rtp" "hasIDRFrame ?rtp = hasIDRFrame rtp"
    by (simp_all add: setupRtpOverTcp_def upd_info_def)
  ultimately show ?thesis by fastforce
next
  case (W_SETUP_UDP a b)
  have st: "reply_status (buildSetupUdpRes q 1024 x y n) = ''200''" for q x y n
    using reply_reads [of q "R_SetupUdp x y n"] by simp
  let ?q = "rtspRequest c"
  let ?s = "setupRtpOverUdp (Some (tcpConn c)) (env_peer e) (env_attempts e) (req_channelId ?q) (getRtpPort ?q) (getRtcpPort ?q) rtp"
  let ?c0 = "upd_info (req_channelId ?q) (\<lambda>i. i\<lparr>rtpPort := getRtpPort ?q, rtcpPort := getRtcpPort ?q\<rparr>) (rtp\<lparr>peerAddr := env_peer e\<rparr>)"
  obtain evs c1 where t: "udp_try udp_attempts (env_attempts e) 0 (req_channelId ?q) ?c0 = (True, evs, c1)"
    using fst_udp_try [of udp_attempts "env_attempts e" 0 "req_channelId ?q" ?c0] assms(1) W_SETUP_UDP
    by (cases "udp_try udp_attempts (env_attempts e) 0 (req_channelId ?q) ?c0") (auto simp: udp_attempts_def)
  then obtain rtp' where u: "?s = (True, evs, rtp')" "isSetup (mediaChannelInfo rtp' (req_channelId ?q))"
    "isClosed rtp' = isClosed c1" "hasIDRFrame rtp' = hasIDRFrame c1"
    by (simp add: setupRtpOverUdp_def Let_def upd_info_def)
  have "isClosed c1 = isClosed rtp" "hasIDRFrame c1 = hasIDRFrame rtp"
    using udp_try_frame [OF t] by (simp_all add: upd_info_def)
  moreover have "\<exists>outs m. handleCmdSetup e s c = Inr (outs, put_rtp r rtp' s, c) \<and> replies outs = [m] \<and> reply_status m = ''200''"
    using u(1) st W_SETUP_UDP assms by (simp add: handleCmdSetup_def with_rtp_def Let_def)
  ultimately show ?thesis using u W_SETUP_UDP assms(2) by fastforce
qed (use assms(1) in simp_all)

section \<open>The three requests\<close>

definition request_bytes :: "wire_request \<Rightarrow> string \<Rightarrow> u16 \<Rightarrow> string \<Rightarrow> u32 \<Rightarrow> string \<Rightarrow> byte list" where
  "request_bytes w ip port suffix cseq agent = bytes_of (request_text w (url_text ip port suffix) cseq agent)"

fun exchange :: "string \<Rightarrow> (env \<times> byte list) list \<Rightarrow> RtspServer \<Rightarrow> (string list list \<times> RtspServer) result" where
  "exchange name [] s = Inr ([], s)"
| "exchange name ((e, d) # ms) s =
     rbind (onMessage e name d s) (\<lambda>(outs, s1).
       rbind (exchange name ms s1) (\<lambda>(rs, s2). Inr (replies outs # rs, s2)))"

lemma describe_step:
  assumes "server_inv s" "idle s name c" "rtpConnPtr c = None" "valid_url ip suffix"
    and "lookMediaSession_suffix suffix s = Some ss"
  shows "\<exists>outs m s' c' ss' rtp. onMessage e name (request_bytes W_DESCRIBE ip port suffix cseq agent) s = Inr (outs, s') \<and>
    replies outs = [m] \<and> reply_status m = ''200'' \<and> server_inv s' \<and> idle s' name c' \<and>
    tcpConn c' = tcpConn c \<and> rtpConnPtr c' = Some (nextRtp s) \<and> sessionId c' = ms_id ss \<and>
    mediaSessions s' (ms_id ss) = Some ss' \<and> ms_sources ss' = ms_sources ss \<and>
    ms_clients ss' = ms_clients (snd (snd (addClient (tcp_fd (tcpConn c)) (nextRtp s) ss))) \<and>
    rtpConns s' (nextRtp s) = Some rtp \<and> \<not> isClosed rtp \<and> \<not> hasIDRFrame rtp \<and> rtpTcps s' (nextRtp s) = Some (tcpConn c) \<and>
    loopTasks s' = loopTasks s"
proof -
  have "agent_ok W_DESCRIBE agent" "\<not> premature c (fst (wire_method W_DESCRIBE))"
    by (simp_all add: agent_ok_def premature_def)
  from onMessage_request [OF assms(1,2,4) this, of port cseq e] obtain req outs s1 c1 b s' where
    m: "request_read W_DESCRIBE (url_text ip port suffix) ip suffix cseq req"
    "handle_command e (fst (wire_method W_DESCRIBE)) s (c\<lparr>rtspRequest := req\<rparr>) = Inr (outs, s1, c1)"
    "onMessage e name (bytes_of (request_text W_DESCRIBE (url_text ip port suffix) cseq agent)) s = Inr (outs, s')"
    "s' = s1\<lparr>rtspConnMap := (rtspConnMap s1)(name \<mapsto> c1\<lparr>rtspRequest := req_reset req\<rparr>), inputBuffers := (inputBuffers s1)(name := b)\<rparr>"
    "server_inv s'" "idle s' name (c1\<lparr>rtspRequest := req_reset req\<rparr>)" by (elim exE conjE) (rule that)
  let ?c = "c\<lparr>rtspRequest := req\<rparr>"
  have sh: "shared_inv s" "conn_ok s ?c" using server_inv_parts(1,2) [OF assms(1)] assms(2) by (auto simp: idle_def)
  have lk: "lookMediaSession_suffix (getRtspUrlSuffix (rtspRequest ?c)) s = Some ss"
    using m(1) assms(5) by (simp add: request_read_def)
  obtain x ns s2 ss' rtp where d: "handleCmdDescribe e s ?c = Inr ([Notify ns, Message x], s2, ?c\<lparr>rtpConnPtr := Some (nextRtp s), sessionId := ms_id ss\<rparr>)"
    "reply_status x = ''200''" "mediaSessions s2 (ms_id ss) = Some ss'" "ms_sources ss' = ms_sources ss"
    "ms_clients ss' = ms_clients (snd (snd (addClient (tcp_fd (tcpConn c)) (nextRtp s) ss)))"
    "rtpConns s2 (nextRtp s) = Some rtp" "\<not> isClosed rtp" "\<not> hasIDRFrame rtp" "rtpTcps s2 (nextRtp s) = Some (tcpConn c)"
    "Rtsp.more s2 = Rtsp.more s"
    using describe_viewer [OF sh _ lk, of e] assms(3) by auto
  have e1: "outs = [Notify ns, Message x]" "s1 = s2" "c1 = ?c\<lparr>rtpConnPtr := Some (nextRtp s), sessionId := ms_id ss\<rparr>"
    using m(2) d(1) by (simp_all add: handle_command_def)
  have "loopTasks s' = loopTasks s" using more_eq [OF d(10)] m(4) e1(2) by simp
  moreover have "replies outs = [x]" using e1(1) by simp
  moreover have "mediaSessions s' = mediaSessions s2" "rtpConns s' = rtpConns s2" "rtpTcps s' = rtpTcps s2"
    using m(4) e1(2) by simp_all
  moreover have "tcpConn (c1\<lparr>rtspRequest := req_reset req\<rparr>) = tcpConn c" "rtpConnPtr (c1\<lparr>rtspRequest := req_reset req\<rparr>) = Some (nextRtp s)"
    "sessionId (c1\<lparr>rtspRequest := req_reset req\<rparr>) = ms_id ss"
    using e1(3) by simp_all
  ultimately show ?thesis using m(3,5,6) d(2-9) unfolding request_bytes_def by metis
qed

text \<open>A command that only changes the connection's \<open>RtpConnection\<close>.\<close>

lemma rtp_command_step:
  assumes "server_inv s" "idle s name c" "valid_url ip suffix" "agent_ok w agent" "\<not> premature c (fst (wire_method w))"
    and "\<And>req. request_read w (url_text ip port suffix) ip suffix cseq req \<Longrightarrow>
      \<exists>outs rtp' c1. handle_command e (fst (wire_method w)) s (c\<lparr>rtspRequest := req\<rparr>) = Inr (outs, put_rtp r rtp' s, c1) \<and>
        tcpConn c1 = tcpConn c \<and> rtpConnPtr c1 = rtpConnPtr c \<and> sessionId c1 = sessionId c \<and> P outs rtp' (connState c1)"
  shows "\<exists>outs rtp' c' s'. onMessage e name (request_bytes w ip port suffix cseq agent) s = Inr (outs, s') \<and>
    server_inv s' \<and> idle s' name c' \<and> tcpConn c' = tcpConn c \<and> rtpConnPtr c' = rtpConnPtr c \<and> sessionId c' = sessionId c \<and>
    P outs rtp' (connState c') \<and> mediaSessions s' = mediaSessions s \<and> rtpTcps s' = rtpTcps s \<and>
    rtpConns s' = (rtpConns s)(r \<mapsto> rtp') \<and> loopTasks s' = loopTasks s"
proof -
  obtain req outs s1 c1 b s' where m: "request_read w (url_text ip port suffix) ip suffix cseq req"
    "handle_command e (fst (wire_method w)) s (c\<lparr>rtspRequest := req\<rparr>) = Inr (outs, s1, c1)"
    "onMessage e name (bytes_of (request_text w (url_text ip port suffix) cseq agent)) s = Inr (outs, s')"
    "s' = s1\<lparr>rtspConnMap := (rtspConnMap s1)(name \<mapsto> c1\<lparr>rtspRequest := req_reset req\<rparr>), inputBuffers := (inputBuffers s1)(name := b)\<rparr>"
    "server_inv s'" "idle s' name (c1\<lparr>rtspRequest := req_reset req\<rparr>)"
    using onMessage_request [OF assms(1-5), of port cseq e] by (elim exE conjE) (rule that)
  obtain rtp' where h: "s1 = put_rtp r rtp' s" "tcpConn c1 = tcpConn c" "rtpConnPtr c1 = rtpConnPtr c" "sessionId c1 = sessionId c"
    "P outs rtp' (connState c1)"
    using assms(6) [OF m(1)] m(2) by auto
  have "mediaSessions s' = mediaSessions s" "rtpTcps s' = rtpTcps s" "rtpConns s' = (rtpConns s)(r \<mapsto> rtp')" "loopTasks s' = loopTasks s"
    unfolding m(4) h(1) by (simp_all add: put_rtp_def)
  then show ?thesis
    using m(3,5,6) h(2-5) unfolding request_bytes_def
    by (intro exI [of _ outs] exI [of _ rtp'] exI [of _ "c1\<lparr>rtspRequest := req_reset req\<rparr>"] exI [of _ s']) simp
qed

lemma setup_step:
  assumes "server_inv s" "idle s name c" "valid_url ip track" "agent_ok w agent" "setup_possible e w"
    and "rtpConnPtr c = Some r" "rtpConns s r = Some rtp" "lookMediaSession_id (sessionId c) s = Some ss"
  shows "\<exists>outs rtp' c' s'. onMessage e name (request_bytes w ip port track cseq agent) s = Inr (outs, s') \<and>
    server_inv s' \<and> idle s' name c' \<and> tcpConn c' = tcpConn c \<and> rtpConnPtr c' = rtpConnPtr c \<and> sessionId c' = sessionId c \<and>
    ((\<exists>m. replies outs = [m] \<and> reply_status m = ''200'') \<and>
     isSetup (mediaChannelInfo rtp' (channel_of_url (url_text ip port track))) \<and> isClosed rtp' = isClosed rtp \<and>
     hasIDRFrame rtp' = hasIDRFrame rtp) \<and> mediaSessions s' = mediaSessions s \<and> rtpTcps s' = rtpTcps s \<and>
    rtpConns s' = (rtpConns s)(r \<mapsto> rtp') \<and> loopTasks s' = loopTasks s"
proof (rule rtp_command_step [OF assms(1-4)])
  show "\<not> premature c (fst (wire_method w))" using assms(6) by (simp add: premature_def)
next
  fix req
  assume req: "request_read w (url_text ip port track) ip track cseq req"
  let ?c = "c\<lparr>rtspRequest := req\<rparr>"
  have "fst (wire_method w) = SETUP" using assms(5) by (cases w) simp_all
  then have h: "handle_command e (fst (wire_method w)) s ?c = handleCmdSetup e s ?c" by (simp add: handle_command_def)
  have "understood w (url_text ip port track) (rtspRequest ?c)" using req by (simp add: request_read_def)
  from setup_viewer [OF assms(5) this, of s ss r rtp] assms(6-8) show
    "\<exists>outs rtp' c1. handle_command e (fst (wire_method w)) s ?c = Inr (outs, put_rtp r rtp' s, c1) \<and>
        tcpConn c1 = tcpConn c \<and> rtpConnPtr c1 = rtpConnPtr c \<and> sessionId c1 = sessionId c \<and>
     ((\<exists>m. replies outs = [m] \<and> reply_status m = ''200'') \<and>
      isSetup (mediaChannelInfo rtp' (channel_of_url (url_text ip port track))) \<and> isClosed rtp' = isClosed rtp \<and>
      hasIDRFrame rtp' = hasIDRFrame rtp)"
    unfolding h by fastforce
qed

lemma play_step:
  assumes "server_inv s" "idle s name c" "valid_url ip suffix" "rtpConnPtr c = Some r" "rtpConns s r = Some rtp"
  shows "\<exists>outs rtp' c' s'. onMessage e name (request_bytes (W_PLAY n) ip port suffix cseq agent) s = Inr (outs, s') \<and>
    server_inv s' \<and> idle s' name c' \<and> tcpConn c' = tcpConn c \<and> rtpConnPtr c' = rtpConnPtr c \<and> sessionId c' = sessionId c \<and>
    ((\<exists>m. replies outs = [m] \<and> reply_status m = ''200'') \<and> rtp' = rtp_play rtp \<and> connState c' = START_PLAY) \<and>
    mediaSessions s' = mediaSessions s \<and> rtpTcps s' = rtpTcps s \<and>
    rtpConns s' = (rtpConns s)(r \<mapsto> rtp') \<and> loopTasks s' = loopTasks s"
proof (rule rtp_command_step [OF assms(1-3)])
  show "agent_ok (W_PLAY n) agent" "\<not> premature c (fst (wire_method (W_PLAY n)))"
    using assms(4) by (simp_all add: premature_def agent_ok_def)
next
  fix req
  have "reply_status (buildPlayRes q 1024 None k) = ''200''" for q k
    using reply_reads [of q "R_Play k"] by simp
  then show "\<exists>outs rtp' c1. handle_command e (fst (wire_method (W_PLAY n))) s (c\<lparr>rtspRequest := req\<rparr>) = Inr (outs, put_rtp r rtp' s, c1) \<and>
        tcpConn c1 = tcpConn c \<and> rtpConnPtr c1 = rtpConnPtr c \<and> sessionId c1 = sessionId c \<and>
     (\<exists>m. replies outs = [m] \<and> reply_status m = ''200'') \<and> rtp' = rtp_play rtp \<and> connState c1 = START_PLAY"
    using assms(4,5) by (simp add: handle_command_def handleCmdPlay_def with_rtp_def Let_def)
qed

lemma dialogue_watching:
  assumes "server_inv s" "idle s name c" "rtpConnPtr c = None" "name \<noteq> ''''"
    and "lookMediaSession_suffix suffix s = Some ss" "map_of (ms_clients ss) (tcp_fd (tcpConn c)) = None"
    and "valid_url ip suffix" "valid_url ip track" "setup_possible e2 w" "agent_ok w agent"
    and "ms_sources ss (channel_of_url (url_text ip port track)) \<noteq> None"
  shows "\<exists>rs t c' rtp ss'. exchange name
      [(e1, request_bytes W_DESCRIBE ip port suffix n1 agent), (e2, request_bytes w ip port track n2 agent),
       (e3, request_bytes (W_PLAY sid) ip port suffix n3 agent)] s = Inr (rs, t) \<and>
    map (map reply_status) rs = [[''200''], [''200''], [''200'']] \<and> server_inv t \<and> idle t name c' \<and> isPlayState c' \<and>
    tcpConn c' = tcpConn c \<and> rtpConnPtr c' = Some (nextRtp s) \<and>
    watching t (ms_id ss) (channel_of_url (url_text ip port track)) (nextRtp s) \<and>
    rtpConns t (nextRtp s) = Some rtp \<and> loopTasks t = loopTasks s \<and>
    mediaSessions t (ms_id ss) = Some ss' \<and> length (ms_clients ss') = Suc (length (ms_clients ss))"
proof -
  let ?chn = "channel_of_url (url_text ip port track)" and ?r = "nextRtp s"
  obtain o1 m1 s1 c1 ss' rtp where a: "onMessage e1 name (request_bytes W_DESCRIBE ip port suffix n1 agent) s = Inr (o1, s1)"
    "replies o1 = [m1]" "reply_status m1 = ''200''" "server_inv s1" "idle s1 name c1"
    "tcpConn c1 = tcpConn c" "rtpConnPtr c1 = Some ?r" "sessionId c1 = ms_id ss"
    "mediaSessions s1 (ms_id ss) = Some ss'" "ms_sources ss' = ms_sources ss"
    "ms_clients ss' = ms_clients (snd (snd (addClient (tcp_fd (tcpConn c)) ?r ss)))"
    "rtpConns s1 ?r = Some rtp" "\<not> isClosed rtp" "\<not> hasIDRFrame rtp" "rtpTcps s1 ?r = Some (tcpConn c)"
    "loopTasks s1 = loopTasks s"
    using describe_step [OF assms(1-3,7,5), of e1 port n1 agent] by (elim exE conjE) (rule that)
  have cl: "(tcp_fd (tcpConn c), ?r) \<in> set (ms_clients ss')" "length (ms_clients ss') = Suc (length (ms_clients ss))"
    using assms(6) unfolding a(11) by (simp_all add: addClient_def Let_def set_insort_key)
  have "lookMediaSession_id (sessionId c1) s1 = Some ss'" using a(8,9) by (simp add: lookMediaSession_id_def)
  from setup_step [OF a(4,5) assms(8,10,9) a(7,12) this, of port n2] obtain o2 rtp2 c2 s2 m2 where
    b: "onMessage e2 name (request_bytes w ip port track n2 agent) s1 = Inr (o2, s2)" "server_inv s2" "idle s2 name c2"
    "tcpConn c2 = tcpConn c1" "rtpConnPtr c2 = rtpConnPtr c1" "replies o2 = [m2]" "reply_status m2 = ''200''"
    "isSetup (mediaChannelInfo rtp2 ?chn)" "isClosed rtp2 = isClosed rtp"
    "mediaSessions s2 = mediaSessions s1" "rtpTcps s2 = rtpTcps s1" "rtpConns s2 = (rtpConns s1)(?r \<mapsto> rtp2)" "loopTasks s2 = loopTasks s1"
    by (elim exE conjE) (rule that)
  have r2: "rtpConnPtr c2 = Some ?r" "rtpConns s2 ?r = Some rtp2" using a(7) b(5,12) by simp_all
  from play_step [OF b(2,3) assms(7) r2, of e3 sid port n3 agent] obtain o3 rtp3 c3 s3 m3 where
    d: "onMessage e3 name (request_bytes (W_PLAY sid) ip port suffix n3 agent) s2 = Inr (o3, s3)" "server_inv s3" "idle s3 name c3"
    "tcpConn c3 = tcpConn c2" "rtpConnPtr c3 = rtpConnPtr c2" "replies o3 = [m3]" "reply_status m3 = ''200''"
    "rtp3 = rtp_play rtp2" "connState c3 = START_PLAY"
    "mediaSessions s3 = mediaSessions s2" "rtpTcps s3 = rtpTcps s2" "rtpConns s3 = (rtpConns s2)(?r \<mapsto> rtp3)" "loopTasks s3 = loopTasks s2"
    by (elim exE conjE) (rule that)
  have nm: "tcp_name (tcpConn c) = name"
    using server_inv_parts(2) [OF assms(1)] assms(2) by (simp add: idle_def)
  have "watching s3 (ms_id ss) ?chn ?r"
    unfolding watching_def using a(9,10,13,15) cl(1) b(8-12) d(8,10-12) nm assms(4,11)
    by (intro exI [of _ ss'] exI [of _ "tcp_fd (tcpConn c)"] exI [of _ rtp3] exI [of _ "tcpConn c"]) (simp add: rtp_play_def Let_def)
  moreover have "exchange name [(e1, request_bytes W_DESCRIBE ip port suffix n1 agent), (e2, request_bytes w ip port track n2 agent),
       (e3, request_bytes (W_PLAY sid) ip port suffix n3 agent)] s = Inr ([[m1], [m2], [m3]], s3)"
    using a(1,2) b(1,6) d(1,6) by simp
  moreover have "tcpConn c3 = tcpConn c" "rtpConnPtr c3 = Some ?r" "isPlayState c3" "rtpConns s3 ?r = Some rtp3"
    "loopTasks s3 = loopTasks s" "mediaSessions s3 (ms_id ss) = Some ss'"
    using a b d by (simp_all add: isPlayState_def)
  ultimately show ?thesis
    using a(3) cl(2) b(7) d(2,3,7)
    by (intro exI [of _ "[[m1], [m2], [m3]]"] exI [of _ s3] exI [of _ c3] exI [of _ rtp3] exI [of _ ss'] conjI) (simp_all del: exchange.simps)
qed

text \<open>
  C5: The RTSP dialogue works: an idle client on a named connection, which has not described anything yet and under whose
  descriptor the session has no entry (a stale one would shut it out), sends DESCRIBE,
  SETUP (interleaved, or for UDP when one of the ten bind attempts succeeds) and PLAY, each alone in one read and with URLs within the
  parser's bounds, for a track the session has; every request is answered once, with 200, and afterwards the client's object is
  in the session's client list, live, open and playing that track, the connection in
  its play state and idle, and the server's invariant holds.
\<close>

theorem dialogue_starts_playback:
  assumes "server_inv s" "idle s name c" "rtpConnPtr c = None" "name \<noteq> ''''"
    and "lookMediaSession_suffix suffix s = Some ss" "map_of (ms_clients ss) (tcp_fd (tcpConn c)) = None"
    and "valid_url ip suffix" "valid_url ip track" "setup_possible e2 w" "agent_ok w agent"
    and "ms_sources ss (channel_of_url (url_text ip port track)) \<noteq> None"
  shows "\<exists>rs t c' r. exchange name
      [(e1, request_bytes W_DESCRIBE ip port suffix n1 agent), (e2, request_bytes w ip port track n2 agent),
       (e3, request_bytes (W_PLAY sid) ip port suffix n3 agent)] s = Inr (rs, t) \<and>
    map (map reply_status) rs = [[''200''], [''200''], [''200'']] \<and> server_inv t \<and>
    idle t name c' \<and> isPlayState c' \<and> rtpConnPtr c' = Some r \<and>
    watching t (ms_id ss) (channel_of_url (url_text ip port track)) r"
  using dialogue_watching [OF assms, of e1 n1 n2 e3 sid n3] by (elim exE conjE) (intro exI conjI; assumption)

section \<open>TEARDOWN\<close>

lemma teardown_step:
  assumes "server_inv s" "idle s name c" "valid_url ip suffix" "rtpConnPtr c = Some r" "rtpConns s r = Some rtp"
  shows "\<exists>outs rtp' c' s'. onMessage e name (request_bytes (W_TEARDOWN n) ip port suffix cseq agent) s = Inr (outs, s') \<and>
    server_inv s' \<and> idle s' name c' \<and> tcpConn c' = tcpConn c \<and> rtpConnPtr c' = rtpConnPtr c \<and> sessionId c' = sessionId c \<and>
    ((\<exists>m. outs = [Message m, Shutdown, ForceCloseWithDelay 3] \<and> reply_status m = ''200'') \<and> rtp' = rtp_teardown rtp) \<and>
    mediaSessions s' = mediaSessions s \<and> rtpTcps s' = rtpTcps s \<and>
    rtpConns s' = (rtpConns s)(r \<mapsto> rtp') \<and> loopTasks s' = loopTasks s"
proof (rule rtp_command_step [OF assms(1-3)])
  show "agent_ok (W_TEARDOWN n) agent" "\<not> premature c (fst (wire_method (W_TEARDOWN n)))"
    using assms(4) by (simp_all add: premature_def agent_ok_def)
next
  fix req
  have "reply_status (buildTeardownRes q 1024 k) = ''200''" for q k
    using reply_reads [of q "R_Teardown k"] by simp
  then show "\<exists>outs rtp' c1. handle_command e (fst (wire_method (W_TEARDOWN n))) s (c\<lparr>rtspRequest := req\<rparr>) = Inr (outs, put_rtp r rtp' s, c1) \<and>
        tcpConn c1 = tcpConn c \<and> rtpConnPtr c1 = rtpConnPtr c \<and> sessionId c1 = sessionId c \<and>
     (\<exists>m. outs = [Message m, Shutdown, ForceCloseWithDelay 3] \<and> reply_status m = ''200'') \<and> rtp' = rtp_teardown rtp"
    using assms(4,5) by (simp add: handle_command_def handleCmdTeardown_def with_rtp_def)
qed

text \<open>No frame posts a task for an object that is closed or gone.\<close>

lemma closed_gets_no_task:
  assumes "server_inv s" "\<And>c. rtpConns s r = Some c \<Longrightarrow> isClosed c"
    and "\<And>k r. length (fresh k r) = RTP_PACKET_BLOCK" "\<And>i. length (blocks i) = RTP_PACKET_BLOCK" "frame_wf frame"
    and "pushFrame fresh blocks now k chn frame s = Inr (ok, s')"
  shows "client_tasks r (loopTasks s') = client_tasks r (loopTasks s)"
proof (cases "mediaSessions s k")
  case None
  with assms(6) show ?thesis by (simp add: pushFrame_def)
next
  case (Some ss)
  show ?thesis
  proof (cases "ms_sources ss chn = None \<or> getNumClient ss = 0")
    case True
    then have "pushFrame fresh blocks now k chn frame s = Inr (False, s)"
      using pushFrame_none [OF assms(1) Some] Some by (auto simp: pushFrame_def)
    with assms(6) show ?thesis by simp
  next
    case False
    then have f: "ms_sources ss chn \<noteq> None" "getNumClient ss \<noteq> 0" by simp_all
    obtain ps s1 pkts where p: "pushFrame fresh blocks now k chn frame s = Inr (True, s1)" "loopTasks s1 = loopTasks s @ ps"
      "\<forall>r. tasks_of_packets chn (client_tasks r ps)
        (if r \<in> set (filter (deliverable (rtpConns s) (rtpTcps s)) (map snd (ms_clients ss))) then pkts else [])"
      using pushFrame_effect [where fresh = fresh and blocks = blocks and now = now and chn = chn and frame = frame,
        OF assms(1) Some f assms(3-5)] by (elim exE conjE) (rule that)
    have "r \<notin> set (filter (deliverable (rtpConns s) (rtpTcps s)) (map snd (ms_clients ss)))"
      using assms(2) by (auto simp: deliverable_def split: option.splits)
    with spec [OF p(3), of r] have "client_tasks r ps = []" by (simp only: if_False tasks_of_packets_def list_all2_Nil2)
    with p(1,2) assms(6) show ?thesis by simp
  qed
qed

section \<open>A concrete dialogue\<close>

definition sample_requests :: "(env \<times> byte list) list" where
  "sample_requests =
     [(sample_env, request_bytes W_DESCRIBE ''10.0.0.1'' 554 ''live'' 2 ''VLC''),
      (sample_env, request_bytes (W_SETUP_TCP 0 1) ''10.0.0.1'' 554 ''live/track0'' 3 ''VLC''),
      (sample_env, request_bytes (W_PLAY 4096) ''10.0.0.1'' 554 ''live'' 4 ''VLC'')]"

lemma sample_track: "channel_of_url (url_text ''10.0.0.1'' 554 ''live/track0'') = channel_0"
  by (simp add: channel_of_url_def url_text_def nat_str.simps starts_with_def digit_char_def)

lemma sample_conditions:
  "rtpConnPtr opened_conn = None" "map_of (ms_clients main_session) (tcp_fd (tcpConn opened_conn)) = None"
  "setup_possible sample_env (W_SETUP_TCP 0 1)" "agent_ok (W_SETUP_TCP 0 1) ''VLC''"
  "ms_sources main_session (channel_of_url (url_text ''10.0.0.1'' 554 ''live/track0'')) \<noteq> None"
  using sample_track opened_conn_fields main_session_fields by (simp_all add: agent_ok_def)

lemma sample_viewer:
  "\<exists>rs t c rtp ss. exchange ''RtspServer-0.0.0.0:554#1'' sample_requests opened_server = Inr (rs, t) \<and>
    map (map reply_status) rs = [[''200''], [''200''], [''200'']] \<and> server_inv t \<and> idle t ''RtspServer-0.0.0.0:554#1'' c \<and>
    rtpConnPtr c = Some 0 \<and> watching t 2 channel_0 0 \<and> rtpConns t 0 = Some rtp \<and> loopTasks t = [] \<and>
    mediaSessions t 2 = Some ss \<and> ms_clients ss = [(9, 0)] \<and> tcpConn c = sample_tcp"
proof -
  have ne: "''RtspServer-0.0.0.0:554#1'' \<noteq> ''''" by simp
  obtain rs t c rtp ss where t: "exchange ''RtspServer-0.0.0.0:554#1'' sample_requests opened_server = Inr (rs, t)"
    "map (map reply_status) rs = [[''200''], [''200''], [''200'']]" "server_inv t" "idle t ''RtspServer-0.0.0.0:554#1'' c" "tcpConn c = sample_tcp"
    "rtpConnPtr c = Some 0" "watching t 2 channel_0 0" "rtpConns t 0 = Some rtp" "loopTasks t = []"
    "mediaSessions t 2 = Some ss" "length (ms_clients ss) = Suc 0"
    using dialogue_watching [where ?e1.0 = sample_env and ?e3.0 = sample_env and port = 554 and ?n1.0 = 2 and ?n2.0 = 3 and ?n3.0 = 4 and sid = 4096,
        OF opened_server_inv opened_idle sample_conditions(1) ne opened_server_fields(3) sample_conditions(2)
        sample_urls sample_conditions(3-5)]
    unfolding sample_requests_def sample_track main_session_fields(1,3) opened_server_fields(4,5) opened_conn_fields list.size add_0
    by (elim exE conjE) (rule that [unfolded sample_requests_def])
  obtain fd where fd: "ms_clients ss = [(fd, 0)]" using t(7,10,11) by (auto simp: watching_def length_Suc_conv)
  have "rtpTcps t 0 = Some sample_tcp"
    using server_inv_parts(2) [OF t(3)] t(4-6) by (fastforce simp: idle_def conn_ok_def)
  moreover have "clients_ok t ss" using server_inv_parts(1) [OF t(3)] t(10) by (auto simp: shared_inv_def)
  ultimately have "fd = 9" using fd by (simp add: clients_ok_def sample_tcp_def)
  with fd t show ?thesis by (intro exI [of _ rs] exI [of _ t] exI [of _ c] exI [of _ rtp] exI [of _ ss]) simp
qed

theorem dialogue_starts_playback_witness:
  "\<exists>rs t c' r. exchange ''RtspServer-0.0.0.0:554#1'' sample_requests opened_server = Inr (rs, t) \<and>
    map (map reply_status) rs = [[''200''], [''200''], [''200'']] \<and> isPlayState c' \<and> rtpConnPtr c' = Some r \<and> watching t 2 channel_0 r"
proof -
  have ne: "''RtspServer-0.0.0.0:554#1'' \<noteq> ''''" by simp
  show ?thesis
    using dialogue_starts_playback [where ?e1.0 = sample_env and ?e3.0 = sample_env and port = 554 and ?n1.0 = 2 and ?n2.0 = 3 and ?n3.0 = 4 and sid = 4096,
        OF opened_server_inv opened_idle sample_conditions(1) ne opened_server_fields(3) sample_conditions(2)
        sample_urls sample_conditions(3-5)]
    unfolding sample_requests_def sample_track main_session_fields by (elim exE conjE) (intro exI conjI; assumption)
qed

text \<open>
  C4: A frame reaches every viewer and nobody else: on a server whose loop is idle, with sends over UDP that succeed, pushing a
  well-formed frame of type 0 or I into a session that somebody watches (and whose count of clients does not wrap to 0) succeeds; once the loop has run the tasks this
  posted, every client that plays the track has been sent packets, each addressed the way its track
  was set up, whose RTP payloads carry exactly this frame (a receiver gets it if it accepts the frame's NAL unit type, as
  one of RFC 3984 does the types 1 to 23, and nothing otherwise),
  with consecutive sequence numbers from the client's next one, one time stamp and the marker on the
  last packet only; it still plays. A client that does not play the track, be it described, set up, closed or of another
  session, has been sent nothing, unless it is recording it, which the server never makes a client do; and the loop is
  idle. A frame short enough for one packet must not have the NAL type of an aggregate or a fragment, 24 to 29.
\<close>

theorem frame_reaches_viewers:
  assumes "server_inv s" "loopTasks s = []" "mediaSessions s k = Some ss" "getNumClient ss \<noteq> 0" "watching s k chn r0"
    and "\<And>k r. length (fresh k r) = RTP_PACKET_BLOCK" "\<And>i. length (blocks i) = RTP_PACKET_BLOCK" "frame_wf frame" "0 \<le> sent"
    and "frame_type frame = 0 \<or> frame_type frame = frame_type_code VIDEO_FRAME_I" and "plain_unit (frame_buffer frame)"
  shows "\<exists>s1 outs s2. pushFrame fresh blocks now k chn frame s = Inr (True, s1) \<and> drain sent s1 = Inr (outs, s2) \<and>
    (\<forall>r c. watching s k chn r \<longrightarrow> rtpConns s r = Some c \<longrightarrow>
       (\<exists>vs. received c chn (outputs_of r outs) vs \<and>
          decodes_to vs (stamp now frame) (packetSeq (mediaChannelInfo c chn))) \<and> watching s2 k chn r) \<and>
    (\<forall>r. \<not> watching s k chn r \<longrightarrow> \<not> recording s chn r \<longrightarrow> outputs_of r outs = []) \<and> server_inv s2 \<and> loopTasks s2 = []"
proof -
  have d: "\<exists>s1 outs s2 vs c'. pushFrame fresh blocks now k chn frame s = Inr (True, s1) \<and> drain sent s1 = Inr (outs, s2) \<and>
    received c chn (outputs_of r outs) vs \<and> decodes_to vs (stamp now frame) (packetSeq (mediaChannelInfo c chn)) \<and>
    server_inv s2 \<and> loopTasks s2 = [] \<and> watching s2 k chn r \<and> rtpConns s2 r = Some c' \<and> same_settings c c' \<and>
    mediaSessions s2 k = Some (ss\<lparr>ms_clients := filter (\<lambda>(fd, r). rtpConns s r \<noteq> None) (ms_clients ss)\<rparr>) \<and>
    rtspConnMap s2 = rtspConnMap s \<and> (\<forall>r'. \<not> watching s k chn r' \<longrightarrow> \<not> recording s chn r' \<longrightarrow> outputs_of r' outs = [])"
    if "watching s k chn r" "rtpConns s r = Some c" for r c
    using frame_delivery [where fresh = fresh and blocks = blocks and now = now and frame = frame,
        OF assms(1,2) that(1) assms(3,4,6-9) that(2) disjI2 [OF assms(10)] assms(11)] .
  obtain c0 where c0: "rtpConns s r0 = Some c0" using assms(5) by (auto simp: watching_def)
  obtain s1 outs s2 where a: "pushFrame fresh blocks now k chn frame s = Inr (True, s1)" "drain sent s1 = Inr (outs, s2)"
    "server_inv s2" "loopTasks s2 = []" "\<forall>r'. \<not> watching s k chn r' \<longrightarrow> \<not> recording s chn r' \<longrightarrow> outputs_of r' outs = []"
    using d [OF assms(5) c0] by (elim exE conjE) (rule that)
  have "(\<exists>vs. received c chn (outputs_of r outs) vs \<and> decodes_to vs (stamp now frame) (packetSeq (mediaChannelInfo c chn))) \<and>
      watching s2 k chn r" if w: "watching s k chn r" "rtpConns s r = Some c" for r c
  proof -
    obtain t1 o1 t2 vs where e: "pushFrame fresh blocks now k chn frame s = Inr (True, t1)" "drain sent t1 = Inr (o1, t2)"
      "received c chn (outputs_of r o1) vs" "decodes_to vs (stamp now frame) (packetSeq (mediaChannelInfo c chn))" "watching t2 k chn r"
      using d [OF w] by (elim exE conjE) (rule that)
    have "t1 = s1" using a(1) e(1) by simp
    then have "o1 = outs" "t2 = s2" using a(2) e(2) by simp_all
    with e(3-5) show ?thesis by blast
  qed
  with a show ?thesis by (intro exI [of _ s1] exI [of _ outs] exI [of _ s2]) simp
qed

definition sample_frame :: AVFrame where
  "sample_frame = \<lparr>frame_buffer = [0x65, 0x88, 0x84, 0, 0x33, 0xff], frame_size = 6, frame_type = 0, frame_timestamp = 90\<rparr>"

lemma sample_frame_wf: "frame_wf sample_frame" "rfc3984_type (nal_type (frame_buffer sample_frame))"
  by (simp_all add: frame_wf_def sample_frame_def rfc3984_type_def nal_type_def)

theorem frame_reaches_viewers_witness:
  "\<exists>rs t s1 outs s2. exchange ''RtspServer-0.0.0.0:554#1'' sample_requests opened_server = Inr (rs, t) \<and>
    pushFrame (\<lambda>_ _. replicate 1600 0) (\<lambda>_. replicate 1600 0) 0 2 channel_0 sample_frame t = Inr (True, s1) \<and>
    drain 0 s1 = Inr (outs, s2) \<and> watching s2 2 channel_0 0 \<and>
    (\<exists>c vs. received c channel_0 (outputs_of 0 outs) vs \<and>
       receive_nals rfc3984_type None (map v_payload vs) = Some [frame_buffer sample_frame])"
proof -
  obtain rs t ss where t: "exchange ''RtspServer-0.0.0.0:554#1'' sample_requests opened_server = Inr (rs, t)" "server_inv t" "loopTasks t = []"
    "mediaSessions t 2 = Some ss" "ms_clients ss = [(9, 0)]" "watching t 2 channel_0 0" "\<exists>c. rtpConns t 0 = Some c"
    using sample_viewer by (elim exE conjE) (rule that, assumption+, blast)
  have n: "getNumClient ss \<noteq> 0" using t(5) by (simp add: getNumClient_def)
  have b: "length (replicate 1600 0) = RTP_PACKET_BLOCK" by (simp add: RTP_PACKET_BLOCK_def)
  have z: "frame_type sample_frame = 0 \<or> frame_type sample_frame = frame_type_code VIDEO_FRAME_I" by (simp add: sample_frame_def)
  obtain s1 outs s2 where f: "pushFrame (\<lambda>_ _. replicate 1600 0) (\<lambda>_. replicate 1600 0) 0 2 channel_0 sample_frame t = Inr (True, s1)"
    "drain 0 s1 = Inr (outs, s2)"
    "\<forall>r c. watching t 2 channel_0 r \<longrightarrow> rtpConns t r = Some c \<longrightarrow>
       (\<exists>vs. received c channel_0 (outputs_of r outs) vs \<and>
          decodes_to vs (stamp 0 sample_frame) (packetSeq (mediaChannelInfo c channel_0))) \<and> watching s2 2 channel_0 r"
    using frame_reaches_viewers [where fresh = "\<lambda>_ _. replicate 1600 0" and blocks = "\<lambda>_. replicate 1600 0" and now = 0 and sent = 0,
        OF t(2-4) n t(6) b b sample_frame_wf(1) order_refl z rfc3984_plain [OF sample_frame_wf(2)]] by (elim exE conjE) (rule that)
  obtain c vs where "received c channel_0 (outputs_of 0 outs) vs" "decodes_to vs (stamp 0 sample_frame) (packetSeq (mediaChannelInfo c channel_0))"
    "watching s2 2 channel_0 0"
    using f(3) t(6,7) by blast
  moreover from this(2) have "receive_nals rfc3984_type None (map v_payload vs) = Some [frame_buffer sample_frame]"
    using sample_frame_wf(2) by (simp add: decodes_to_def reassembles_def)
  ultimately show ?thesis using t(1) f(1,2) by blast
qed

end
