(* ===== verification/Session_Directory.thy ===== *)
theory Session_Directory
  imports Rtsp_Server
begin

text \<open>
  What \<open>RtspServer\<close> promises its connections and its user about media sessions: a directory from
  suffixes to ids. The two tables and the global id counter implement it, as long as the
  counter, a 32-bit word, has not come round.
\<close>

section \<open>The contract of the lookups\<close>

text \<open>
  DESCRIBE finds a session by suffix and remembers its id, SETUP looks it up by that id: the two must
  be the same session.
\<close>

locale session_lookup =
  fixes by_suffix :: "string \<Rightarrow> 's \<Rightarrow> MediaSession option"
    and by_id :: "MediaSessionId \<Rightarrow> 's \<Rightarrow> MediaSession option"
    and inv :: "'s \<Rightarrow> bool"
  assumes id_of_suffix: "inv s \<Longrightarrow> by_suffix x s = Some ss \<Longrightarrow> by_id (ms_id ss) s = Some ss \<and> ms_suffix ss = x"
    and suffix_of_id: "inv s \<Longrightarrow> by_id k s = Some ss \<Longrightarrow> by_suffix (ms_suffix ss) s = Some ss \<and> ms_id ss = k \<and> k \<noteq> 0"
begin

lemma same_session: "inv s \<Longrightarrow> by_suffix x s = Some ss \<longleftrightarrow> (by_id (ms_id ss) s = Some ss \<and> ms_suffix ss = x)"
  using id_of_suffix suffix_of_id by blast

lemma ids_distinct: "inv s \<Longrightarrow> by_suffix x s = Some ss \<Longrightarrow> by_suffix y s = Some ss' \<Longrightarrow> ms_id ss = ms_id ss' \<Longrightarrow> x = y"
  using id_of_suffix by (metis option.inject)

lemma unknown_zero: "inv s \<Longrightarrow> by_id 0 s = None"
  using suffix_of_id by (cases "by_id 0 s") blast+

end

lemma tables_look:
  assumes "tables_inv s"
  shows "lookMediaSession_suffix x s = Some ss \<Longrightarrow> lookMediaSession_id (ms_id ss) s = Some ss \<and> ms_suffix ss = x"
    and "lookMediaSession_id k s = Some ss \<Longrightarrow> lookMediaSession_suffix (ms_suffix ss) s = Some ss \<and> ms_id ss = k \<and> k \<noteq> 0"
proof -
  assume "lookMediaSession_suffix x s = Some ss"
  then obtain k where k: "rtspSuffixMap s x = Some k" "mediaSessions s k = Some ss"
    by (auto simp: lookMediaSession_suffix_def split: option.splits)
  moreover obtain ss' where "mediaSessions s k = Some ss'" "ms_suffix ss' = x"
    using assms k(1) unfolding tables_inv_def by blast
  moreover have "ms_id ss = k" using assms k(2) unfolding tables_inv_def by blast
  ultimately show "lookMediaSession_id (ms_id ss) s = Some ss \<and> ms_suffix ss = x"
    by (simp add: lookMediaSession_id_def)
next
  assume "lookMediaSession_id k s = Some ss"
  then have "mediaSessions s k = Some ss" by (simp add: lookMediaSession_id_def)
  with assms show "lookMediaSession_suffix (ms_suffix ss) s = Some ss \<and> ms_id ss = k \<and> k \<noteq> 0"
    unfolding tables_inv_def lookMediaSession_suffix_def by fastforce
qed

interpretation tables: session_lookup lookMediaSession_suffix lookMediaSession_id tables_inv
  by unfold_locales (rule tables_look; assumption)+

section \<open>The directory\<close>

datatype dir_op = Create string | Remove MediaSessionId | LookSuffix string | LookId MediaSessionId

datatype dir_answer = Added MediaSessionId | Removed | Found "(string \<times> MediaSessionId) option"

text \<open>The specification: the list of registered suffixes with their ids, and the last id given out.\<close>

fun dir_spec :: "dir_op \<Rightarrow> (string \<times> MediaSessionId) list \<times> u32 \<Rightarrow> dir_answer \<times> (string \<times> MediaSessionId) list \<times> u32" where
  "dir_spec (Create x) (d, n) =
     (if x \<in> fst ` set d then (Added 0, d, n + 1) else (Added (n + 1), d @ [(x, n + 1)], n + 1))"
| "dir_spec (Remove k) (d, n) = (Removed, filter (\<lambda>p. snd p \<noteq> k) d, n)"
| "dir_spec (LookSuffix x) (d, n) = (Found (find (\<lambda>p. fst p = x) d), d, n)"
| "dir_spec (LookId k) (d, n) = (Found (find (\<lambda>p. snd p = k) d), d, n)"

text \<open>The code: a session is created by the user and handed to the server, or looked up there.\<close>

definition named :: "MediaSession \<Rightarrow> string \<times> MediaSessionId" where
  "named ss = (ms_suffix ss, ms_id ss)"

fun dir_code :: "dir_op \<Rightarrow> 'a Rtsp_scheme \<times> u32 \<Rightarrow> dir_answer \<times> 'a Rtsp_scheme \<times> u32" where
  "dir_code (Create x) (s, n) =
     (case MediaSession_new x n of (ss, n') \<Rightarrow> case addMediaSession ss s of (k, s') \<Rightarrow> (Added k, s', n'))"
| "dir_code (Remove k) (s, n) = (Removed, removeMediaSession k s, n)"
| "dir_code (LookSuffix x) (s, n) = (Found (map_option named (lookMediaSession_suffix x s)), s, n)"
| "dir_code (LookId k) (s, n) = (Found (map_option named (lookMediaSession_id k s)), s, n)"

fun answers :: "('o \<Rightarrow> 's \<Rightarrow> 'a \<times> 's) \<Rightarrow> 'o list \<Rightarrow> 's \<Rightarrow> 'a list" where
  "answers f [] s = []"
| "answers f (o1 # os) s = (case f o1 s of (a, s') \<Rightarrow> a # answers f os s')"

definition creations :: "dir_op list \<Rightarrow> nat" where
  "creations os = length (filter (\<lambda>op. case op of Create x \<Rightarrow> True | _ \<Rightarrow> False) os)"

text \<open>The simulation: both look-ups answer as the list does, and all ids have been given out.\<close>

definition dir_sim :: "'a Rtsp_scheme \<Rightarrow> (string \<times> MediaSessionId) list \<Rightarrow> nat \<Rightarrow> bool" where
  "dir_sim s d n \<longleftrightarrow> tables_inv s \<and> distinct (map fst d) \<and> distinct (map snd d) \<and> (\<forall>p \<in> set d. unat (snd p) \<le> n) \<and>
     (\<forall>x. map_option named (lookMediaSession_suffix x s) = find (\<lambda>p. fst p = x) d) \<and>
     (\<forall>k. map_option named (lookMediaSession_id k s) = find (\<lambda>p. snd p = k) d)"

lemma find_append: "find P (xs @ ys) = (case find P xs of None \<Rightarrow> find P ys | Some y \<Rightarrow> Some y)"
  by (induction xs) simp_all

lemma find_none: "find P xs = None \<longleftrightarrow> (\<forall>x \<in> set xs. \<not> P x)"
  by (auto simp: find_None_iff)

lemma find_filter:
  "distinct (map f d) \<Longrightarrow>
     find (\<lambda>p. f p = x) (filter Q d) = (case find (\<lambda>p. f p = x) d of None \<Rightarrow> None | Some p \<Rightarrow> if Q p then Some p else None)"
proof (induction d)
  case (Cons p d)
  have "find (\<lambda>q. f q = f p) d = None" unfolding find_none using Cons.prems by (force simp: image_iff)
  with Cons show ?case by auto
qed simp

lemma look_add:
  assumes "tables_inv s" "lookMediaSession_id (ms_id ss) s = None"
  shows "lookMediaSession_suffix x (snd (addMediaSession ss s)) =
      (if lookMediaSession_suffix (ms_suffix ss) s = None \<and> x = ms_suffix ss then Some ss else lookMediaSession_suffix x s)"
    and "lookMediaSession_id k (snd (addMediaSession ss s)) =
      (if lookMediaSession_suffix (ms_suffix ss) s = None \<and> k = ms_id ss then Some ss else lookMediaSession_id k s)"
    and "fst (addMediaSession ss s) = (if lookMediaSession_suffix (ms_suffix ss) s = None then ms_id ss else 0)"
proof -
  have free: "mediaSessions s (ms_id ss) = None" using assms(2) by (simp add: lookMediaSession_id_def)
  have full: "\<exists>x. mediaSessions s j = Some x" if "rtspSuffixMap s y = Some j" for y j
    using assms(1) that unfolding tables_inv_def by blast
  then have n: "lookMediaSession_suffix y s = None \<longleftrightarrow> rtspSuffixMap s y = None" for y
    by (cases "rtspSuffixMap s y") (fastforce simp: lookMediaSession_suffix_def)+
  have "j \<noteq> ms_id ss" if "rtspSuffixMap s y = Some j" for y j
    using full [OF that] free by auto
  then show "lookMediaSession_suffix x (snd (addMediaSession ss s)) =
      (if lookMediaSession_suffix (ms_suffix ss) s = None \<and> x = ms_suffix ss then Some ss else lookMediaSession_suffix x s)"
    unfolding n using free
    by (cases "rtspSuffixMap s (ms_suffix ss)"; cases "x = ms_suffix ss"; cases "rtspSuffixMap s x")
      (simp_all add: lookMediaSession_suffix_def addMediaSession_def)
  show "lookMediaSession_id k (snd (addMediaSession ss s)) =
      (if lookMediaSession_suffix (ms_suffix ss) s = None \<and> k = ms_id ss then Some ss else lookMediaSession_id k s)"
    "fst (addMediaSession ss s) = (if lookMediaSession_suffix (ms_suffix ss) s = None then ms_id ss else 0)"
    unfolding n using free by (simp_all add: lookMediaSession_id_def addMediaSession_def)
qed

lemma look_remove:
  assumes "tables_inv s"
  shows "lookMediaSession_suffix x (removeMediaSession k s) =
      (case lookMediaSession_suffix x s of None \<Rightarrow> None | Some ss \<Rightarrow> if ms_id ss \<noteq> k then Some ss else None)"
    and "lookMediaSession_id j (removeMediaSession k s) = (if j = k then None else lookMediaSession_id j s)"
proof -
  show "lookMediaSession_id j (removeMediaSession k s) = (if j = k then None else lookMediaSession_id j s)"
    unfolding lookMediaSession_id_def removeMediaSession_def by (simp split: option.split)
  show "lookMediaSession_suffix x (removeMediaSession k s) =
      (case lookMediaSession_suffix x s of None \<Rightarrow> None | Some ss \<Rightarrow> if ms_id ss \<noteq> k then Some ss else None)"
  proof (cases "mediaSessions s k")
    case None
    have "ms_id ss \<noteq> k" if "lookMediaSession_suffix x s = Some ss" for ss
      using tables_look(1) [OF assms that] None by (auto simp: lookMediaSession_id_def)
    then show ?thesis using None by (simp add: removeMediaSession_def split: option.split)
  next
    case (Some sk)
    have k: "ms_id sk = k" "rtspSuffixMap s (ms_suffix sk) = Some k" using assms Some unfolding tables_inv_def by blast+
    show ?thesis
    proof (cases "rtspSuffixMap s x")
      case None
      then show ?thesis
        unfolding lookMediaSession_suffix_def removeMediaSession_def Some by simp
    next
      case j: (Some j)
      then obtain ss where ss: "mediaSessions s j = Some ss" "ms_suffix ss = x" "ms_id ss = j"
        using assms unfolding tables_inv_def by blast
      have "x = ms_suffix sk \<longleftrightarrow> j = k" using ss(1,2) j k(2) Some by (metis option.inject)
      then show ?thesis
        unfolding lookMediaSession_suffix_def removeMediaSession_def Some by (simp add: j ss)
    qed
  qed
qed

section \<open>The code implements the directory\<close>

lemma dir_sim_create:
  assumes "dir_sim s d (unat n)" "unat n < 2 ^ 32 - 1"
  shows "\<exists>a s' d'. dir_code (Create x) (s, n) = (a, s', n + 1) \<and> dir_spec (Create x) (d, n) = (a, d', n + 1) \<and>
    dir_sim s' d' (unat (n + 1))"
proof -
  define ss where "ss = fst (MediaSession_new x n)"
  define s' where "s' = snd (addMediaSession ss s)"
  define d' where "d' = (if x \<in> fst ` set d then d else d @ [(x, n + 1)])"
  have ss: "ms_id ss = n + 1" "ms_suffix ss = x" "named ss = (x, n + 1)" by (simp_all add: ss_def MediaSession_new_def named_def)
  have inv: "tables_inv s" and dist: "distinct (map fst d)" "distinct (map snd d)" and below: "\<forall>p \<in> set d. unat (snd p) \<le> unat n"
    and look: "map_option named (lookMediaSession_suffix y s) = find (\<lambda>p. fst p = y) d"
      "map_option named (lookMediaSession_id k s) = find (\<lambda>p. snd p = k) d" for y k
    using assms(1) by (simp_all add: dir_sim_def)
  have n1: "unat (n + 1) = unat n + 1" using assms(2) by (simp add: unat_word_ariths)
  then have nz: "n + 1 \<noteq> 0" by (metis add_is_0 one_neq_zero unat_0)
  have new: "k \<noteq> n + 1" if "k \<in> snd ` set d" for k
    using that below n1 by fastforce
  then have "find (\<lambda>p. snd p = n + 1) d = None" by (fastforce simp: find_none)
  with look(2) [of "n + 1"] have free: "lookMediaSession_id (ms_id ss) s = None" unfolding ss by simp
  have taken: "lookMediaSession_suffix x s = None \<longleftrightarrow> x \<notin> fst ` set d"
    using look(1) [of x] find_none [of "\<lambda>p. fst p = x" d] by (auto simp: image_iff)
  note add = look_add [OF inv free, unfolded ss(1,2) taken, folded s'_def]
  have "tables_inv s'"
    unfolding s'_def using free nz ss(1) by (intro tables_inv_add [OF inv]) (simp_all add: lookMediaSession_id_def)
  moreover have "map_option named (lookMediaSession_suffix y s') = find (\<lambda>p. fst p = y) d'" for y
    using look(1) [of y] taken find_none [of "\<lambda>p. fst p = x" d]
    by (auto simp: add(1) d'_def find_append ss(3) split: option.splits)
  moreover have "map_option named (lookMediaSession_id k s') = find (\<lambda>p. snd p = k) d'" for k
    using look(2) [of k] new free unfolding ss(1)
    by (auto simp: add(2) d'_def find_append ss(3) split: option.splits)
  moreover have "distinct (map fst d')" "distinct (map snd d')" "\<forall>p \<in> set d'. unat (snd p) \<le> unat (n + 1)"
    using dist new below n1 by (auto simp: d'_def)
  ultimately have sim: "dir_sim s' d' (unat (n + 1))" by (simp add: dir_sim_def)
  have "MediaSession_new x n = (ss, n + 1)" by (simp add: ss_def MediaSession_new_def)
  then have "dir_code (Create x) (s, n) = (Added (if x \<in> fst ` set d then 0 else n + 1), s', n + 1)"
    using add(3) by (simp add: s'_def case_prod_unfold)
  moreover have "dir_spec (Create x) (d, n) = (Added (if x \<in> fst ` set d then 0 else n + 1), d', n + 1)"
    by (simp add: d'_def)
  ultimately show ?thesis using sim by blast
qed

lemma dir_sim_remove:
  assumes "dir_sim s d n"
  shows "dir_sim (removeMediaSession k s) (filter (\<lambda>p. snd p \<noteq> k) d) n"
proof -
  have inv: "tables_inv s" and dist: "distinct (map fst d)" "distinct (map snd d)"
    and look: "map_option named (lookMediaSession_suffix y s) = find (\<lambda>p. fst p = y) d"
      "map_option named (lookMediaSession_id j s) = find (\<lambda>p. snd p = j) d" for y j
    using assms by (simp_all add: dir_sim_def)
  have "map_option named (lookMediaSession_suffix y (removeMediaSession k s)) = find (\<lambda>p. fst p = y) (filter (\<lambda>p. snd p \<noteq> k) d)" for y
    unfolding look_remove(1) [OF inv] find_filter [OF dist(1)] look(1) [symmetric]
    by (simp add: named_def split: option.split)
  moreover have "map_option named (lookMediaSession_id j (removeMediaSession k s)) = find (\<lambda>p. snd p = j) (filter (\<lambda>p. snd p \<noteq> k) d)" for j
  proof -
    have "lookMediaSession_id j s = Some ss \<Longrightarrow> ms_id ss = j" for ss using tables_look(2) [OF inv] by blast
    then show ?thesis
      unfolding look_remove(2) [OF inv] find_filter [OF dist(2)] look(2) [symmetric]
      by (auto simp: named_def split: option.split)
  qed
  ultimately show ?thesis
    using assms tables_inv_remove [OF inv] by (auto simp: dir_sim_def distinct_map_filter)
qed

lemma dir_sim_answers:
  assumes "dir_sim s d (unat n)" "unat n + creations os < 2 ^ 32"
  shows "answers dir_code os (s, n) = answers dir_spec os (d, n)"
  using assms
proof (induction os arbitrary: s d n)
  case (Cons op os)
  show ?case
  proof (cases op)
    case (Create x)
    with Cons.prems obtain a s' d' where c: "dir_code op (s, n) = (a, s', n + 1)" "dir_spec op (d, n) = (a, d', n + 1)"
      "dir_sim s' d' (unat (n + 1))"
      using dir_sim_create [OF Cons.prems(1), of x] by (auto simp: creations_def simp del: dir_code.simps dir_spec.simps)
    have "unat (n + 1) = unat n + 1" using Cons.prems(2) Create by (simp add: unat_word_ariths creations_def)
    with Cons.IH [OF c(3)] Cons.prems(2) Create c show ?thesis
      by (simp add: creations_def del: dir_code.simps dir_spec.simps)
  next
    case (Remove k)
    with Cons.IH [OF dir_sim_remove [OF Cons.prems(1), of k]] Cons.prems(2) show ?thesis by (simp add: creations_def)
  next
    case (LookSuffix x)
    then have "unat n + creations os < 2 ^ 32" using Cons.prems(2) by (simp add: creations_def)
    with Cons.IH [OF Cons.prems(1)] Cons.prems(1) LookSuffix show ?thesis by (simp add: dir_sim_def)
  next
    case (LookId k)
    then have "unat n + creations os < 2 ^ 32" using Cons.prems(2) by (simp add: creations_def)
    with Cons.IH [OF Cons.prems(1)] Cons.prems(1) LookId show ?thesis by (simp add: dir_sim_def)
  qed
qed simp

lemma dir_sim_new: "dir_sim (RtspServer_new info) [] n"
  by (simp add: dir_sim_def tables_inv_def RtspServer_new_def lookMediaSession_suffix_def lookMediaSession_id_def)

text \<open>
  C13: The server's two tables and the global id counter implement a directory: for any sequence of
  session creations, removals and look-ups by suffix and by id on a new server, in which the
  32-bit counter does not come round, every answer is that of a plain list of the registered names
  with consecutive ids. A taken suffix is refused with 0, no id is given out twice,
  a removed session is found neither by suffix nor by id, and its suffix can be used again.
\<close>

theorem sessions_refine_directory:
  assumes "creations os < 2 ^ 32 - 1"
  shows "answers dir_code os (RtspServer_new info, 1) = answers dir_spec os ([], 1)"
  by (rule dir_sim_answers [OF dir_sim_new]) (use assms in simp)

theorem sessions_refine_directory_witness:
  "answers dir_code [Create ''live'', Create ''live'', LookSuffix ''live'', Remove 2, LookId 2, Create ''live'', LookId 4]
     (RtspServer_new \<lparr>info_url = '''', info_ip = '''', info_port = 0, info_suffix = ''''\<rparr>, 1) =
   [Added 2, Added 0, Found (Some (''live'', 2)), Removed, Found None, Added 4, Found (Some (''live'', 4))]"
proof -
  let ?os = "[Create ''live'', Create ''live'', LookSuffix ''live'', Remove 2, LookId 2, Create ''live'', LookId 4]"
  have "answers dir_spec ?os ([], 1) =
      [Added 2, Added 0, Found (Some (''live'', 2)), Removed, Found None, Added 4, Found (Some (''live'', 4))]"
    by simp
  then show ?thesis using sessions_refine_directory [of ?os] by (simp add: creations_def del: dir_code.simps dir_spec.simps)
qed

end
