(* ===== verification/Server_Properties.thy ===== *)
theory Server_Properties
  imports Viewer_Dialogue Session_Directory
begin

text \<open>
  What holds of the server over any sequence of events, which messages can fault, and how far a
  message reaches.
\<close>

section \<open>Requests that do not fault\<close>

lemma request_no_fault:
  assumes "server_inv s" "idle s name c" "valid_url ip suffix" "agent_ok w agent" "\<not> premature c (fst (wire_method w))"
  shows "server_ok s (Received e name (request_bytes w ip port suffix cseq agent))"
proof -
  have c: "rtspConnMap s name = Some c" using assms(2) by (simp add: idle_def)
  obtain outs s' where "onMessage e name (request_bytes w ip port suffix cseq agent) s = Inr (outs, s')"
    using onMessage_request [OF assms, of port cseq e] unfolding request_bytes_def by blast
  moreover have "connMode c = RTSP_SERVER" using server_inv_parts(2) [OF assms(1) c] by (simp add: conn_ok_def)
  ultimately have "\<not> message_faults (buf_append (request_bytes w ip port suffix cseq agent) (inputBuffers s name)) c"
    using handleRtspMessage_fault [of c _ e s] c by (fastforce simp: onMessage_def)
  with c show ?thesis by simp
qed

section \<open>The invariant over all runs\<close>

lemma live_owner:
  assumes "server_inv s" "rtspConnMap s name = Some c" "rtpConnPtr c = Some r"
  shows "rtpConns s r \<noteq> None" "rtpTcps s r = Some (tcpConn c)"
  using server_inv_parts(2) [OF assms(1,2)] assms(3) by (simp_all add: conn_ok_def)

text \<open>
  C1: No admissible run of the server faults: from a new server, through any sequence of
  connections, disconnections, messages for known connections, well-formed frames, loop tasks, and additions (with a fresh id) and removals of
  sessions in which no message is of the kind that faults (\<open>message_faults\<close>) and no packet task is run whose \<open>RtpConnection\<close> is gone
  (see \<open>Server_Faults\<close>), every step returns, and then every
  connection is filed under its own name and owns, if any, a live \<open>RtpConnection\<close> made for its
  socket that no other connection owns; look-up by suffix and by id agree; the clients of a
  session have distinct descriptors; and every queued packet lies inside its block.
\<close>

theorem server_never_faults:
  assumes "admissible server_step server_ok (RtspServer_new info) es"
  shows "\<exists>s. run_steps server_step (RtspServer_new info) es = Inr s \<and>
    (\<forall>name c. rtspConnMap s name = Some c \<longrightarrow> tcp_name (tcpConn c) = name \<and>
       (\<forall>r. rtpConnPtr c = Some r \<longrightarrow> rtpConns s r \<noteq> None \<and> rtpTcps s r = Some (tcpConn c) \<and>
          (\<forall>name' c'. rtspConnMap s name' = Some c' \<longrightarrow> rtpConnPtr c' = Some r \<longrightarrow> name' = name))) \<and>
    (\<forall>suffix ss. lookMediaSession_suffix suffix s = Some ss \<longleftrightarrow> (lookMediaSession_id (ms_id ss) s = Some ss \<and> ms_suffix ss = suffix)) \<and>
    (\<forall>k ss. lookMediaSession_id k s = Some ss \<longrightarrow> distinct (map fst (ms_clients ss))) \<and>
    (\<forall>task \<in> set (loopTasks s). packet_block_ok (snd (snd task)))"
proof -
  obtain s where s: "run_steps server_step (RtspServer_new info) es = Inr s" "server_inv s"
    using server.run_inv [OF server_inv_init assms] by blast
  note p = server_inv_parts [OF s(2)]
  have t: "tables_inv s" "\<forall>k ss. mediaSessions s k = Some ss \<longrightarrow> clients_ok s ss" using p(1) by (simp_all add: shared_inv_def)
  have "\<forall>name c. rtspConnMap s name = Some c \<longrightarrow> tcp_name (tcpConn c) = name \<and>
       (\<forall>r. rtpConnPtr c = Some r \<longrightarrow> rtpConns s r \<noteq> None \<and> rtpTcps s r = Some (tcpConn c) \<and>
          (\<forall>name' c'. rtspConnMap s name' = Some c' \<longrightarrow> rtpConnPtr c' = Some r \<longrightarrow> name' = name))"
    using p(2,3) live_owner [OF s(2)] by meson
  moreover have "\<forall>suffix ss. lookMediaSession_suffix suffix s = Some ss \<longleftrightarrow> (lookMediaSession_id (ms_id ss) s = Some ss \<and> ms_suffix ss = suffix)"
    using tables.same_session [OF t(1)] by blast
  moreover have "\<forall>k ss. lookMediaSession_id k s = Some ss \<longrightarrow> distinct (map fst (ms_clients ss))"
    using t(2) by (simp add: lookMediaSession_id_def clients_ok_def)
  ultimately show ?thesis using s(1) p(5) by blast
qed

text \<open>A short run: \<open>main\<close>'s session, a client with one request, its disconnection.\<close>

definition sample_info :: RtspUrlInfo where
  "sample_info = \<lparr>info_url = '''', info_ip = '''', info_port = 0, info_suffix = ''''\<rparr>"

definition sample_events :: "server_event list" where
  "sample_events =
     [AddSession main_session, Connected sample_tcp (RtspRequest_init METHOD_NONE channel_0 RTP_OVER_TCP) C_NONE] @
     [Received sample_env ''RtspServer-0.0.0.0:554#1'' (request_bytes W_OPTIONS ''10.0.0.1'' 554 ''live'' 1 ''VLC''), Disconnected sample_tcp,
      RemoveSession 2]"

lemma sample_events_ok: "admissible server_step server_ok (RtspServer_new sample_info) sample_events"
proof -
  let ?open = "[AddSession main_session, Connected sample_tcp (RtspRequest_init METHOD_NONE channel_0 RTP_OVER_TCP) C_NONE]"
  let ?rest = "[Received sample_env ''RtspServer-0.0.0.0:554#1'' (request_bytes W_OPTIONS ''10.0.0.1'' 554 ''live'' 1 ''VLC''), Disconnected sample_tcp, RemoveSession 2]"
  have "run_steps server_step (RtspServer_new sample_info) ?open = Inr opened_server"
    "admissible server_step server_ok (RtspServer_new sample_info) ?open"
    using main_session_fields by (simp_all add: opened_server_def main_server_def RtspServer_new_def sample_info_def)
  moreover have "agent_ok W_OPTIONS ''VLC''" "\<not> premature opened_conn (fst (wire_method W_OPTIONS))"
    by (simp_all add: agent_ok_def premature_def)
  then have "server_ok opened_server (Received sample_env ''RtspServer-0.0.0.0:554#1'' (request_bytes W_OPTIONS ''10.0.0.1'' 554 ''live'' 1 ''VLC''))"
    using request_no_fault [OF opened_server_inv opened_idle sample_urls(1)] by blast
  then have "admissible server_step server_ok opened_server ?rest"
    by (simp only: admissible.simps server_ok.simps server_step.simps) (auto split: sum.split)
  ultimately show ?thesis
    unfolding sample_events_def by (simp only: admissible_append) simp
qed

theorem server_never_faults_witness:
  "\<exists>s. run_steps server_step (RtspServer_new sample_info) sample_events = Inr s"
  using server_never_faults [OF sample_events_ok] by blast

section \<open>The messages that fault\<close>

lemma peek_at_contents: "buffer_inv b \<Longrightarrow> i < readableBytes b \<Longrightarrow> peek_at i b = Inr (toStringPiece b ! i)"
  by (auto simp: peek_at_def index_defs toStringPiece_def segment_def)

lemma peek_at_prefix:
  "buffer_inv b \<Longrightarrow> toStringPiece b = xs @ ys \<Longrightarrow> i < length xs \<Longrightarrow> peek_at i b = Inr (xs ! i)"
  using peek_at_contents [of b i] length_contents [of b] by (simp add: nth_append)

text \<open>
  C23: Exactly these messages make the server fault: the parser faults on the connection's input (a
  word longer than its array); or the parser recognises an RTCP packet whose first bytes announce more than has
  arrived, which \<open>handleRtcp\<close> retrieves all the same, against the assertion of \<open>Buffer::retrieve\<close>;
  or the message completes a PLAY, TEARDOWN or GET_PARAMETER
  request on a connection without a DESCRIBE before, whose null \<open>_rtpConnPtr\<close> the handler dereferences.
\<close>

theorem message_fault_exactly:
  assumes "server_inv s" "rtspConnMap s name = Some c"
  shows "(\<exists>f. onMessage e name d s = Inl f) \<longleftrightarrow>
    (case parseRequest (buf_append d (inputBuffers s name)) (rtspRequest c) of
       Inl f \<Rightarrow> True
     | Inr (ok, buf, req) \<Rightarrow> ok \<and>
         (if req_method req = RTCP then rtcp_cut_short buf
          else gotAll req \<and> rtpConnPtr c = None \<and> req_method req \<in> {PLAY, TEARDOWN, GET_PARAMETER}))"
proof -
  have mode: "connMode c = RTSP_SERVER" using server_inv_parts(2) [OF assms] by (simp add: conn_ok_def)
  have "(\<exists>f. onMessage e name d s = Inl f) \<longleftrightarrow> message_faults (buf_append d (inputBuffers s name)) c"
  proof (cases "message_faults (buf_append d (inputBuffers s name)) c")
    case True
    with handleRtspMessage_fault [OF mode True, of e s] assms(2) show ?thesis by (auto simp: onMessage_def)
  next
    case False
    from server_inv_message [OF assms this, of e] False show ?thesis by auto
  qed
  then show ?thesis by (auto simp: message_faults_def premature_def split: sum.split prod.split)
qed

theorem message_fault_exactly_witness:
  "\<exists>f. onMessage sample_env ''RtspServer-0.0.0.0:554#1'' (request_bytes (W_PLAY 1) ''10.0.0.1'' 554 ''live'' 1 ''VLC'') opened_server = Inl f \<and>
   (\<exists>f. onMessage sample_env ''RtspServer-0.0.0.0:554#1'' [byte_of_char CHR ''$'', 0, 0, 100, 0x78] opened_server = Inl f)"
proof -
  let ?p = "[byte_of_char CHR ''$'', 0, 0, 100, 0x78] :: byte list"
  let ?a = "buf_append ?p (inputBuffers opened_server ''RtspServer-0.0.0.0:554#1'')"
  have a: "buffer_inv ?a" "toStringPiece ?a = ?p"
    by (simp_all add: opened_server_fields inv_intros buf_simps)
  have "peek_at i ?a = Inr (?p ! i)" if "i < 5" for i
    using peek_at_prefix [OF a(1), of ?p "[]" i] a(2) that by simp
  from this [of 0] this [of 2] this [of 3]
  have p: "peek_at 0 ?a = Inr (byte_of_char CHR ''$'')" "peek_at 2 ?a = Inr 0" "peek_at 3 ?a = Inr 100" by simp_all
  have "readableBytes ?a = 5" using length_contents [OF a(1)] a(2) by simp
  moreover have "unat (rtcp_size 0 100 + 4) = 104" by code_simp
  ultimately have "rtcp_cut_short ?a" using p by (simp add: rtcp_cut_short_def)
  moreover have "parseRequest ?a (rtspRequest opened_conn) = Inr (True, ?a, (rtspRequest opened_conn)\<lparr>req_method := RTCP\<rparr>)"
    using p(1) by (simp add: parseRequest_def)
  ultimately have short: "\<exists>f. onMessage sample_env ''RtspServer-0.0.0.0:554#1'' ?p opened_server = Inl f"
    using message_fault_exactly [OF opened_server_inv opened_server_fields(1), of sample_env ?p] by simp
  let ?d = "request_bytes (W_PLAY 1) ''10.0.0.1'' 554 ''live'' 1 ''VLC''"
  let ?b = "buf_append ?d (inputBuffers opened_server ''RtspServer-0.0.0.0:554#1'')"
  have b: "buffer_inv ?b" "toStringPiece ?b = bytes_of (request_text (W_PLAY 1) (url_text ''10.0.0.1'' 554 ''live'') 1 ''VLC'')"
    by (simp_all add: opened_server_fields inv_intros buf_simps request_bytes_def del: map_map)
  have "agent_ok (W_PLAY 1) ''VLC''" by (simp add: agent_ok_def)
  from parseRequest_text [OF b opened_conn_fields(3) sample_urls(1) this] obtain b' r' where
    "parseRequest ?b (rtspRequest opened_conn) = Inr (True, b', r')" "gotAll r'" "req_method r' = PLAY"
    by (auto simp: request_read_def)
  then show ?thesis
    using message_fault_exactly [OF opened_server_inv opened_server_fields(1), of sample_env ?d] opened_conn_fields(1) short by simp
qed

section \<open>Bounded input\<close>

lemma message_bound:
  assumes "server_inv s" "rtspConnMap s name = Some c" "onMessage e name d s = Inr (outs, s')"
    and "\<forall>n. readableBytes (inputBuffers s n) \<le> MAX_RTSP_MESSAGE_SIZE"
  shows "\<forall>n. readableBytes (inputBuffers s' n) \<le> MAX_RTSP_MESSAGE_SIZE"
proof -
  obtain buf s1 c1 where h: "handleRtspMessage e (buf_append d (inputBuffers s name)) s c = Inr (outs, buf, s1, c1)"
    "s' = s1\<lparr>rtspConnMap := (rtspConnMap s1)(name \<mapsto> c1), inputBuffers := (inputBuffers s1)(name := buf)\<rparr>"
    using assms(2,3) by (auto simp: onMessage_def rbind_eq_Inr)
  have nf: "\<not> message_faults (buf_append d (inputBuffers s name)) c"
    using handleRtspMessage_fault [of c _ e s] h(1) server_inv_parts(2) [OF assms(1,2)] by (fastforce simp: conn_ok_def)
  have "message_handled s c (handleRtspMessage e (buf_append d (inputBuffers s name)) s c)"
    using handleRtspMessage_ok [OF server_inv_parts(1) [OF assms(1)] _ _ _ nf] server_inv_parts(2) [OF assms(1,2)]
      input_ok_append [OF server_inv_parts(4) [OF assms(1)]] by blast
  then have "Rtsp.more s1 = Rtsp.more s" using h(1) by (auto simp: message_handled_def grows_def)
  then have "inputBuffers s1 = inputBuffers s" using more_eq by blast
  moreover have "readableBytes buf \<le> MAX_RTSP_MESSAGE_SIZE"
  proof -
    obtain b where "buf = (if MAX_RTSP_MESSAGE_SIZE < readableBytes b then retrieveAll b else b)"
      using h(1) by (auto simp: handleRtspMessage_def rbind_eq_Inr)
    then show ?thesis by (simp add: retrieveAll_def readableBytes_def)
  qed
  ultimately show ?thesis using assms(4) h(2) by simp
qed

definition bounded_inv :: "RtspServer \<Rightarrow> bool" where
  "bounded_inv s \<longleftrightarrow> server_inv s \<and> (\<forall>n. readableBytes (inputBuffers s n) \<le> MAX_RTSP_MESSAGE_SIZE)"

lemma release_buffers: "inputBuffers (snd (release_name name s)) = inputBuffers s"
  by (auto simp: release_name_def destroy_conn_def split: option.splits prod.splits)

lemma pushFrame_buffers: "pushFrame fresh blocks now k chn frame s = Inr (ok, s') \<Longrightarrow> inputBuffers s' = inputBuffers s"
  by (auto simp: pushFrame_def put_session_def rbind_eq_Inr split: option.splits if_splits)

lemma run_task_buffers: "run_task sent s = Inr (outs, s') \<Longrightarrow> inputBuffers s' = inputBuffers s"
  by (auto simp: run_task_def put_rtp_def rbind_eq_Inr split: list.splits option.splits)

lemma bounded_step:
  assumes "bounded_inv s" "server_ok s ev"
  shows "\<exists>t. server_step s ev = Inr t \<and> bounded_inv t"
proof -
  obtain t where t: "server_step s ev = Inr t" "server_inv t"
    using server_step_inv [of s ev] assms by (auto simp: bounded_inv_def)
  have b: "\<forall>n. readableBytes (inputBuffers s n) \<le> MAX_RTSP_MESSAGE_SIZE" "server_inv s" using assms(1) by (simp_all add: bounded_inv_def)
  have "\<forall>n. readableBytes (inputBuffers t n) \<le> MAX_RTSP_MESSAGE_SIZE"
  proof (cases ev)
    case (Connected conn memory m)
    have "readableBytes (Buffer_init kInitialSize) = 0" by (simp add: Buffer_init_def readableBytes_def)
    then show ?thesis
      using b(1) t(1) Connected release_buffers [of "tcp_name conn" s] by (auto simp: onConnection_def split: prod.splits)
  next
    case (Disconnected conn)
    then show ?thesis using b(1) t(1) release_buffers [of "tcp_name conn" s] by (auto simp: onConnection_def)
  next
    case (Received e name d)
    then obtain c where "rtspConnMap s name = Some c" using assms(2) by (auto split: option.splits)
    moreover obtain outs where "onMessage e name d s = Inr (outs, t)" using t(1) Received by (auto simp: rbind_eq_Inr)
    ultimately show ?thesis using message_bound [OF b(2) _ _ b(1)] by blast
  next
    case (Frame fresh blocks now k chn frame)
    then show ?thesis using b(1) t(1) pushFrame_buffers by (auto simp: rbind_eq_Inr)
  next
    case (Task sent)
    then show ?thesis using b(1) t(1) run_task_buffers by (auto simp: rbind_eq_Inr)
  next
    case (AddSession ss)
    then show ?thesis using b(1) t(1) by (auto simp: addMediaSession_def)
  next
    case (RemoveSession k)
    then show ?thesis using b(1) t(1) by (auto simp: removeMediaSession_def split: option.splits)
  qed
  with t show ?thesis by (simp add: bounded_inv_def)
qed

interpretation bounded: transition_system server_step server_ok bounded_inv
  by unfold_locales (rule bounded_step)

text \<open>
  C29: No client can make the server hoard its input: in every admissible run each connection's
  unread input stays within 2048 bytes between messages, whatever the clients send.
\<close>

theorem input_stays_bounded:
  assumes "admissible server_step server_ok (RtspServer_new info) es"
    and "run_steps server_step (RtspServer_new info) es = Inr s"
  shows "readableBytes (inputBuffers s name) \<le> 2048"
proof -
  have "bounded_inv (RtspServer_new info)"
    using server_inv_init by (simp add: bounded_inv_def RtspServer_new_def Buffer_init_def readableBytes_def)
  from bounded.run_result_inv [OF this assms] show ?thesis by (simp add: bounded_inv_def MAX_RTSP_MESSAGE_SIZE_def)
qed

theorem input_stays_bounded_witness:
  "\<exists>s. run_steps server_step (RtspServer_new sample_info) sample_events = Inr s \<and> readableBytes (inputBuffers s ''RtspServer-0.0.0.0:554#1'') \<le> 2048"
proof -
  obtain s where s: "run_steps server_step (RtspServer_new sample_info) sample_events = Inr s"
    using server.run_inv [OF server_inv_init sample_events_ok] by blast
  from input_stays_bounded [OF sample_events_ok s] s show ?thesis by blast
qed

section \<open>How far a message reaches\<close>

text \<open>
  What a message may change of a session: its sender's object \<open>r\<close> is entered under the sender's descriptor \<open>fd\<close>, if
  nobody has an entry there, and a description that has not been made yet is made. Everything else stays.
\<close>

definition session_kept :: "int \<Rightarrow> nat \<Rightarrow> MediaSession \<Rightarrow> MediaSession \<Rightarrow> bool" where
  "session_kept fd r ss ss' \<longleftrightarrow>
     ms_id ss' = ms_id ss \<and> ms_suffix ss' = ms_suffix ss \<and> ms_sources ss' = ms_sources ss \<and> ms_notify ss' = ms_notify ss \<and>
     (ms_clients ss' = ms_clients ss \<or>
      map_of (ms_clients ss) fd = None \<and> ms_clients ss' = insort_key fst (fd, r) (ms_clients ss)) \<and>
     (ms_sdp ss' = ms_sdp ss \<or> ms_sdp ss = '''')"

text \<open>The object a connection owns, or the one that DESCRIBE makes for it.\<close>

definition own_object :: "RtspConnection \<Rightarrow> 'a Rtsp_scheme \<Rightarrow> nat" where
  "own_object c s = (case rtpConnPtr c of None \<Rightarrow> nextRtp s | Some r \<Rightarrow> r)"

abbreviation kept_for :: "RtspConnection \<Rightarrow> 'a Rtsp_scheme \<Rightarrow> MediaSession \<Rightarrow> MediaSession \<Rightarrow> bool" where
  "kept_for c s \<equiv> session_kept (tcp_fd (tcpConn c)) (own_object c s)"

definition touches :: "RtspConnection \<Rightarrow> 'a Rtsp_scheme \<Rightarrow> 'a Rtsp_scheme \<Rightarrow> bool" where
  "touches c s s' \<longleftrightarrow>
     nextRtp s \<le> nextRtp s' \<and>
     (\<forall>r < nextRtp s. rtpConnPtr c \<noteq> Some r \<longrightarrow> rtpConns s' r = rtpConns s r) \<and> rtspSuffixMap s' = rtspSuffixMap s \<and>
     (\<forall>k. rel_option (kept_for c s) (mediaSessions s k) (mediaSessions s' k)) \<and>
     (\<exists>k. \<forall>j. j \<noteq> k \<longrightarrow> mediaSessions s' j = mediaSessions s j) \<and> Rtsp.more s' = Rtsp.more s"

lemma session_kept_refl [simp]: "session_kept fd r ss ss"
  by (simp add: session_kept_def)

lemma rel_option_kept [simp]: "rel_option (session_kept fd r) x x"
  by (cases x) simp_all

lemma touches_refl [simp]: "touches c s s"
  by (simp add: touches_def)

lemma touches_put_rtp: "rtpConnPtr c = Some r \<Longrightarrow> touches c s (put_rtp r rtp s)"
  by (simp add: touches_def put_rtp_def)

lemma touches_request [simp]: "touches (c\<lparr>rtspRequest := req\<rparr>) = touches c"
  by (simp add: touches_def own_object_def fun_eq_iff)

lemma session_kept_described: "session_kept fd r ss (snd (getSdpMessage ip now v (snd (snd (addClient fd r ss)))))"
  by (simp add: session_kept_def addClient_def getSdpMessage_def Let_def)

lemma describe_touches:
  assumes "tables_inv s" "handleCmdDescribe e s c = Inr (outs, s', c')"
  shows "touches c s s'"
proof -
  obtain r s1 c1 where r: "ensure_rtp e s c = (r, s1, c1)" by (cases "ensure_rtp e s c")
  have s1: "mediaSessions s1 = mediaSessions s" "rtspSuffixMap s1 = rtspSuffixMap s" "Rtsp.more s1 = Rtsp.more s"
    "\<forall>x < nextRtp s. rtpConns s1 x = rtpConns s x" "nextRtp s \<le> nextRtp s1" "rtpConnPtr c1 = Some r" "rtpConnPtr c = Some r \<or> r = nextRtp s"
    "tcpConn c1 = tcpConn c" "own_object c s = r"
    using r by (auto simp: ensure_rtp_def own_object_def Let_def split: option.splits)
  show ?thesis
  proof (cases "lookMediaSession_suffix (getRtspUrlSuffix (rtspRequest c1)) s1")
    case None
    with assms(2) r have "s' = s1" by (simp add: handleCmdDescribe_def)
    then show ?thesis using s1 by (simp add: touches_def)
  next
    case (Some ss)
    have "tables_inv s1" using assms(1) tables_inv_frame [OF s1(1,2)] by simp
    from tables_look(1) [OF this Some] have k: "mediaSessions s (ms_id ss) = Some ss"
      using s1(1) by (simp add: lookMediaSession_id_def)
    let ?ss2 = "snd (getSdpMessage (env_ip e) (env_time e) (getVersion s1) (snd (snd (addClient (tcp_fd (tcpConn c1)) r ss))))"
    obtain x where "s' = put_rtp r x (put_session ?ss2 s1)"
      using assms(2) r Some s1(6) by (auto simp: handleCmdDescribe_def with_rtp_def Let_def split: option.splits)
    then show ?thesis
      using s1 k session_kept_described [of "tcp_fd (tcpConn c)" r ss]
      by (auto simp: touches_def put_rtp_def put_session_def intro: exI [of _ "ms_id ss"])
  qed
qed

lemma command_touches:
  assumes "tables_inv s" "handle_command e m s c = Inr (outs, s', c')"
  shows "touches c s s'"
proof (cases m)
  case DESCRIBE
  with describe_touches assms show ?thesis by (auto simp: handle_command_def)
next
  case SETUP
  with assms(2) have h: "handleCmdSetup e s c = Inr (outs, s', c')" by (simp add: handle_command_def)
  then have "s' = s \<or> (\<exists>r rtp. rtpConnPtr c = Some r \<and> s' = put_rtp r rtp s)"
    by (cases "req_transport (rtspRequest c)")
      (auto simp: handleCmdSetup_def with_rtp_def server_error_def Let_def split: option.splits prod.splits if_splits)
  then show ?thesis using touches_put_rtp by auto
qed (use assms(2) in \<open>auto simp: handle_command_def handleCmdOption_def handleCmdPlay_def handleCmdTeardown_def
    handleCmdGetParamter_def with_rtp_def Let_def touches_put_rtp split: option.splits\<close>)

lemma message_touches:
  assumes "tables_inv s" "handleRtspMessage e buf s c = Inr (outs, buf', s', c')" "connMode c = RTSP_SERVER"
  shows "touches c s s'"
proof -
  obtain ok b where "handleRtspRequest e buf s c = Inr (ok, outs, b, s', c')"
    using assms(2,3) by (auto simp: handleRtspMessage_def rbind_eq_Inr)
  then obtain ok1 b1 req where p: "parseRequest buf (rtspRequest c) = Inr (ok1, b1, req)"
    "s' = s \<or> (\<exists>o1 c1. handle_command e (req_method req) s (c\<lparr>rtspRequest := req\<rparr>) = Inr (o1, s', c1))"
    by (auto simp: handleRtspRequest_def rbind_eq_Inr Let_def split: if_splits prod.splits)
  then show ?thesis using command_touches [OF assms(1), of e "req_method req" "c\<lparr>rtspRequest := req\<rparr>"] by auto
qed

lemma onMessage_touches:
  assumes "server_inv s" "rtspConnMap s name = Some c" "onMessage e name d s = Inr (outs, s')"
  shows "\<exists>buf s1 c1. touches c s s1 \<and>
    s' = s1\<lparr>rtspConnMap := (rtspConnMap s1)(name \<mapsto> c1), inputBuffers := (inputBuffers s1)(name := buf)\<rparr>"
proof -
  obtain buf s1 c1 where h: "handleRtspMessage e (buf_append d (inputBuffers s name)) s c = Inr (outs, buf, s1, c1)"
    "s' = s1\<lparr>rtspConnMap := (rtspConnMap s1)(name \<mapsto> c1), inputBuffers := (inputBuffers s1)(name := buf)\<rparr>"
    using assms(2,3) by (auto simp: onMessage_def rbind_eq_Inr)
  have "shared_inv s" "connMode c = RTSP_SERVER"
    using server_inv_parts(1) [OF assms(1)] server_inv_parts(2) [OF assms(1,2)] by (simp_all add: conn_ok_def)
  then have "touches c s s1" using message_touches [OF _ h(1)] by (simp add: shared_inv_def)
  with h(2) show ?thesis by blast
qed

lemma onMessage_inv:
  assumes "server_inv s" "rtspConnMap s name = Some c" "onMessage e name d s = Inr (outs, s')"
  shows "server_inv s' \<and> rtspSuffixMap s' = rtspSuffixMap s \<and> (\<exists>c'. rtspConnMap s' name = Some c')"
proof -
  obtain buf s1 c1 where h: "touches c s s1"
    "s' = s1\<lparr>rtspConnMap := (rtspConnMap s1)(name \<mapsto> c1), inputBuffers := (inputBuffers s1)(name := buf)\<rparr>"
    using onMessage_touches [OF assms] by blast
  have "connMode c = RTSP_SERVER" using server_inv_parts(2) [OF assms(1,2)] by (simp add: conn_ok_def)
  then have "\<not> message_faults (buf_append d (inputBuffers s name)) c"
    using handleRtspMessage_fault [of c _ e s] assms(2,3) by (fastforce simp: onMessage_def)
  from server_inv_message [OF assms(1,2) this, of e] assms(3) h show ?thesis by (auto simp: touches_def)
qed

text \<open>
  C21: Clients are isolated from each other: whatever a client sends, if the server handles it without a fault, every
  other connection and its input, the RTP state of every other client, the queued tasks and the table of
  suffixes are as before; at most one session changes, and there at most the sender's own object is entered under the
  sender's own descriptor, where nobody was, and the session's description is made, if there was none.
\<close>

theorem clients_are_isolated:
  assumes "server_inv s" "rtspConnMap s name = Some c" "onMessage e name d s = Inr (outs, s')"
  shows "(\<forall>n. n \<noteq> name \<longrightarrow> rtspConnMap s' n = rtspConnMap s n \<and> inputBuffers s' n = inputBuffers s n) \<and>
    (\<forall>n c2 r. n \<noteq> name \<longrightarrow> rtspConnMap s n = Some c2 \<longrightarrow> rtpConnPtr c2 = Some r \<longrightarrow> rtpConns s' r = rtpConns s r) \<and>
    loopTasks s' = loopTasks s \<and> rtspSuffixMap s' = rtspSuffixMap s \<and>
    (\<forall>k. rel_option (session_kept (tcp_fd (tcpConn c)) (own_object c s)) (mediaSessions s k) (mediaSessions s' k)) \<and>
    (\<exists>k. \<forall>j. j \<noteq> k \<longrightarrow> mediaSessions s' j = mediaSessions s j)"
proof -
  obtain buf s1 c1 where t: "touches c s s1" and h:
    "s' = s1\<lparr>rtspConnMap := (rtspConnMap s1)(name \<mapsto> c1), inputBuffers := (inputBuffers s1)(name := buf)\<rparr>"
    using onMessage_touches [OF assms] by blast
  from t have more: "rtspConnMap s1 = rtspConnMap s" "inputBuffers s1 = inputBuffers s" "loopTasks s1 = loopTasks s"
    using more_eq unfolding touches_def by blast+
  have "rtpConns s' r = rtpConns s r" if o: "n \<noteq> name" "rtspConnMap s n = Some c2" "rtpConnPtr c2 = Some r" for n c2 r
  proof -
    have "r < nextRtp s" using server_inv_parts(2) [OF assms(1) o(2)] o(3) by (simp add: conn_ok_def)
    moreover have "rtpConnPtr c \<noteq> Some r" using server_inv_parts(3) [OF assms(1) o(2,3) assms(2)] o(1) by blast
    ultimately show ?thesis using t h by (simp add: touches_def)
  qed
  with t more h show ?thesis by (auto simp: touches_def)
qed

theorem clients_are_isolated_witness:
  "\<exists>outs s'. onMessage sample_env ''RtspServer-0.0.0.0:554#1'' (request_bytes W_DESCRIBE ''10.0.0.1'' 554 ''live'' 1 ''VLC'') opened_server = Inr (outs, s') \<and>
    loopTasks s' = [] \<and> rel_option (session_kept 9 0) (Some main_session) (mediaSessions s' 2)"
proof -
  have "agent_ok W_DESCRIBE ''VLC''" "\<not> premature opened_conn (fst (wire_method W_DESCRIBE))"
    by (simp_all add: agent_ok_def premature_def)
  then obtain outs s' where "onMessage sample_env ''RtspServer-0.0.0.0:554#1'' (request_bytes W_DESCRIBE ''10.0.0.1'' 554 ''live'' 1 ''VLC'') opened_server = Inr (outs, s')"
    using onMessage_request [OF opened_server_inv opened_idle sample_urls(1), of W_DESCRIBE "''VLC''" 554 1 sample_env]
    unfolding request_bytes_def by blast
  moreover have "own_object opened_conn opened_server = 0" "tcp_fd (tcpConn opened_conn) = 9"
    using opened_conn_fields opened_server_fields(5) by (simp_all add: own_object_def sample_tcp_def)
  ultimately show ?thesis
    using clients_are_isolated [OF opened_server_inv opened_server_fields(1)] opened_server_fields(2,4) by metis
qed

end
