(* ===== verification/Teardown.thy ===== *)
theory Teardown
  imports Server_Properties
begin

text \<open>
  After TEARDOWN: whatever the server goes on to do, the client is sent no more media.
\<close>

section \<open>The media a run sends\<close>



section \<open>A client that has been torn down\<close>










end
