(* ===== verification/Server_Faults.thy ===== *)
theory Server_Faults
  imports Server_Properties
begin

text \<open>
  Where the server's parts do not fit together: a packet task outlives its object, and a stale
  client entry shuts a new client out.
\<close>

section \<open>A task that outlives its client\<close>

lemma release_owner:
  assumes "rtspConnMap s name = Some c" "rtpConnPtr c = Some r" "tcp_name t = name"
  shows "\<exists>outs s'. onConnection False t memory m (s :: RtspServer) = (outs, s') \<and> rtpConns s' = (rtpConns s)(r := None) \<and> loopTasks s' = loopTasks s"
  using assms by (simp add: onConnection_def release_name_def destroy_conn_def)

text \<open>
  C34: A queued packet outlives its client: the closure \<open>sendRtpPacket\<close> posts to the loop holds the
  bare \<open>this\<close> pointer. If the only viewer of a session is disconnected after a frame has been pushed and before the
  loop has come to its tasks, the next task runs on the destroyed object.
\<close>

theorem task_outlives_client:
  assumes "server_inv s" "loopTasks s = []" "mediaSessions s k = Some ss" "ms_clients ss = [(fd, r)]" "watching s k chn r"
    and "rtspConnMap s name = Some c" "rtpConnPtr c = Some r"
    and "\<And>k r. length (fresh k r) = RTP_PACKET_BLOCK" "\<And>i. length (blocks i) = RTP_PACKET_BLOCK" "frame_wf frame"
  shows "\<exists>s1 outs s2. pushFrame fresh blocks now k chn frame s = Inr (True, s1) \<and>
    onConnection False (tcpConn c) memory m s1 = (outs, s2) \<and> run_task sent s2 = Inl NullDeref"
proof -
  have n: "getNumClient ss \<noteq> 0" using assms(4) by (simp add: getNumClient_def)
  have src: "ms_sources ss chn \<noteq> None" and live: "rtpConns s r \<noteq> None" using assms(3,5) by (auto simp: watching_def)
  have dl: "deliverable (rtpConns s) (rtpTcps s) r" using assms(5) by (auto simp: watching_def deliverable_def getId_def)
  obtain ps s1 pkts where p: "pushFrame fresh blocks now k chn frame s = Inr (True, s1)" "loopTasks s1 = loopTasks s @ ps"
    "rtpConns s1 = rtpConns s" "rtspConnMap s1 = rtspConnMap s" "last_flags (map pkt_last pkts)"
    "\<forall>r. tasks_of_packets chn (client_tasks r ps)
      (if r \<in> set (filter (deliverable (rtpConns s) (rtpTcps s)) (map snd (ms_clients ss))) then pkts else [])"
    using pushFrame_effect [where fresh = fresh and blocks = blocks and now = now and chn = chn and frame = frame,
      OF assms(1,3) src n assms(8-10)] by (elim exE conjE) (rule that)
  have "pkts \<noteq> []" using p(5) by auto
  then have "client_tasks r ps \<noteq> []"
    using spec [OF p(6), of r] dl assms(4) by (auto simp: tasks_of_packets_def)
  then obtain x rest where x: "ps = x # rest" by (cases ps) (simp_all add: client_tasks_def)
  obtain r' ch pkt where x': "x = (r', ch, pkt)" by (cases x)
  have "r' = r"
  proof (rule ccontr)
    assume "r' \<noteq> r"
    then have "r' \<notin> set (filter (deliverable (rtpConns s) (rtpTcps s)) (map snd (ms_clients ss)))" using assms(4) by simp
    with spec [OF p(6), of r'] have "client_tasks r' ps = []" by (simp only: if_False tasks_of_packets_def list_all2_Nil2)
    then show False using x x' by simp
  qed
  have nm: "tcp_name (tcpConn c) = name" using server_inv_parts(2) [OF assms(1,6)] by simp
  obtain outs s2 where "onConnection False (tcpConn c) memory m s1 = (outs, s2)" "rtpConns s2 = (rtpConns s1)(r := None)" "loopTasks s2 = loopTasks s1"
    using release_owner [of s1 name c r "tcpConn c" memory m] assms(6,7) p(4) nm by auto
  then show ?thesis
    using p(1,2) x x' \<open>r' = r\<close> assms(2) by (intro exI [of _ s1] exI [of _ outs] exI [of _ s2]) (simp add: run_task_def)
qed

theorem task_outlives_client_witness:
  "\<exists>rs t c s1 outs s2. exchange ''RtspServer-0.0.0.0:554#1'' sample_requests opened_server = Inr (rs, t) \<and> rtspConnMap t ''RtspServer-0.0.0.0:554#1'' = Some c \<and>
    pushFrame (\<lambda>_ _. replicate 1600 0) (\<lambda>_. replicate 1600 0) 0 2 channel_0 sample_frame t = Inr (True, s1) \<and>
    onConnection False (tcpConn c) (RtspRequest_init METHOD_NONE channel_0 RTP_OVER_TCP) C_NONE s1 = (outs, s2) \<and>
    run_task 0 s2 = Inl NullDeref"
proof -
  obtain rs t c rtp ss where t: "exchange ''RtspServer-0.0.0.0:554#1'' sample_requests opened_server = Inr (rs, t)" "server_inv t" "idle t ''RtspServer-0.0.0.0:554#1'' c"
    "rtpConnPtr c = Some 0" "watching t 2 channel_0 0" "rtpConns t 0 = Some rtp" "loopTasks t = []"
    "mediaSessions t 2 = Some ss" "ms_clients ss = [(9, 0)]"
    using sample_viewer by (elim exE conjE) (rule that)
  have c: "rtspConnMap t ''RtspServer-0.0.0.0:554#1'' = Some c" using t(3) by (simp add: idle_def)
  have b: "length (replicate 1600 0) = RTP_PACKET_BLOCK" by (simp add: RTP_PACKET_BLOCK_def)
  from task_outlives_client [where fresh = "\<lambda>_ _. replicate 1600 0" and blocks = "\<lambda>_. replicate 1600 0" and now = 0 and sent = 0
      and memory = "RtspRequest_init METHOD_NONE channel_0 RTP_OVER_TCP" and m = C_NONE,
      OF t(2,7,8,9,5) c t(4) b b sample_frame_wf(1)] t(1) c
  show ?thesis by blast
qed

section \<open>A stale client entry\<close>

text \<open>
  C35: A stale client entry shuts a new client out: \<open>removeClient\<close> is called by nobody, so the entry
  of a client that has gone stays under its descriptor until the next frame. A new client on that
  descriptor that sends DESCRIBE meanwhile is answered 200 with the session's description, but
  \<open>addClient\<close> refuses it, the answer is not looked at, and the client's object is not in the list, so no
  frame will ever be sent to it.
\<close>

theorem stale_entry_shuts_out:
  assumes "server_inv s" "idle s name c" "rtpConnPtr c = None" "valid_url ip suffix"
    and "lookMediaSession_suffix suffix s = Some ss" "map_of (ms_clients ss) (tcp_fd (tcpConn c)) = Some old"
  shows "\<exists>outs m s' c' r ss'. onMessage e name (request_bytes W_DESCRIBE ip port suffix cseq agent) s = Inr (outs, s') \<and>
    replies outs = [m] \<and> reply_status m = ''200'' \<and> idle s' name c' \<and> rtpConnPtr c' = Some r \<and> sessionId c' = ms_id ss \<and>
    mediaSessions s' (ms_id ss) = Some ss' \<and> ms_clients ss' = ms_clients ss \<and> r \<notin> snd ` set (ms_clients ss')"
proof -
  obtain outs m s' c' ss' where d: "onMessage e name (request_bytes W_DESCRIBE ip port suffix cseq agent) s = Inr (outs, s')"
    "replies outs = [m]" "reply_status m = ''200''" "idle s' name c'" "rtpConnPtr c' = Some (nextRtp s)" "sessionId c' = ms_id ss"
    "mediaSessions s' (ms_id ss) = Some ss'" "ms_clients ss' = ms_clients (snd (snd (addClient (tcp_fd (tcpConn c)) (nextRtp s) ss)))"
    using describe_step [OF assms(1-5), of e port cseq agent] by (elim exE conjE) (rule that)
  have same: "ms_clients ss' = ms_clients ss" using d(8) assms(6) by (simp add: addClient_def)
  have "clients_ok s ss"
    using server_inv_parts(1) [OF assms(1)] tables_look(1) [OF _ assms(5)] by (auto simp: shared_inv_def lookMediaSession_id_def)
  then have "nextRtp s \<notin> snd ` set (ms_clients ss)" by (force simp: clients_ok_def)
  with d same show ?thesis by (intro exI [of _ outs] exI [of _ m] exI [of _ s'] exI [of _ c'] exI [of _ "nextRtp s"] exI [of _ ss']) simp
qed

definition next_tcp :: tcp_ref where
  "next_tcp = \<lparr>tcp_fd = 9, tcp_name = ''conn#2''\<rparr>"

lemma exchange_inv:
  "server_inv s \<Longrightarrow> rtspConnMap s name = Some c \<Longrightarrow> exchange name ms s = Inr (rs, t) \<Longrightarrow>
     server_inv t \<and> rtspSuffixMap t = rtspSuffixMap s"
proof (induction ms arbitrary: s c rs)
  case Nil
  then show ?case by simp
next
  case (Cons m ms)
  obtain e d where m: "m = (e, d)" by (cases m)
  obtain outs s1 rs1 where x: "onMessage e name d s = Inr (outs, s1)" "exchange name ms s1 = Inr (rs1, t)"
    using Cons.prems(3) m by (auto simp: rbind_eq_Inr)
  from onMessage_inv [OF Cons.prems(1,2) x(1)] obtain c1 where s1: "server_inv s1" "rtspSuffixMap s1 = rtspSuffixMap s" "rtspConnMap s1 name = Some c1"
    by blast
  from Cons.IH [OF s1(1,3) x(2)] s1(2) show ?case by simp
qed

text \<open>The sample viewer disconnects, and the next client gets its descriptor.\<close>

lemma reconnected:
  "\<exists>s c ss. server_inv s \<and> idle s ''conn#2'' c \<and> rtpConnPtr c = None \<and> tcpConn c = next_tcp \<and>
     lookMediaSession_suffix ''live'' s = Some ss \<and> ms_clients ss = [(9, 0)] \<and> rtpConns s 0 = None"
proof -
  let ?m = "RtspRequest_init METHOD_NONE channel_0 RTP_OVER_TCP"
  obtain rs t c rtp ss where t: "server_inv t" "idle t ''RtspServer-0.0.0.0:554#1'' c" "rtpConnPtr c = Some 0" "mediaSessions t 2 = Some ss" "ms_clients ss = [(9, 0)]"
    "tcpConn c = sample_tcp" "exchange ''RtspServer-0.0.0.0:554#1'' sample_requests opened_server = Inr (rs, t)"
    using sample_viewer by (elim exE conjE) (rule that)
  define s1 where "s1 = snd (onConnection False sample_tcp ?m C_NONE t)"
  define s2 where "s2 = snd (onConnection True next_tcp ?m C_NONE s1)"
  have inv: "server_inv s2" unfolding s2_def s1_def by (intro server_inv_connect t(1))
  have m1: "rtpConns s1 = (rtpConns t)(0 := None)" "mediaSessions s1 = mediaSessions t" "rtspSuffixMap s1 = rtspSuffixMap t"
    using t(2,3) by (simp_all add: s1_def onConnection_def release_name_def destroy_conn_def idle_def sample_tcp_def)
  have keep: "mediaSessions (snd (release_name x s1)) = mediaSessions s1" "rtspSuffixMap (snd (release_name x s1)) = rtspSuffixMap s1"
    "rtpConns s1 0 = None \<Longrightarrow> rtpConns (snd (release_name x s1)) 0 = None" for x
    by (auto simp: release_name_def destroy_conn_def split: option.splits)
  have s2: "idle s2 ''conn#2'' (RtspConnection_new ?m C_NONE next_tcp)" "mediaSessions s2 = mediaSessions t"
    "rtspSuffixMap s2 = rtspSuffixMap t" "rtpConns s2 0 = None"
    using keep [of "''conn#2''"] m1
    by (simp_all add: s2_def onConnection_def next_tcp_def idle_def RtspConnection_new_def fresh_init inv_intros buf_simps case_prod_unfold Let_def)
  have "rtspSuffixMap t ''live'' = Some 2"
    using exchange_inv [OF opened_server_inv opened_server_fields(1) t(7)] opened_server_suffix by simp
  then have "lookMediaSession_suffix ''live'' s2 = Some ss" using s2(2,3) t(4) by (simp add: lookMediaSession_suffix_def)
  moreover have "rtpConnPtr (RtspConnection_new ?m C_NONE next_tcp) = None" "tcpConn (RtspConnection_new ?m C_NONE next_tcp) = next_tcp"
    by (simp_all add: RtspConnection_new_def)
  ultimately show ?thesis using inv s2 t(5) by blast
qed

theorem stale_entry_shuts_out_witness:
  "\<exists>s outs m s' c' r ss'. onMessage sample_env ''conn#2'' (request_bytes W_DESCRIBE ''10.0.0.1'' 554 ''live'' 1 ''VLC'') s = Inr (outs, s') \<and>
    replies outs = [m] \<and> reply_status m = ''200'' \<and> rtspConnMap s' ''conn#2'' = Some c' \<and> rtpConnPtr c' = Some r \<and>
    mediaSessions s' (sessionId c') = Some ss' \<and> r \<notin> snd ` set (ms_clients ss')"
proof -
  obtain s c ss where s: "server_inv s" "idle s ''conn#2'' c" "rtpConnPtr c = None" "tcpConn c = next_tcp"
    "lookMediaSession_suffix ''live'' s = Some ss" "ms_clients ss = [(9, 0)]"
    using reconnected by blast
  have fd: "map_of (ms_clients ss) (tcp_fd (tcpConn c)) = Some 0" using s(4,6) by (simp add: next_tcp_def)
  obtain outs m s' c' r ss' where
    "onMessage sample_env ''conn#2'' (request_bytes W_DESCRIBE ''10.0.0.1'' 554 ''live'' 1 ''VLC'') s = Inr (outs, s')"
    "replies outs = [m]" "reply_status m = ''200''" "idle s' ''conn#2'' c'" "rtpConnPtr c' = Some r" "sessionId c' = ms_id ss"
    "mediaSessions s' (ms_id ss) = Some ss'" "r \<notin> snd ` set (ms_clients ss')"
    using stale_entry_shuts_out [OF s(1-3) sample_urls(1) s(5) fd, of sample_env 554 1 "''VLC''"] by (elim exE conjE) (rule that)
  then show ?thesis unfolding idle_def by metis
qed

end
