(* ===== verification/Server_Rtcp.thy ===== *)
theory Server_Rtcp
  imports Server_Properties
begin

text \<open>
  RTCP packets a viewer interleaves with its requests (RFC 2326, 10.12): \<open>parseRequest\<close> knows them by
  their dollar sign and \<open>handleRtcp\<close> is to skip them. Two situations it does not get right.
\<close>

section \<open>Packets on the wire\<close>

text \<open>Dollar sign, channel, length in network byte order, packet.\<close>

definition interleaved :: "byte \<Rightarrow> byte list \<Rightarrow> byte list" where
  "interleaved ch payload = [byte_of_char CHR ''$'', ch, word_of_nat (length payload div 256), word_of_nat (length payload)] @ payload"

lemma length_interleaved [simp]: "length (interleaved ch payload) = 4 + length payload"
  by (simp add: interleaved_def)


lemma rtcp_size_small:
  assumes "n < 128"
  shows "unat (rtcp_size (word_of_nat (n div 256)) (word_of_nat n) + 4) = n + 4"
proof -
  have s: "sint (word_of_nat n :: byte) = int n"
    using assms by (simp add: signed_of_nat signed_take_bit_int_eq_self)
  have "scast (word_of_nat n :: byte) = (word_of_nat n :: u32)"
    using s by (simp add: scast_eq)
  then have "rtcp_size (word_of_nat (n div 256)) (word_of_nat n) = word_of_nat n"
    using assms by (simp add: rtcp_size_def)
  then have "rtcp_size (word_of_nat (n div 256)) (word_of_nat n) + 4 = word_of_nat (n + 4)" by simp
  then show ?thesis using assms by (simp only: unat_of_nat) simp
qed

section \<open>A packet with something behind it\<close>

lemma handleRtcp_followed:
  assumes "buffer_inv b" "toStringPiece b = interleaved ch payload @ rest" "length payload < 128" "rest \<noteq> []"
  shows "handleRtcp b = Inr b"
proof -
  have p: "peek_at i b = Inr (interleaved ch payload ! i)" if "i < 4" for i
    using peek_at_prefix [OF assms(1,2), of i] that by simp
  have n: "readableBytes b = 4 + length payload + length rest"
    using length_contents [OF assms(1)] assms(2) by simp
  have "unat (rtcp_size (word_of_nat (length payload div 256)) (word_of_nat (length payload)) + 4) < readableBytes b"
    using rtcp_size_small [OF assms(3)] assms(4) n by simp
  then show ?thesis
    using p [of 0] p [of 2] p [of 3] n by (simp add: handleRtcp_def interleaved_def Let_def)
qed

lemma stuck_step:
  assumes "server_inv s" "rtspConnMap s name = Some c" "toStringPiece (inputBuffers s name) @ d = interleaved ch payload @ rest"
    and "length payload < 128" "rest \<noteq> []" "length (interleaved ch payload @ rest) \<le> MAX_RTSP_MESSAGE_SIZE"
  shows "\<exists>s' c'. onMessage e name d s = Inr ([], s') \<and> server_inv s' \<and> rtspConnMap s' name = Some c' \<and>
    toStringPiece (inputBuffers s' name) = interleaved ch payload @ rest"
proof -
  let ?b = "buf_append d (inputBuffers s name)"
  have "buffer_inv (inputBuffers s name)" using server_inv_parts(4) [OF assms(1)] by (simp add: input_ok_def)
  then have b: "buffer_inv ?b" "toStringPiece ?b = interleaved ch payload @ rest"
    using assms(3) by (simp_all add: inv_intros buf_simps)
  have "peek_at 0 ?b = Inr (byte_of_char CHR ''$'')"
    using peek_at_prefix [OF b, of 0] by (simp add: interleaved_def)
  then have p: "parseRequest ?b (rtspRequest c) = Inr (True, ?b, (rtspRequest c)\<lparr>req_method := RTCP\<rparr>)"
    by (simp add: parseRequest_def)
  have "readableBytes ?b \<le> MAX_RTSP_MESSAGE_SIZE" using length_contents [OF b(1)] b(2) assms(6) by simp
  moreover have "connMode c = RTSP_SERVER" using server_inv_parts(2) [OF assms(1,2)] by (simp add: conn_ok_def)
  ultimately have h: "handleRtspMessage e ?b s c = Inr ([], ?b, s, c\<lparr>rtspRequest := (rtspRequest c)\<lparr>req_method := RTCP\<rparr>\<rparr>)"
    using p handleRtcp_followed [OF b assms(4,5)] by (simp add: handleRtspMessage_def handleRtspRequest_def Let_def)
  define s' where "s' = s\<lparr>rtspConnMap := (rtspConnMap s)(name \<mapsto> c\<lparr>rtspRequest := (rtspRequest c)\<lparr>req_method := RTCP\<rparr>\<rparr>),
      inputBuffers := (inputBuffers s)(name := ?b)\<rparr>"
  have o: "onMessage e name d s = Inr ([], s')" using assms(2) h by (simp add: onMessage_def s'_def)
  from onMessage_inv [OF assms(1,2) o] o b(2) show ?thesis by (auto simp: s'_def)
qed

lemma stuck_exchange:
  assumes "length payload < 128" "rest \<noteq> []"
  shows "server_inv s \<Longrightarrow> rtspConnMap s name = Some c \<Longrightarrow> toStringPiece (inputBuffers s name) = interleaved ch payload @ rest \<Longrightarrow>
    length (interleaved ch payload @ rest @ concat (map snd ms)) \<le> MAX_RTSP_MESSAGE_SIZE \<Longrightarrow>
    \<exists>t. exchange name ms s = Inr (map (\<lambda>m. []) ms, t) \<and> toStringPiece (inputBuffers t name) = interleaved ch payload @ rest @ concat (map snd ms)"
  using assms(2)
proof (induction ms arbitrary: s c rest)
  case Nil
  then show ?case by simp
next
  case (Cons m ms)
  obtain e d where m: "m = (e, d)" by (cases m)
  have x: "toStringPiece (inputBuffers s name) @ d = interleaved ch payload @ (rest @ d)" "rest @ d \<noteq> []"
    "length (interleaved ch payload @ rest @ d) \<le> MAX_RTSP_MESSAGE_SIZE"
    using Cons.prems(3-5) m by simp_all
  obtain s1 c1 where s1: "onMessage e name d s = Inr ([], s1)" "server_inv s1" "rtspConnMap s1 name = Some c1"
    "toStringPiece (inputBuffers s1 name) = interleaved ch payload @ (rest @ d)"
    using stuck_step [OF Cons.prems(1,2) x(1) assms(1) x(2,3)] by blast
  have "length (interleaved ch payload @ (rest @ d) @ concat (map snd ms)) \<le> MAX_RTSP_MESSAGE_SIZE" using Cons.prems(4) m by simp
  from Cons.IH [OF s1(2-4) this x(2)] s1(1) m show ?case by auto
qed

text \<open>
  C36: A short RTCP packet with anything behind it blocks the connection: \<open>handleRtcp\<close> drops a packet only
  when it ends the input (the comparison of its length with what is readable is the wrong way round). So when,
  on a connection with empty input, an RTCP packet of less than 128 bytes arrives with a request, or the next packet, behind it
  in the same read, nothing is consumed, and
  whatever the client sends from then on is neither consumed nor answered, as long as the input fits 2048 bytes
  (after that \<open>handleRtspMessage\<close> throws all of it away). A length byte of 128 or more is sign-extended, and the packet is taken for
  a far longer one: that is not the subject here.
\<close>

theorem rtcp_blocks_requests:
  assumes "server_inv s" "rtspConnMap s name = Some c" "toStringPiece (inputBuffers s name) = []"
    and "length payload < 128" "rest \<noteq> []" "length (interleaved ch payload @ rest @ concat (map snd ms)) \<le> 2048"
  shows "\<exists>t. exchange name ((e, interleaved ch payload @ rest) # ms) s = Inr (map (\<lambda>m. []) ((e, interleaved ch payload @ rest) # ms), t) \<and>
    toStringPiece (inputBuffers t name) = interleaved ch payload @ rest @ concat (map snd ms)"
proof -
  have x: "toStringPiece (inputBuffers s name) @ interleaved ch payload @ rest = interleaved ch payload @ rest"
    "length (interleaved ch payload @ rest) \<le> MAX_RTSP_MESSAGE_SIZE"
    using assms(3,6) by (simp_all add: MAX_RTSP_MESSAGE_SIZE_def)
  obtain s1 c1 where s1: "onMessage e name (interleaved ch payload @ rest) s = Inr ([], s1)" "server_inv s1" "rtspConnMap s1 name = Some c1"
    "toStringPiece (inputBuffers s1 name) = interleaved ch payload @ rest"
    using stuck_step [OF assms(1,2) x(1) assms(4,5) x(2)] by blast
  from stuck_exchange [OF assms(4,5) s1(2-4), of ms] assms(6) s1(1) show ?thesis by (auto simp: MAX_RTSP_MESSAGE_SIZE_def)
qed

theorem rtcp_blocks_requests_witness:
  "\<exists>t. exchange ''RtspServer-0.0.0.0:554#1'' [(sample_env, interleaved 1 (replicate 8 0x81) @ bytes_of ''OPTIONS''), (sample_env, bytes_of ''*'')] opened_server =
    Inr ([[], []], t)"
proof -
  have i: "toStringPiece (inputBuffers opened_server ''RtspServer-0.0.0.0:554#1'') = []" using opened_idle by (simp add: idle_def)
  show ?thesis
    using rtcp_blocks_requests [OF opened_server_inv opened_server_fields(1) i, of "replicate 8 0x81" "bytes_of ''OPTIONS''" 1
        "[(sample_env, bytes_of ''*'')]" sample_env]
    by auto
qed

section \<open>A packet inside a request\<close>

definition wedged :: "RtspRequest \<Rightarrow> bool" where
  "wedged r \<longleftrightarrow> parse_state r = kParseHeadersLine \<and> req_method r = RTCP"

lemma parseHeadersLine_wedged: "wedged r \<Longrightarrow> parseHeadersLine s r = (ok, r') \<Longrightarrow> wedged r'"
  using parseCSeq_frame [of s r] by (auto simp: wedged_def parseHeadersLine_def split: prod.splits if_splits)

lemma headers_turn_wedged: "wedged r \<Longrightarrow> headers_turn ret b r = Inr (ok, b', r') \<Longrightarrow> wedged r'"
  using parseHeadersLine_wedged by (auto simp: headers_turn_def rbind_eq_Inr split: option.splits prod.splits)

lemma parseRequest_wedged:
  assumes "wedged r" "parseRequest b r = Inr (ok, b', r')"
  shows "wedged r'"
  using assms headers_turn_wedged [OF assms(1)]
  by (auto simp: parseRequest_def rbind_eq_Inr wedged_def split: if_splits)

lemma rtcp_message:
  assumes "server_inv s" "rtspConnMap s name = Some c" "parseRequest (buf_append d (inputBuffers s name)) (rtspRequest c) = Inr (ok, b, r)"
    and "req_method r = RTCP" "onMessage e name d s = Inr (outs, s')"
  shows "outs = [] \<and> server_inv s' \<and> (\<exists>c'. rtspConnMap s' name = Some c' \<and> rtspRequest c' = r)"
proof -
  have mode: "connMode c = RTSP_SERVER" using server_inv_parts(2) [OF assms(1,2)] by (simp add: conn_ok_def)
  obtain b' where "outs = []"
      "s' = s\<lparr>rtspConnMap := (rtspConnMap s)(name \<mapsto> c\<lparr>rtspRequest := r\<rparr>), inputBuffers := (inputBuffers s)(name := b')\<rparr>"
    using assms(2-5) mode
    by (cases ok) (auto simp: onMessage_def handleRtspMessage_def handleRtspRequest_def Let_def rbind_eq_Inr)
  then show ?thesis using onMessage_inv [OF assms(1,2,5)] by auto
qed

lemma wedged_exchange:
  "server_inv s \<Longrightarrow> rtspConnMap s name = Some c \<Longrightarrow> wedged (rtspRequest c) \<Longrightarrow> exchange name ms s = Inr (rs, t) \<Longrightarrow> concat rs = []"
proof (induction ms arbitrary: s c rs)
  case Nil
  then show ?case by simp
next
  case (Cons m ms)
  obtain e d where m: "m = (e, d)" by (cases m)
  obtain outs s1 rs1 where x: "onMessage e name d s = Inr (outs, s1)" "exchange name ms s1 = Inr (rs1, t)" "rs = replies outs # rs1"
    using Cons.prems(4) m by (auto simp: rbind_eq_Inr)
  have "connMode c = RTSP_SERVER" using server_inv_parts(2) [OF Cons.prems(1,2)] by (simp add: conn_ok_def)
  then obtain ok b r where p: "parseRequest (buf_append d (inputBuffers s name)) (rtspRequest c) = Inr (ok, b, r)"
    using x(1) Cons.prems(2) by (auto simp: onMessage_def handleRtspMessage_def handleRtspRequest_def rbind_eq_Inr)
  have "wedged r" using parseRequest_wedged [OF Cons.prems(3) p] .
  then have "req_method r = RTCP" by (simp add: wedged_def)
  from rtcp_message [OF Cons.prems(1,2) p this x(1)] obtain c1 where
    s1: "outs = []" "server_inv s1" "rtspConnMap s1 name = Some c1" "rtspRequest c1 = r" by blast
  from Cons.IH [OF s1(2,3) _ x(2)] s1(1,4) \<open>wedged r\<close> x(3) show ?case by simp
qed

lemma request_line_step:
  assumes "server_inv s" "idle s name c" "valid_url ip suffix"
  shows "\<exists>s' c'. onMessage e name (bytes_of (request_line w (url_text ip port suffix) @ crlf)) s = Inr ([], s') \<and> server_inv s' \<and>
    rtspConnMap s' name = Some c' \<and> parse_state (rtspRequest c') = kParseHeadersLine \<and> toStringPiece (inputBuffers s' name) = []"
proof -
  let ?d = "bytes_of (request_line w (url_text ip port suffix) @ crlf)"
  let ?b = "buf_append ?d (inputBuffers s name)"
  let ?r = "after_line w (url_text ip port suffix) ip port suffix (rtspRequest c)"
  have c: "rtspConnMap s name = Some c" "fresh_request (rtspRequest c)" "toStringPiece (inputBuffers s name) = []"
    using assms(2) by (simp_all add: idle_def)
  have "buffer_inv (inputBuffers s name)" using server_inv_parts(4) [OF assms(1)] by (simp add: input_ok_def)
  then have b: "buffer_inv ?b" "toStringPiece ?b = bytes_of (request_line w (url_text ip port suffix) @ crlf @ [])"
    using c(3) by (simp_all add: inv_intros buf_simps del: map_map)
  obtain b1 where b1: "request_turn ?b (rtspRequest c) = Inr (True, b1, ?r)" "buffer_inv b1" "toStringPiece b1 = bytes_of []"
    using request_turn_line [OF b assms(3) c(2)] by blast
  have empty: "toStringPiece b1 = []" "readableBytes b1 = 0" using b1(3) length_contents [OF b1(2)] by simp_all
  have "headers_turn True b1 ?r = Inr (True, b1, ?r)"
    using findLastCRLF_empty [OF b1(2) empty(1)] by (simp add: headers_turn_def)
  moreover obtain c0 where "peek_at 0 ?b = Inr c0" "c0 \<noteq> byte_of_char CHR ''$''"
    using first_byte_of_line [of ?b w "url_text ip port suffix" "crlf @ []"] b by auto
  ultimately have p: "parseRequest ?b (rtspRequest c) = Inr (True, b1, ?r)"
    using b1(1) c(2) by (simp add: parseRequest_def fresh_request_def after_line_def)
  have mode: "connMode c = RTSP_SERVER" using server_inv_parts(2) [OF assms(1) c(1)] by (simp add: conn_ok_def)
  have m: "fst (wire_method w) \<noteq> RTCP" by (cases w) simp_all
  have "handleRtspMessage e ?b s c = Inr ([], b1, s, c\<lparr>rtspRequest := ?r\<rparr>)"
    using p mode m empty(2) by (simp add: handleRtspMessage_def handleRtspRequest_def Let_def after_line_def gotAll_def MAX_RTSP_MESSAGE_SIZE_def)
  then have o: "onMessage e name ?d s = Inr ([], s\<lparr>rtspConnMap := (rtspConnMap s)(name \<mapsto> c\<lparr>rtspRequest := ?r\<rparr>),
      inputBuffers := (inputBuffers s)(name := b1)\<rparr>)"
    using c(1) by (simp add: onMessage_def)
  from onMessage_inv [OF assms(1) c(1) o] o empty(1) show ?thesis by (auto simp: after_line_def)
qed

text \<open>
  An RTCP packet inside a request wedges the connection for good: if the line of a request arrives, and the next
  thing the server reads begins with a dollar sign, the request's method becomes \<open>RTCP\<close> while the parser stays in
  \<open>kParseHeadersLine\<close>, which only the handling of a complete request could leave. Whatever the client sends
  afterwards, the server answers none of it, as long as no message faults.
\<close>

theorem rtcp_inside_request_wedges:
  assumes "server_inv s" "idle s name c" "valid_url ip suffix"
    and "exchange name ((e1, bytes_of (request_line w (url_text ip port suffix) @ crlf)) # (e2, bytes_of (CHR ''$'' # packet)) # ms) s = Inr (rs, t)"
  shows "concat rs = []"
proof -
  let ?p = "bytes_of (CHR ''$'' # packet)"
  obtain s1 c1 where s1: "onMessage e1 name (bytes_of (request_line w (url_text ip port suffix) @ crlf)) s = Inr ([], s1)" "server_inv s1"
    "rtspConnMap s1 name = Some c1" "parse_state (rtspRequest c1) = kParseHeadersLine" "toStringPiece (inputBuffers s1 name) = []"
    using request_line_step [OF assms(1-3)] by blast
  obtain outs s2 rs2 where x: "onMessage e2 name ?p s1 = Inr (outs, s2)" "exchange name ms s2 = Inr (rs2, t)" "rs = [] # replies outs # rs2"
    using assms(4) s1(1) by (auto simp: rbind_eq_Inr simp del: list.map)
  let ?b = "buf_append ?p (inputBuffers s1 name)"
  have "buffer_inv (inputBuffers s1 name)" using server_inv_parts(4) [OF s1(2)] by (simp add: input_ok_def)
  then have "buffer_inv ?b" "toStringPiece ?b = ?p"
    using s1(5) by (simp_all add: inv_intros buf_simps del: map_map list.map)
  then have "peek_at 0 ?b = Inr (byte_of_char CHR ''$'')" by (rule peek_at_text)
  then have p: "parseRequest ?b (rtspRequest c1) = Inr (True, ?b, (rtspRequest c1)\<lparr>req_method := RTCP\<rparr>)" by (simp add: parseRequest_def)
  obtain c2 where s2: "outs = []" "server_inv s2" "rtspConnMap s2 name = Some c2" "rtspRequest c2 = (rtspRequest c1)\<lparr>req_method := RTCP\<rparr>"
    using rtcp_message [OF s1(2,3) p _ x(1)] by auto
  have "wedged (rtspRequest c2)" using s2(4) s1(4) by (simp add: wedged_def)
  from wedged_exchange [OF s2(2,3) this x(2)] x(3) s2(1) show ?thesis by simp
qed

end
