(* ===== verification/File_Playback.thy ===== *)
theory File_Playback
  imports Viewer_Dialogue
begin

text \<open>
  End to end: what the thread of \<open>main\<close> reads from the H.264 file is what a client that plays the
  session decodes.
\<close>

section \<open>Frames of the file\<close>

lemma next_frame_read:
  assumes "reader_at file p h" "length file < 2 ^ 31" "length (filebuf h) \<le> bufSize" "file ! p = 0"
    and "readFrame file bufSize h = Inr (r, h')" "0 < fr_ret r"
  shows "\<exists>f. next_frame file count h = Inr (Some f, h') \<and> frame_wf f \<and> frame_type f = 0 \<and> frame_buffer f = fr_bytes r \<and>
    nal_type (fr_bytes r) = 0"
proof -
  obtain n where n: "0 < n" "fr_ret r = int n" "fr_bytes r = segment p (p + n) file" "p + n \<le> length file"
    using readFrame_step [OF assms(1-3)] assms(5,6) by (auto simp: frame_none_def)
  have len: "length (fr_bytes r) = n" using n(3,4) by simp
  have hd: "hd (fr_bytes r) = 0" using n assms(4) by (simp add: hd_conv_nth segment_def)
  have b: "fr_bytes r \<noteq> []" using len n(1) by auto
  let ?f = "(AVFrame_init 0 [])\<lparr>frame_size := word_of_int (fr_ret r), frame_timestamp := getTimestamp count, frame_buffer := fr_bytes r\<rparr>"
  have "unat (word_of_int (fr_ret r) :: u32) = n"
    using n(2,4) assms(2) by (simp add: unat_of_nat)
  then have "frame_wf ?f"
    using b len n(4) assms(2) by (simp add: frame_wf_def)
  then show ?thesis
    using assms(5,6) hd by (intro exI [of _ ?f]) (simp add: next_frame_def AVFrame_init_def nal_type_def)
qed

text \<open>
  What a viewer whose receiver accepts some NAL unit types gets from what it was sent in one turn, and
  what it gets of a frame the thread pushes: such a frame begins with its start code, so its first byte, which is sent as
  the NAL header, has type 0. A receiver that lets any type pass gets the frame; one of RFC 3984 gets nothing.
\<close>

definition viewer_gets :: "(nat \<Rightarrow> bool) \<Rightarrow> RtpConnection \<Rightarrow> rtp_out list \<Rightarrow> byte list list \<Rightarrow> bool" where
  "viewer_gets accept c outs us \<longleftrightarrow> (\<exists>vs. received c channel_0 outs vs \<and> receive_nals accept None (map v_payload vs) = Some us)"

definition decoded :: "RtpConnection \<Rightarrow> rtp_out list \<Rightarrow> byte list \<Rightarrow> bool" where
  "decoded c outs f \<longleftrightarrow> viewer_gets (\<lambda>t. True) c outs [f] \<and> viewer_gets rfc3984_type c outs []"

lemma decoded_settings: "same_settings c c' \<Longrightarrow> decoded c' = decoded c"
  by (simp add: decoded_def viewer_gets_def received_def same_settings_def fun_eq_iff)

lemma decodedI:
  "received c channel_0 outs vs \<Longrightarrow> decodes_to vs (stamp now f) n \<Longrightarrow> nal_type (frame_buffer f) = 0 \<Longrightarrow> decoded c outs (frame_buffer f)"
  by (auto simp: decoded_def viewer_gets_def decodes_to_def reassembles_def rfc3984_type_def intro!: exI [of _ vs])

definition plays :: "RtspServer \<Rightarrow> MediaSessionId \<Rightarrow> nat \<Rightarrow> bool" where
  "plays s k r \<longleftrightarrow> server_inv s \<and> loopTasks s = [] \<and> watching s k channel_0 r \<and>
     (\<exists>ss. mediaSessions s k = Some ss \<and> length (ms_clients ss) < 2 ^ 32)"

lemma thread_turn:
  assumes "plays s k r" "rtpConns s r = Some c" "0 \<le> sent"
    and "\<And>k r. length (fresh k r) = RTP_PACKET_BLOCK" "\<And>i. length (blocks i) = RTP_PACKET_BLOCK" "frame_wf f" "frame_type f = 0" "nal_type (frame_buffer f) = 0"
  shows "\<exists>s1 outs s2 c'. pushFrame fresh blocks now k channel_0 f s = Inr (True, s1) \<and> drain sent s1 = Inr (outs, s2) \<and>
    decoded c (outputs_of r outs) (frame_buffer f) \<and> plays s2 k r \<and> rtpConns s2 r = Some c' \<and> same_settings c c'"
proof -
  obtain ss where ss: "mediaSessions s k = Some ss" "length (ms_clients ss) < 2 ^ 32" and p: "server_inv s" "loopTasks s = []" "watching s k channel_0 r"
    using assms(1) by (auto simp: plays_def)
  have "ms_clients ss \<noteq> []" using p(3) ss(1) by (auto simp: watching_def)
  moreover have "unat (getNumClient ss) = length (ms_clients ss)"
    using ss(2) by (simp add: getNumClient_def unat_of_nat)
  ultimately have num: "getNumClient ss \<noteq> 0" by auto
  have plain: "plain_unit (frame_buffer f)" using assms(8) by (simp add: plain_unit_def structured_type_def)
  have idr: "hasIDRFrame c \<or> frame_type f = 0 \<or> frame_type f = frame_type_code VIDEO_FRAME_I" using assms(7) by simp
  obtain s1 outs s2 vs c' where t: "pushFrame fresh blocks now k channel_0 f s = Inr (True, s1)" "drain sent s1 = Inr (outs, s2)"
    "received c channel_0 (outputs_of r outs) vs" "decodes_to vs (stamp now f) (packetSeq (mediaChannelInfo c channel_0))"
    "server_inv s2" "loopTasks s2 = []" "watching s2 k channel_0 r" "rtpConns s2 r = Some c'" "same_settings c c'"
    "mediaSessions s2 k = Some (ss\<lparr>ms_clients := filter (\<lambda>(fd, r). rtpConns s r \<noteq> None) (ms_clients ss)\<rparr>)"
    using frame_delivery [where fresh = fresh and blocks = blocks and now = now and chn = channel_0 and frame = f,
        OF p ss(1) num assms(4-6,3,2) idr plain] by (elim exE conjE) (rule that)
  have "length (filter (\<lambda>(fd, r). rtpConns s r \<noteq> None) (ms_clients ss)) < 2 ^ 32"
    using ss(2) length_filter_le by (metis (no_types, lifting) le_less_trans)
  then have "plays s2 k r" using t(5-7,10) by (simp add: plays_def)
  moreover have "decoded c (outputs_of r outs) (frame_buffer f)" using decodedI [OF t(3,4) assms(8)] .
  ultimately show ?thesis using t(1,2,8,9) by blast
qed

lemma thread_plays:
  assumes "length file < 2 ^ 31" "0 \<le> sent"
    and "\<And>k r. length (fresh k r) = RTP_PACKET_BLOCK" "\<And>i. length (blocks i) = RTP_PACKET_BLOCK"
  shows "reader_at file p h \<Longrightarrow> length (filebuf h) \<le> bufSize \<Longrightarrow> file ! p = 0 \<Longrightarrow> plays s k r \<Longrightarrow> rtpConns s r = Some c \<Longrightarrow>
    play_pass m file bufSize h = Inr (fs, e, h') \<Longrightarrow>
    \<exists>outss h2 t. sendFrameThread (length fs) fresh blocks clock sent k file h s = Inr (outss, True, h2, t) \<and>
      list_all2 (\<lambda>outs f. decoded c (outputs_of r outs) f) outss fs \<and> plays t k r"
proof (induction m arbitrary: p h s c fs)
  case 0
  then show ?case by simp
next
  case (Suc m)
  obtain q h1 where q: "readFrame file bufSize h = Inr (q, h1)" "length (filebuf h1) = length (filebuf h)"
    and cases: "frame_none q h1 \<or>
     (\<exists>n>0. fr_ret q = int n \<and> fr_bytes q = segment p (p + n) file \<and> p + n \<le> length file \<and>
        (if fr_end q = Some True
         then fpos h1 = Some 0 \<and> bytesUsed h1 = 0 \<and> n = min (length (filebuf h)) (length file - p)
         else fr_end q = Some False \<and> reader_at file (p + n) h1 \<and> file ! (p + n) = 0))"
    using readFrame_step [OF Suc.prems(1) assms(1) Suc.prems(2)] by blast
  show ?case
  proof (cases "0 < fr_ret q")
    case False
    then have "fs = []" using Suc.prems(6) q(1) by simp
    then show ?thesis using Suc.prems(4) by simp
  next
    case True
    obtain n where n: "0 < n" "fr_ret q = int n"
      "if fr_end q = Some True then fpos h1 = Some 0 else fr_end q = Some False \<and> reader_at file (p + n) h1 \<and> file ! (p + n) = 0"
      using cases True by (auto simp: frame_none_def split: if_splits)
    let ?count = "clock (length fs - 1)"
    obtain f where f: "next_frame file ?count h = Inr (Some f, h1)" "frame_wf f" "frame_type f = 0" "frame_buffer f = fr_bytes q"
      "nal_type (frame_buffer f) = 0"
      using next_frame_read [OF Suc.prems(1) assms(1) Suc.prems(2,3) q(1) True, of ?count] by auto
    obtain s1 outs s2 c' where t: "pushFrame fresh blocks ?count k channel_0 f s = Inr (True, s1)" "drain sent s1 = Inr (outs, s2)"
      "decoded c (outputs_of r outs) (frame_buffer f)" "plays s2 k r" "rtpConns s2 r = Some c'" "same_settings c c'"
      using thread_turn [where fresh = fresh and blocks = blocks and now = ?count, OF Suc.prems(4,5) assms(2-4) f(2,3,5)] by blast
    have step: "sendFrame_step fresh blocks ?count k file h s = Inr (True, h1, s1)"
      using f(1) t(1) by (simp add: sendFrame_step_def)
    show ?thesis
    proof (cases "fr_end q = Some True")
      case end_of_pass: True
      then have "fs = [fr_bytes q]" using Suc.prems(6) q(1) True by simp
      with step t f(4) show ?thesis by simp
    next
      case False
      then obtain fs' e' where rest: "play_pass m file bufSize h1 = Inr (fs', e', h')" "fs = fr_bytes q # fs'"
        using Suc.prems(6) q(1) True by (auto simp: rbind_eq_Inr)
      have next_pos: "reader_at file (p + n) h1" "file ! (p + n) = 0" using n(3) False by simp_all
      have buf: "length (filebuf h1) \<le> bufSize" using q(2) Suc.prems(2) by simp
      have "e' = e" using Suc.prems(6) q(1) True False rest by (auto simp: rbind_eq_Inr)
      with Suc.IH [OF next_pos(1) buf next_pos(2) t(4,5)] rest(1) obtain outss h2 u where
        IH: "sendFrameThread (length fs') fresh blocks clock sent k file h1 s2 = Inr (outss, True, h2, u)"
        "list_all2 (\<lambda>outs f. decoded c' (outputs_of r outs) f) outss fs'" "plays u k r" by blast
      then show ?thesis
        using step t(2,3) f(4) rest(2) decoded_settings [OF t(6)] by simp
    qed
  qed
qed

section \<open>The whole file\<close>

text \<open>
  C3: The program streams its file, start codes included: a client plays the session of the file, the loop is idle, and
  the thread starts on the freshly opened file of at least five bytes and less than 2 GB, which begins with a zero byte as a
  start code does, with the reader's block of five to 500000 bytes, and sends over UDP succeed. There is a list of
  frames, consecutive pieces of the file from its first byte on, one per turn of the thread in
  that pass, such that after each turn, when the loop has run its tasks, a receiver that lets every NAL unit type pass
  gets exactly that turn's frame from what the client was sent, while a receiver of RFC 3984 gets nothing at all, because the
  first byte of each frame, which belongs to its start code, makes its NAL unit type the undefined 0; the client keeps
  playing. If the pass ends at the end of the file, and the file fits the reader's block, the frames are the whole file.
\<close>

theorem file_reaches_viewers:
  assumes "plays s k r" "rtpConns s r = Some c" "0 \<le> sent"
    and "\<And>k r. length (fresh k r) = RTP_PACKET_BLOCK" "\<And>i. length (blocks i) = RTP_PACKET_BLOCK"
    and "5 \<le> length file" "length file < 2 ^ 31" "file ! 0 = 0" "5 \<le> length block" "length block \<le> bufSize"
  shows "\<exists>frames at_end outss h' t.
    sendFrameThread (length frames) fresh blocks clock sent k file (snd (h264_open True (H264File_init block))) s = Inr (outss, True, h', t) \<and>
    list_all2 (\<lambda>outs frame. decoded c (outputs_of r outs) frame) outss frames \<and> plays t k r \<and>
    concat frames = take (length (concat frames)) file \<and>
    (\<exists>h2. play_pass (length file) file bufSize (snd (h264_open True (H264File_init block))) = Inr (frames, at_end, h2)) \<and>
    (at_end \<and> length file \<le> length block \<longrightarrow> concat frames = file)"
proof -
  let ?h = "snd (h264_open True (H264File_init block))"
  have h: "reader_at file 0 ?h" "length (filebuf ?h) \<le> bufSize" "length (filebuf ?h) = length block"
    using assms(6,9,10) by (simp_all add: reader_at_def h264_open_def H264File_init_def)
  obtain fs e h2 where p: "play_pass (length file) file bufSize ?h = Inr (fs, e, h2)"
    "concat fs = segment 0 (length (concat fs)) file" "e \<longrightarrow> length file \<le> length block \<longrightarrow> length (concat fs) = length file"
    using play_pass_ok [OF assms(7) h(1) h(3) assms(10), of "length file"] by fastforce
  obtain outss h' t where t: "sendFrameThread (length fs) fresh blocks clock sent k file ?h s = Inr (outss, True, h', t)"
    "list_all2 (\<lambda>outs f. decoded c (outputs_of r outs) f) outss fs" "plays t k r"
    using thread_plays [where fresh = fresh and blocks = blocks and clock = clock, OF assms(7,3-5) h(1,2) assms(8,1,2) p(1)] by blast
  have "concat fs = take (length (concat fs)) file" using p(2) by (simp add: segment_def)
  moreover from this have "concat fs = file" if "e \<and> length file \<le> length block" using p(3) that by simp
  ultimately show ?thesis using t p(1) by (intro exI [of _ fs] exI [of _ e] exI [of _ outss] exI [of _ h'] exI [of _ t]) blast
qed

definition sample_file :: "byte list" where
  "sample_file = [0,0,0,1,0x65,0x88,1,2,3,4, 0,0,1,0x41,0x9a,5,6,7,8,9,10,11,12,13,14,15]"

theorem file_reaches_viewers_witness:
  "\<exists>rs t c frames outss h' u. exchange ''RtspServer-0.0.0.0:554#1'' sample_requests opened_server = Inr (rs, t) \<and>
    sendFrameThread (length frames) (\<lambda>_ _. replicate 1600 0) (\<lambda>_. replicate 1600 0) (\<lambda>_. 0) 0 2 sample_file
      (snd (h264_open True (H264File_init (replicate 64 0)))) t = Inr (outss, True, h', u) \<and>
    list_all2 (\<lambda>outs frame. decoded c (outputs_of 0 outs) frame) outss frames \<and>
    concat frames = take (length (concat frames)) sample_file"
proof -
  obtain rs t ss rtp where t: "exchange ''RtspServer-0.0.0.0:554#1'' sample_requests opened_server = Inr (rs, t)" "server_inv t" "loopTasks t = []"
    "mediaSessions t 2 = Some ss" "ms_clients ss = [(9, 0)]" "watching t 2 channel_0 0" "rtpConns t 0 = Some rtp"
    using sample_viewer by (elim exE conjE) (rule that)
  then have pl: "plays t 2 0" by (simp add: plays_def)
  have l: "5 \<le> length sample_file" "length sample_file < 2 ^ 31" "sample_file ! 0 = 0" "5 \<le> length (replicate 64 (0 :: byte))"
    "length (replicate 64 (0 :: byte)) \<le> bufSize"
    by (simp_all add: sample_file_def bufSize_def)
  have b: "length (replicate 1600 0) = RTP_PACKET_BLOCK" by (simp add: RTP_PACKET_BLOCK_def)
  show ?thesis
    using file_reaches_viewers [where fresh = "\<lambda>_ _. replicate 1600 0" and blocks = "\<lambda>_. replicate 1600 0" and clock = "\<lambda>_. 0",
        OF pl t(7) order_refl b b l] t(1) by blast
qed

end
