(* ===== verification/Session_Description.thy ===== *)
theory Session_Description
  imports Media_Session
begin

text \<open>
  The session description a DESCRIBE is answered with: what \<open>getLocalIpAddress\<close> chooses, and what
  \<open>getSdpMessage\<close> writes, against reference definitions without pointers and buffers.
\<close>

section \<open>The local address\<close>

text \<open>The first interface that is not the loopback decides; only an IP interface has an address to give.\<close>

definition local_address :: "ifreq list \<Rightarrow> string" where
  "local_address rs =
     (case find (\<lambda>r. ifr_flags r \<noteq> AF_INET \<or> ifr_name r \<noteq> ''lo'') rs of
        None \<Rightarrow> ''0.0.0.0''
      | Some r \<Rightarrow> if ifr_flags r = AF_INET then ifr_addr r else ''0.0.0.0'')"

lemma first_address_stuck: "ifr_flags r \<noteq> AF_INET \<Longrightarrow> first_address n (r # rs) = ''0.0.0.0''"
  by (induction n) simp_all

lemma first_address_eq: "length rs \<le> n \<Longrightarrow> first_address n rs = local_address rs"
proof (induction rs arbitrary: n)
  case Nil
  then show ?case by (cases n) (simp_all add: local_address_def)
next
  case (Cons r rs)
  then obtain m where n: "n = Suc m" "length rs \<le> m" by (cases n) simp_all
  show ?case
  proof (cases "ifr_flags r = AF_INET")
    case True
    then show ?thesis using Cons.IH [OF n(2)] n(1) by (simp add: local_address_def)
  next
    case False
    then show ?thesis using first_address_stuck by (simp add: local_address_def)
  qed
qed

text \<open>
  The address in the description: \<open>getLocalIpAddress\<close> is \<open>0.0.0.0\<close> without a socket or without the list of
  interfaces, and otherwise the address of the first interface that is not the loopback. Because the pointer
  moves on only behind a loopback interface, one of another address family makes the loop spin in place: its answer is
  \<open>0.0.0.0\<close>, whatever interfaces follow.
\<close>

theorem local_address_equiv:
  "getLocalIpAddress sock ifs = (if sock then (case ifs of None \<Rightarrow> ''0.0.0.0'' | Some rs \<Rightarrow> local_address rs) else ''0.0.0.0'')"
  by (simp add: getLocalIpAddress_def first_address_eq split: option.split)

section \<open>The description\<close>

text \<open>The lines of the description, and their text.\<close>

definition track_lines :: "MediaSession \<Rightarrow> MediaChannelId \<Rightarrow> string list" where
  "track_lines ss chn =
     (case ms_sources ss chn of
        None \<Rightarrow> []
      | Some src \<Rightarrow> [''m=video 0 RTP/AVP 96'', ''a=rtpmap:96 H264/90000'', ''a=control:track'' @ nat_str (channel_num chn)])"

definition sdp_lines :: "string \<Rightarrow> int \<Rightarrow> string \<Rightarrow> MediaSession \<Rightarrow> string list" where
  "sdp_lines ip now name ss =
     [''v=0'', ''o=- 9'' @ int_str now @ '' 1 IN IP4 '' @ ip, ''t= 0 0'', ''a= control:*''] @
     (if name = '''' then [] else [''s='' @ name]) @ track_lines ss channel_0 @ track_lines ss channel_1"

definition lines_text :: "string list \<Rightarrow> string" where
  "lines_text ls = concat (map (\<lambda>l. l @ crlf) ls)"

lemma lines_text_simps [simp]:
  "lines_text [] = ''''" "lines_text (l # ls) = l @ crlf @ lines_text ls" "lines_text (ls @ ls') = lines_text ls @ lines_text ls'"
  by (simp_all add: lines_text_def)

lemma snprintf_more_fits: "CHR 0x00 \<notin> set b \<Longrightarrow> length (b @ s) < n \<Longrightarrow> snprintf_more n b s = b @ s"
  by (simp add: snprintf_more_def strlen_def c_str_id snprintf_fits)

lemma digits_no_nul [simp]: "CHR 0x00 \<notin> set (nat_str n)" "CHR 0x00 \<notin> set (int_str i)"
proof -
  show n: "CHR 0x00 \<notin> set (nat_str n)" for n using nat_str_digits [of n] by (auto simp: is_digit_def)
  show "CHR 0x00 \<notin> set (int_str i)" using n by (simp add: int_str_def)
qed

lemma length_long:
  assumes "- (2 ^ 63) \<le> now" "now < 2 ^ 63"
  shows "length (int_str now) \<le> 20"
proof -
  have "length (nat_str n) \<le> 19" if "n \<le> 2 ^ 63" for n
    using that by (intro length_nat_str) simp_all
  then have "now < 0 \<Longrightarrow> length (nat_str (nat (- now))) \<le> 19" "0 \<le> now \<Longrightarrow> length (nat_str (nat now)) \<le> 19"
    using assms by simp_all
  then show ?thesis by (cases "now < 0") (simp_all add: int_str_def)
qed

lemma sdp_track_text:
  assumes "CHR 0x00 \<notin> set b" "length b < 900"
  shows "sdp_track ss chn b = b @ lines_text (track_lines ss chn) \<and> CHR 0x00 \<notin> set (b @ lines_text (track_lines ss chn)) \<and>
    length (lines_text (track_lines ss chn)) < 70"
proof (cases "ms_sources ss chn")
  case None
  with assms show ?thesis by (simp add: sdp_track_def track_lines_def)
next
  case (Some src)
  have n: "nat_str (channel_num chn) = [digit_char (channel_num chn)]"
    by (cases chn) (simp_all add: nat_str.simps)
  have z: "nat_str 0 = ''0''" by (simp add: nat_str.simps digit_char_def char_of_def bit_Suc_0_iff)
  have d: "c_str (getMediaDescription 0) = ''m=video 0 RTP/AVP 96''" "c_str getAttribute = ''a=rtpmap:96 H264/90000''"
    by (simp_all add: getMediaDescription_def z getAttribute_def c_str_def)
  have "digit_char (channel_num chn) \<noteq> CHR 0x00" using digits_no_nul(1) [of "channel_num chn"] n by simp
  with Some assms show ?thesis
    by (simp add: sdp_track_def Let_def d n track_lines_def snprintf_more_fits)
qed

text \<open>
  C30: The description is exactly its lines: when no description has been made yet and the server's name is not longer than
  700 characters, nothing is cut off at the buffer's 1024 characters and the text is the general lines, the name
  if there is one, and three lines for each track with a source, in the order of the tracks. The text is kept: every later call
  returns it, whatever the clock, the interfaces and the name then are.
\<close>

theorem description_lines:
  assumes "ms_sdp ss = ''''" "CHR 0x00 \<notin> set ip" "length ip \<le> 15" "CHR 0x00 \<notin> set name" "length name \<le> 700"
    and "- (2 ^ 63) \<le> now" "now < 2 ^ 63"
  shows "\<exists>ss'. getSdpMessage ip now name ss = (lines_text (sdp_lines ip now name ss), ss') \<and> ms_clients ss' = ms_clients ss \<and>
    (\<forall>ip' now' name'. getSdpMessage ip' now' name' ss' = (lines_text (sdp_lines ip now name ss), ss'))"
proof -
  define b0 where "b0 = ''v=0'' @ crlf @ ''o=- 9'' @ int_str now @ '' 1 IN IP4 '' @ ip @ crlf @ ''t= 0 0'' @ crlf @ ''a= control:*'' @ crlf"
  define b1 where "b1 = b0 @ (if name = '''' then '''' else ''s='' @ name @ crlf)"
  have l0: "CHR 0x00 \<notin> set b0" "length b0 < 100"
    using assms(2,3) length_long [OF assms(6,7)] by (simp_all add: b0_def)
  have l1: "CHR 0x00 \<notin> set b1" "length b1 < 830" using l0 assms(4,5) by (simp_all add: b1_def)
  have n: "(if name \<noteq> '''' then snprintf_more 1024 b0 (''s='' @ c_str name @ crlf) else b0) = b1"
    using l0 assms(4,5) by (simp add: b1_def c_str_id snprintf_more_fits)
  let ?b2 = "b1 @ lines_text (track_lines ss channel_0)"
  let ?b3 = "?b2 @ lines_text (track_lines ss channel_1)"
  have t0: "sdp_track ss channel_0 b1 = ?b2" "CHR 0x00 \<notin> set ?b2" "length ?b2 < 900"
    using sdp_track_text [of b1 ss channel_0] l1 by simp_all
  have t1: "sdp_track ss channel_1 ?b2 = ?b3" "CHR 0x00 \<notin> set ?b3"
    using sdp_track_text [OF t0(2,3), of ss channel_1] by simp_all
  have eq: "?b3 = lines_text (sdp_lines ip now name ss)" by (simp add: sdp_lines_def b1_def b0_def)
  have "snprintf 1024 b0 = b0" using l0(2) by (intro snprintf_fits) simp
  then have g: "getSdpMessage ip now name ss = (?b3, ss\<lparr>ms_sdp := ?b3\<rparr>)"
    using assms(1) t0(1) t1 n c_str_id [OF assms(2)] c_str_id [OF t1(2)]
    by (simp only: getSdpMessage_def Let_def b0_def [symmetric] simp_thms if_False if_True)
  have "?b3 \<noteq> ''''" by (simp add: b1_def b0_def)
  then have "getSdpMessage ip' now' name' (ss\<lparr>ms_sdp := ?b3\<rparr>) = (?b3, ss\<lparr>ms_sdp := ?b3\<rparr>)" for ip' now' name'
    by (simp add: getSdpMessage_def)
  with g eq show ?thesis by (intro exI [of _ "ss\<lparr>ms_sdp := ?b3\<rparr>"]) simp
qed

theorem description_lines_witness:
  "\<exists>ss'. getSdpMessage ''10.0.0.1'' 1607690000 '''' (snd (addMediaSource channel_0 (H264Source_new 25) (fst (MediaSession_new ''live'' 1)))) =
    (lines_text [''v=0'', ''o=- 9'' @ int_str 1607690000 @ '' 1 IN IP4 10.0.0.1'', ''t= 0 0'', ''a= control:*'',
       ''m=video 0 RTP/AVP 96'', ''a=rtpmap:96 H264/90000'', ''a=control:track'' @ nat_str 0], ss')"
proof -
  let ?ss = "snd (addMediaSource channel_0 (H264Source_new 25) (fst (MediaSession_new ''live'' 1)))"
  have m: "ms_sdp ?ss = ''''" "ms_sources ?ss channel_0 = Some (H264Source_new 25)" "ms_sources ?ss channel_1 = None"
    by (simp_all add: MediaSession_new_def addMediaSource_def)
  from description_lines [OF m(1), of "''10.0.0.1''" "''''" 1607690000] m(2,3)
  show ?thesis by (auto simp: sdp_lines_def track_lines_def)
qed

end
