(* ===== verification/Rtsp_Parser.thy ===== *)
theory Rtsp_Parser
  imports Rtsp_Requests Rtsp_Reply
begin

text \<open>
  The request parser as a whole: what it keeps on every input, and that it understands
  the requests the client side of the same library writes.
\<close>

section \<open>Every input\<close>

fun state_rank :: "RtspRequestParseState \<Rightarrow> nat" where
  "state_rank kParseRequestLine = 0"
| "state_rank kParseHeadersLine = 1"
| "state_rank kGotAll = 2"

text \<open>The order of the enumeration, as C++ compares its values.\<close>

instantiation RtspRequestParseState :: linorder
begin

definition less_eq_RtspRequestParseState :: "RtspRequestParseState \<Rightarrow> RtspRequestParseState \<Rightarrow> bool" where
  "less_eq_RtspRequestParseState a b \<longleftrightarrow> state_rank a \<le> state_rank b"

definition less_RtspRequestParseState :: "RtspRequestParseState \<Rightarrow> RtspRequestParseState \<Rightarrow> bool" where
  "less_RtspRequestParseState a b \<longleftrightarrow> state_rank a < state_rank b"

instance
proof
  fix a b :: RtspRequestParseState
  assume "a \<le> b" "b \<le> a"
  then show "a = b" by (cases a; cases b) (simp_all add: less_eq_RtspRequestParseState_def)
qed (auto simp: less_eq_RtspRequestParseState_def less_RtspRequestParseState_def)

end

lemma parse_state_order [simp]: "kParseRequestLine \<le> q" "q \<le> kGotAll" "kParseHeadersLine \<le> q \<longleftrightarrow> q \<noteq> kParseRequestLine"
  by (cases q; simp add: less_eq_RtspRequestParseState_def)+

definition only_bounds :: "'a result \<Rightarrow> bool" where
  "only_bounds x \<longleftrightarrow> (\<forall>f. x = Inl f \<longrightarrow> f = OutOfBounds)"

lemma only_bounds_simps [simp]: "only_bounds (Inr x)" "only_bounds (Inl OutOfBounds)"
  by (simp_all add: only_bounds_def)

lemma only_bounds_rbind [intro]: "only_bounds x \<Longrightarrow> (\<And>y. x = Inr y \<Longrightarrow> only_bounds (f y)) \<Longrightarrow> only_bounds (rbind x f)"
  by (cases x) (simp_all add: only_bounds_def)

lemma only_bounds_scan [simp]: "only_bounds (scan_into caps s fmt)"
  by (simp add: scan_into_def Let_def)

lemma only_bounds_peek [simp]: "only_bounds (peek_at i b)"
  by (simp add: peek_at_def)

lemma only_bounds_tail [simp]: "only_bounds (parse_url_tail n u)"
  unfolding parse_url_tail_def
  by (intro only_bounds_rbind only_bounds_scan) (auto split: list.split scanned.split)

lemma only_bounds_line [simp]: "only_bounds (parseRequestLine s r)"
  unfolding parseRequestLine_def
  by (intro only_bounds_rbind only_bounds_scan) (auto simp: Let_def split: list.split scanned.split option.split prod.split)

lemma only_bounds_turn:
  assumes "buffer_inv b"
  shows "only_bounds (request_turn b r)"
proof (cases "findCRLF b")
  case (Some p)
  then obtain n where "retrieveUntil (p + 2) b = Inr (advance n b)" using found_retrieves [OF assms] by blast
  with Some show ?thesis unfolding request_turn_def by (auto intro!: only_bounds_rbind)
qed (simp add: request_turn_def)

lemma only_bounds_headers: "buffer_inv b \<Longrightarrow> only_bounds (headers_turn ret b r)"
  using headers_turn_total [of b ret r] by auto

lemma request_turn_buffer: "buffer_inv b \<Longrightarrow> request_turn b r = Inr (ok, b', r') \<Longrightarrow> buffer_inv b'"
  by (auto simp: request_turn_def rbind_eq_Inr retrieveUntil_eq_Inr inv_intros split: option.splits)

lemma only_bounds_parse: "buffer_inv b \<Longrightarrow> only_bounds (parseRequest b r)"
  unfolding parseRequest_def
  by (intro only_bounds_rbind only_bounds_peek)
    (auto intro!: only_bounds_rbind only_bounds_turn only_bounds_headers dest: request_turn_buffer
      split: RtspRequestParseState.split prod.split)

definition drops_from :: "buffer \<Rightarrow> buffer \<Rightarrow> bool" where
  "drops_from b b' \<longleftrightarrow> buffer_inv b' \<and> (\<exists>n. toStringPiece b' = drop n (toStringPiece b))"

lemma drops_from_refl: "buffer_inv b \<Longrightarrow> drops_from b b"
  unfolding drops_from_def by (intro conjI exI [of _ 0]) simp_all

lemma drops_from_retrieve: "drops_from b0 b \<Longrightarrow> drops_from b0 (advance n b)"
  by (auto simp: drops_from_def inv_intros buf_simps)

lemma drops_from_all: "drops_from b0 b \<Longrightarrow> drops_from b0 (retrieveAll b)"
  unfolding drops_from_def by (auto simp: inv_intros buf_simps intro: exI [of _ "length (toStringPiece b0)"])

lemma headers_turn_drops: "drops_from b0 b \<Longrightarrow> headers_turn ret b r = Inr (ok, b', r') \<Longrightarrow> drops_from b0 b'"
  by (auto simp: headers_turn_def rbind_eq_Inr retrieveUntil_eq_Inr drops_from_retrieve split: option.splits prod.splits)

lemma request_turn_drops: "drops_from b0 b \<Longrightarrow> request_turn b r = Inr (ok, b', r') \<Longrightarrow> drops_from b0 b'"
  by (auto simp: request_turn_def retrieveUntil_eq_Inr drops_from_retrieve rbind_eq_Inr split: option.splits)

lemma headers_turn_rank:
  assumes "req_inv r" "parse_state r = kParseHeadersLine" "headers_turn ret b r = Inr (ok, b', r')"
  shows "kParseHeadersLine \<le> parse_state r'"
  using headers_turn_inv [OF assms] by (cases "parse_state r'") simp_all

lemma parseRequest_shape:
  assumes "buffer_inv b" "req_inv r" "parseRequest b r = Inr (ok, b', r')"
  shows "drops_from b b' \<and> parse_state r \<le> parse_state r'"
proof (cases "peek_at 0 b = Inr (byte_of_char CHR ''$'')")
  case True
  with assms drops_from_refl show ?thesis by (auto simp: parseRequest_def)
next
  case False
  then obtain c where c: "peek_at 0 b = Inr c" "c \<noteq> byte_of_char CHR ''$''"
    using assms(3) by (cases "peek_at 0 b") (auto simp: parseRequest_def)
  note d = drops_from_refl [OF assms(1)]
  show ?thesis
  proof (cases "parse_state r")
    case kParseRequestLine
    then obtain ret b1 r1 where t: "request_turn b r = Inr (ret, b1, r1)"
      using assms(3) c by (auto simp: parseRequest_def rbind_eq_Inr)
    then show ?thesis
      using assms(3) c kParseRequestLine request_turn_drops [OF d t] headers_turn_drops
      by (auto simp: parseRequest_def split: if_splits)
  next
    case kParseHeadersLine
    then have "headers_turn True b r = Inr (ok, b', r')" using assms(3) c by (simp add: parseRequest_def)
    from headers_turn_drops [OF d this] headers_turn_rank [OF assms(2) kParseHeadersLine this] kParseHeadersLine
    show ?thesis by simp
  next
    case kGotAll
    then show ?thesis using assms(3) c drops_from_all [OF d] by (auto simp: parseRequest_def)
  qed
qed

text \<open>
  C27: The parser is well-behaved on every input and in every state: it either overruns one of its character arrays (or
  reads an empty vector), or returns with a well-formed buffer that holds a final part of what it held, and a request object
  that still satisfies its invariant: no parameters before the request line, all six of the line's parameters and a method
  behind it, a CSeq once the request is complete. The parse state never goes back.
\<close>

theorem parseRequest_well_typed:
  assumes "buffer_inv b" "req_inv r"
  shows "case parseRequest b r of
      Inl f \<Rightarrow> f = OutOfBounds
    | Inr (ok, b', r') \<Rightarrow> buffer_inv b' \<and> req_inv r' \<and> (\<exists>n. toStringPiece b' = drop n (toStringPiece b)) \<and>
        parse_state r \<le> parse_state r'"
  using only_bounds_parse [OF assms(1), of r] parseRequest_shape [OF assms] parseRequest_inv [OF assms(2,1)]
  by (auto simp: only_bounds_def drops_from_def split: sum.split prod.split)

theorem parseRequest_well_typed_witness:
  "case parseRequest (buf_append (bytes_of ''OPTIONS *'') (Buffer_init 64)) (RtspRequest_init METHOD_NONE channel_0 RTP_OVER_TCP) of
      Inl f \<Rightarrow> f = OutOfBounds
    | Inr (ok, b', r') \<Rightarrow> buffer_inv b' \<and> req_inv r'"
  using parseRequest_well_typed [of "buf_append (bytes_of ''OPTIONS *'') (Buffer_init 64)" "RtspRequest_init METHOD_NONE channel_0 RTP_OVER_TCP"]
  by (auto simp: inv_intros req_inv_init split: sum.splits prod.splits)

section \<open>Requests of the library's own client\<close>

lemma url_text_plain: "valid_url ip suffix \<Longrightarrow> CHR 0x00 \<notin> set (url_text ip port suffix) \<and> length (url_text ip port suffix) < 128"
  using url_text_part [of ip suffix port] by (auto simp: url_part_def)

lemma option_request_text:
  assumes "valid_url ip suffix" "CHR 0x00 \<notin> set agent" "length agent \<le> 800"
  shows "fst (buildOptionReq (setUserAgent agent (setRtspUrl (url_text ip port suffix) c)) 1024) =
    request_text W_OPTIONS (url_text ip port suffix) (resp_cseq c + 1) agent"
proof -
  note u = url_text_plain [OF assms(1), of port]
  have "length (request_text W_OPTIONS (url_text ip port suffix) (resp_cseq c + 1) agent) < 1024"
    using u assms(3) length_fmt_u [of "resp_cseq c + 1"] by (simp add: request_text_def request_line_def request_headers_def)
  then show ?thesis
    using u assms(2) by (simp add: buildOptionReq_def setUserAgent_def setRtspUrl_def c_str_id request_text_def request_line_def
        request_headers_def snprintf_fits)
qed

lemma describe_request_text:
  assumes "valid_url ip suffix" "CHR 0x00 \<notin> set agent" "length agent \<le> 800"
  shows "fst (buildDescribeReq (setUserAgent agent (setRtspUrl (url_text ip port suffix) c)) 1024) =
    request_text W_DESCRIBE (url_text ip port suffix) (resp_cseq c + 1) agent"
proof -
  note u = url_text_plain [OF assms(1), of port]
  have "length (request_text W_DESCRIBE (url_text ip port suffix) (resp_cseq c + 1) agent) < 1024"
    using u assms(3) length_fmt_u [of "resp_cseq c + 1"] by (simp add: request_text_def request_line_def request_headers_def)
  then show ?thesis
    using u assms(2) by (simp add: buildDescribeReq_def setUserAgent_def setRtspUrl_def c_str_id request_text_def request_line_def
        request_headers_def snprintf_fits)
qed

text \<open>
  Client and server of the library agree on OPTIONS and DESCRIBE: what \<open>buildOptionReq\<close> and \<open>buildDescribeReq\<close> print into
  1024 characters for a valid URL and an agent name of up to 800 characters, the server's parser reads
  back as that method, with the client's next CSeq and the URL's host and path, and nothing is left in the buffer.
\<close>

theorem client_requests_understood:
  assumes "valid_url ip suffix" "CHR 0x00 \<notin> set agent" "length agent \<le> 800" "fresh_request r" "buffer_inv b"
    and "c = setUserAgent agent (setRtspUrl (url_text ip port suffix) c0)"
    and "toStringPiece b = bytes_of (fst (buildOptionReq c 1024)) \<and> w = W_OPTIONS \<or>
         toStringPiece b = bytes_of (fst (buildDescribeReq c 1024)) \<and> w = W_DESCRIBE"
  shows "\<exists>b' r'. parseRequest b r = Inr (True, b', r') \<and> toStringPiece b' = [] \<and>
    request_read w (url_text ip port suffix) ip suffix (resp_cseq c + 1) r'"
proof -
  have n: "resp_cseq c = resp_cseq c0" using assms(6) by (simp add: setUserAgent_def setRtspUrl_def)
  have t: "toStringPiece b = bytes_of (request_text w (url_text ip port suffix) (resp_cseq c + 1) agent)" "agent_ok w agent"
    using assms(6,7) n option_request_text [OF assms(1-3)] describe_request_text [OF assms(1-3)] by (auto simp: agent_ok_def)
  from parseRequest_text [OF assms(5) t(1) assms(4,1) t(2)] show ?thesis by blast
qed

theorem client_requests_understood_witness:
  "\<exists>b' r'. parseRequest (buf_append (bytes_of (fst (buildDescribeReq
      (setUserAgent ''pusher'' (setRtspUrl (url_text ''10.0.0.1'' 554 ''live'') (RtspResponse_init C_NONE))) 1024))) (Buffer_init 64))
      (RtspRequest_init METHOD_NONE channel_0 RTP_OVER_TCP) = Inr (True, b', r') \<and> req_method r' = DESCRIBE \<and> getCSeq r' = 1"
proof -
  let ?c = "setUserAgent ''pusher'' (setRtspUrl (url_text ''10.0.0.1'' 554 ''live'') (RtspResponse_init C_NONE))"
  let ?b = "buf_append (bytes_of (fst (buildDescribeReq ?c 1024))) (Buffer_init 64)"
  have v: "valid_url ''10.0.0.1'' ''live''" by (simp add: valid_url_def url_part_def is_space_def)
  have b: "buffer_inv ?b"
    "toStringPiece ?b = bytes_of (fst (buildOptionReq ?c 1024)) \<and> W_DESCRIBE = W_OPTIONS \<or>
      toStringPiece ?b = bytes_of (fst (buildDescribeReq ?c 1024)) \<and> W_DESCRIBE = W_DESCRIBE"
    by (simp_all add: inv_intros buf_simps)
  have n: "resp_cseq ?c = 0" by (simp add: setUserAgent_def setRtspUrl_def RtspResponse_init_def)
  have a: "CHR 0x00 \<notin> set ''pusher''" "length ''pusher'' \<le> 800" by simp_all
  from client_requests_understood [OF v a fresh_init [of METHOD_NONE channel_0 RTP_OVER_TCP] b(1) refl b(2)] n
  show ?thesis by (auto simp: request_read_def)
qed

end
