(* ===== verification/Fifo.thy ===== *)
theory Fifo
  imports Prelude
begin

text \<open>
  The contract of a bounded first-in first-out queue, as the ring buffer of the media layer and
  the blocking queues of the thread library offer it: a guarded \<open>put\<close>, and \<open>front\<close>/\<open>drop_front\<close> on
  a queue that is not empty.
\<close>

datatype 'a fifo_op = Put 'a | Get

text \<open>
  A client that never puts into a full queue and never gets from an empty one: the elements it
  gets, in order, and the queue afterwards.
\<close>

fun fifo_run ::
  "('a \<Rightarrow> 'q \<Rightarrow> 'q result) \<Rightarrow> ('q \<Rightarrow> 'a result) \<Rightarrow> ('q \<Rightarrow> 'q) \<Rightarrow> 'q \<Rightarrow> 'a fifo_op list \<Rightarrow> ('a list \<times> 'q) result" where
  "fifo_run put front drop_front q [] = Inr ([], q)"
| "fifo_run put front drop_front q (Put x # ops) =
     rbind (put x q) (\<lambda>q'. fifo_run put front drop_front q' ops)"
| "fifo_run put front drop_front q (Get # ops) =
     rbind (front q) (\<lambda>x. rbind (fifo_run put front drop_front (drop_front q) ops)
       (\<lambda>(xs, q'). Inr (x # xs, q')))"

text \<open>The same operations on a list.\<close>

fun fifo_legal :: "nat \<Rightarrow> nat \<Rightarrow> 'a fifo_op list \<Rightarrow> bool" where
  "fifo_legal cap n [] = True"
| "fifo_legal cap n (Put x # ops) = (n < cap \<and> fifo_legal cap (Suc n) ops)"
| "fifo_legal cap n (Get # ops) = (0 < n \<and> fifo_legal cap (n - 1) ops)"

fun puts :: "'a fifo_op list \<Rightarrow> 'a list" where
  "puts [] = []"
| "puts (Put x # ops) = x # puts ops"
| "puts (Get # ops) = puts ops"

fun gets :: "'a fifo_op list \<Rightarrow> nat" where
  "gets [] = 0"
| "gets (Put x # ops) = gets ops"
| "gets (Get # ops) = Suc (gets ops)"

locale bounded_fifo =
  fixes inv :: "nat \<Rightarrow> 'q \<Rightarrow> bool"
    and contents :: "'q \<Rightarrow> 'a list"
    and put :: "'a \<Rightarrow> 'q \<Rightarrow> 'q result"
    and front :: "'q \<Rightarrow> 'a result"
    and drop_front :: "'q \<Rightarrow> 'q"
  assumes put_ok: "inv cap q \<Longrightarrow> length (contents q) < cap \<Longrightarrow>
      \<exists>q'. put x q = Inr q' \<and> inv cap q' \<and> contents q' = contents q @ [x]"
    and put_full: "inv cap q \<Longrightarrow> \<not> length (contents q) < cap \<Longrightarrow> put x q = Inl AssertFail"
    and front_ok: "inv cap q \<Longrightarrow> contents q \<noteq> [] \<Longrightarrow> front q = Inr (hd (contents q))"
    and front_empty: "inv cap q \<Longrightarrow> contents q = [] \<Longrightarrow> front q = Inl AssertFail"
    and drop_ok: "inv cap q \<Longrightarrow> contents q \<noteq> [] \<Longrightarrow> inv cap (drop_front q) \<and> contents (drop_front q) = tl (contents q)"
begin

lemma fifo_order:
  "inv cap q \<Longrightarrow> fifo_legal cap (length (contents q)) ops \<Longrightarrow>
     \<exists>q'. fifo_run put front drop_front q ops = Inr (take (gets ops) (contents q @ puts ops), q') \<and>
       inv cap q' \<and> contents q' = drop (gets ops) (contents q @ puts ops)"
proof (induction ops arbitrary: q)
  case Nil
  then show ?case by simp
next
  case (Cons x ops)
  show ?case
  proof (cases x)
    case (Put a)
    with Cons.prems obtain q' where "put a q = Inr q'" "inv cap q'" "contents q' = contents q @ [a]"
      using put_ok [of cap q a] by auto
    with Cons.IH [of q'] Cons.prems Put show ?thesis by simp
  next
    case Get
    with Cons.prems have ne: "contents q \<noteq> []" by auto
    then obtain c cs where c: "contents q = c # cs" by (cases "contents q") simp_all
    note d = drop_ok [OF Cons.prems(1) ne] front_ok [OF Cons.prems(1) ne]
    have "fifo_legal cap (length (contents (drop_front q))) ops"
      using Cons.prems Get d c by simp
    from Cons.IH [OF _ this] d c Get show ?thesis by auto
  qed
qed

lemma fifo_illegal_put:
  "inv cap q \<Longrightarrow> length (contents q) = cap \<Longrightarrow> fifo_run put front drop_front q (Put x # ops) = Inl AssertFail"
  by (simp add: put_full)

lemma fifo_illegal_get:
  "inv cap q \<Longrightarrow> contents q = [] \<Longrightarrow> fifo_run put front drop_front q (Get # ops) = Inl AssertFail"
  by (simp add: front_empty)

end

end
