(* ===== verification/Ring_Buffer.thy ===== *)
theory Ring_Buffer
  imports Fifo
begin

text \<open>
  The ring buffer template of \<open>src/media/ring_buffer.h\<close>, which \<open>MediaSession\<close> keeps two of.
  Positions and counts are C++ \<open>int\<close>s (they stay within the capacity, so \<open>int\<close> here); an index
  outside the vector is the fault \<open>OutOfBounds\<close>, the two \<open>assert\<close>s are kept.
\<close>

record 'a RingBuffer =
  ring_buffer :: "'a list"
  numDatas :: int
  ring_capacity :: int
  putPos :: int
  getPos :: int

definition RingBuffer_init :: "'a \<Rightarrow> nat \<Rightarrow> 'a RingBuffer" where
  "RingBuffer_init z cap =
     \<lparr>ring_buffer = replicate cap z, numDatas = 0, ring_capacity = int cap, putPos = 0, getPos = 0\<rparr>"

definition add_pos :: "int \<Rightarrow> int \<Rightarrow> int" where
  "add_pos cap pos = (if pos + 1 = cap then 0 else pos + 1)"

definition full :: "'a RingBuffer \<Rightarrow> bool" where
  "full r \<longleftrightarrow> numDatas r = ring_capacity r"

definition empty :: "'a RingBuffer \<Rightarrow> bool" where
  "empty r \<longleftrightarrow> numDatas r = 0"

definition ring_size :: "'a RingBuffer \<Rightarrow> int" where
  "ring_size r = numDatas r"

definition pushData :: "'a \<Rightarrow> 'a RingBuffer \<Rightarrow> 'a RingBuffer result" where
  "pushData data r =
     c_assert (numDatas r < ring_capacity r)
       (if 0 \<le> putPos r \<and> putPos r < int (length (ring_buffer r))
        then Inr (r\<lparr>ring_buffer := (ring_buffer r)[nat (putPos r) := data],
                    putPos := add_pos (ring_capacity r) (putPos r),
                    numDatas := numDatas r + 1\<rparr>)
        else Inl OutOfBounds)"

definition push_back :: "'a \<Rightarrow> 'a RingBuffer \<Rightarrow> 'a RingBuffer result" where
  "push_back data r = pushData data r"

definition pop_front :: "'a RingBuffer \<Rightarrow> 'a RingBuffer" where
  "pop_front r = r\<lparr>getPos := add_pos (ring_capacity r) (getPos r), numDatas := numDatas r - 1\<rparr>"

definition front :: "'a RingBuffer \<Rightarrow> 'a result" where
  "front r =
     c_assert (0 < numDatas r)
       (if 0 \<le> getPos r \<and> getPos r < int (length (ring_buffer r))
        then Inr (ring_buffer r ! nat (getPos r)) else Inl OutOfBounds)"

section \<open>Invariant and contents\<close>

definition ring_inv :: "nat \<Rightarrow> 'a RingBuffer \<Rightarrow> bool" where
  "ring_inv cap r \<longleftrightarrow> 0 < cap \<and> ring_capacity r = int cap \<and> length (ring_buffer r) = cap \<and>
     0 \<le> numDatas r \<and> numDatas r \<le> int cap \<and> 0 \<le> getPos r \<and> getPos r < int cap \<and>
     putPos r = int ((nat (getPos r) + nat (numDatas r)) mod cap)"

definition ring_contents :: "'a RingBuffer \<Rightarrow> 'a list" where
  "ring_contents r =
     map (\<lambda>i. ring_buffer r ! ((nat (getPos r) + i) mod length (ring_buffer r))) [0..<nat (numDatas r)]"

lemma length_ring_contents [simp]: "length (ring_contents r) = nat (numDatas r)"
  by (simp add: ring_contents_def)

lemma ring_inv_init: "0 < cap \<Longrightarrow> ring_inv cap (RingBuffer_init z cap)"
  by (simp add: ring_inv_def RingBuffer_init_def)

lemma ring_contents_init: "ring_contents (RingBuffer_init z cap) = []"
  by (simp add: ring_contents_def RingBuffer_init_def)

lemma add_pos_mod: "m < cap \<Longrightarrow> add_pos (int cap) (int m) = int (Suc m mod cap)"
  by (cases "Suc m = cap") (auto simp: add_pos_def)

lemma mod_add_distinct:
  assumes "g < cap" "i < j" "j < cap"
  shows "(g + i) mod cap \<noteq> (g + j) mod (cap :: nat)"
proof
  assume e: "(g + i) mod cap = (g + j) mod cap"
  have "g + i \<le> g + j" using assms by simp
  with e have "cap dvd (g + j) - (g + i)" by (metis mod_eq_dvd_iff_nat)
  then have "cap dvd j - i" by simp
  with assms show False using nat_dvd_not_less [of "j - i" cap] by auto
qed

lemma push_back_ok:
  assumes i: "ring_inv cap r" and room: "length (ring_contents r) < cap"
  shows "\<exists>r'. push_back x r = Inr r' \<and> ring_inv cap r' \<and> ring_contents r' = ring_contents r @ [x]"
proof -
  define g n where "g = nat (getPos r)" and "n = nat (numDatas r)"
  then have gn: "getPos r = int g" "numDatas r = int n" "g < cap" "n < cap"
    using i room by (auto simp: ring_inv_def)
  have c: "ring_capacity r = int cap" "length (ring_buffer r) = cap" "putPos r = int ((g + n) mod cap)" "0 < cap"
    using i gn by (auto simp: ring_inv_def)
  let ?p = "(g + n) mod cap"
  have p: "?p < cap" using c(4) by simp
  let ?r' = "r\<lparr>ring_buffer := (ring_buffer r)[?p := x], putPos := int (Suc ?p mod cap), numDatas := int n + 1\<rparr>"
  have "push_back x r = Inr ?r'"
    using c gn p by (simp add: push_back_def pushData_def add_pos_mod)
  moreover have "ring_inv cap ?r'"
    using c gn by (simp add: ring_inv_def mod_Suc_eq nat_add_distrib)
  moreover have "ring_contents ?r' = ring_contents r @ [x]"
  proof -
    have "(ring_buffer r)[?p := x] ! ((g + i) mod cap) = ring_buffer r ! ((g + i) mod cap)" if "i < n" for i
      using mod_add_distinct [OF gn(3) that gn(4)] by simp
    then show ?thesis
      using c gn p by (simp add: ring_contents_def nat_add_distrib cong: map_cong)
  qed
  ultimately show ?thesis by blast
qed

lemma pop_front_ok:
  assumes i: "ring_inv cap r" and ne: "ring_contents r \<noteq> []"
  shows "ring_inv cap (pop_front r) \<and> ring_contents (pop_front r) = tl (ring_contents r)"
proof -
  have pos: "0 < numDatas r"
    using ne by (auto simp: ring_contents_def)
  define g n where "g = nat (getPos r)" and "n = nat (numDatas r - 1)"
  then have gn: "getPos r = int g" "numDatas r = int (Suc n)" "g < cap" "n < cap"
    using i pos by (auto simp: ring_inv_def)
  have c: "ring_capacity r = int cap" "length (ring_buffer r) = cap" "putPos r = int ((g + Suc n) mod cap)" "0 < cap"
    using i gn by (auto simp: ring_inv_def nat_add_distrib simp flip: of_nat_Suc)
  have g': "getPos (pop_front r) = int (Suc g mod cap)"
    using gn c by (simp add: pop_front_def add_pos_mod)
  have "ring_inv cap (pop_front r)"
    using c gn g' by (simp add: ring_inv_def pop_front_def mod_add_left_eq)
  moreover have "ring_contents (pop_front r) = tl (ring_contents r)"
  proof -
    have "tl (map f [0..<Suc n]) = map (\<lambda>i. f (Suc i)) [0..<n]" for f :: "nat \<Rightarrow> 'a"
      by (simp add: map_tl [symmetric] upt_conv_Cons map_Suc_upt [symmetric] comp_def del: upt_Suc)
    moreover have "(Suc g mod cap + i) mod cap = (g + Suc i) mod cap" for i
      by (simp add: mod_add_left_eq)
    moreover have "numDatas (pop_front r) = int n" "ring_buffer (pop_front r) = ring_buffer r"
      using gn by (simp_all add: pop_front_def)
    moreover have "nat (numDatas r) = Suc n" "nat (getPos r) = g" using gn by simp_all
    ultimately show ?thesis
      using c(2) g' by (simp add: ring_contents_def del: upt_Suc)
  qed
  ultimately show ?thesis by blast
qed

lemma ring_front_ok:
  assumes i: "ring_inv cap r" and ne: "ring_contents r \<noteq> []"
  shows "front r = Inr (hd (ring_contents r))"
proof -
  have pos: "0 < numDatas r" using ne by (auto simp: ring_contents_def)
  have g: "0 \<le> getPos r" "getPos r < int (length (ring_buffer r))" using i by (auto simp: ring_inv_def)
  have "hd (ring_contents r) = ring_buffer r ! (nat (getPos r) mod length (ring_buffer r))"
    using pos by (simp add: ring_contents_def hd_map)
  with pos g show ?thesis by (simp add: front_def)
qed

interpretation ring: bounded_fifo ring_inv ring_contents push_back front pop_front
proof unfold_locales
  fix cap :: nat and q :: "'a RingBuffer" and x :: 'a
  assume i: "ring_inv cap q"
  show "length (ring_contents q) < cap \<Longrightarrow>
      \<exists>q'. push_back x q = Inr q' \<and> ring_inv cap q' \<and> ring_contents q' = ring_contents q @ [x]"
    by (rule push_back_ok [OF i])
  show "\<not> length (ring_contents q) < cap \<Longrightarrow> push_back x q = Inl AssertFail"
    using i by (auto simp: push_back_def pushData_def ring_inv_def)
  show "ring_contents q \<noteq> [] \<Longrightarrow> front q = Inr (hd (ring_contents q))"
    by (rule ring_front_ok [OF i])
  show "ring_contents q = [] \<Longrightarrow> front q = Inl AssertFail"
    using i by (auto simp: front_def ring_contents_def ring_inv_def)
  show "ring_contents q \<noteq> [] \<Longrightarrow>
      ring_inv cap (pop_front q) \<and> ring_contents (pop_front q) = tl (ring_contents q)"
    by (rule pop_front_ok [OF i])
qed

section \<open>Properties\<close>

text \<open>
  C33: The ring buffer is a bounded FIFO: a client that respects the bounds gets the elements it
  put in order, across any number of wrap-arounds of the two positions, no access leaves the
  vector and no assertion fails; \<open>full\<close> and \<open>empty\<close> tell the bounds.
\<close>

theorem ring_buffer_fifo:
  assumes "0 < cap" and "fifo_legal cap 0 ops"
  shows "\<exists>r. fifo_run push_back front pop_front (RingBuffer_init z cap) ops = Inr (take (gets ops) (puts ops), r) \<and>
    ring_contents r = drop (gets ops) (puts ops) \<and>
    (full r \<longleftrightarrow> length (ring_contents r) = cap) \<and> (empty r \<longleftrightarrow> ring_contents r = [])"
proof -
  obtain r where r: "fifo_run push_back front pop_front (RingBuffer_init z cap) ops = Inr (take (gets ops) (puts ops), r)"
      "ring_inv cap r" "ring_contents r = drop (gets ops) (puts ops)"
    using ring.fifo_order [OF ring_inv_init [OF assms(1)], of z ops] assms(2)
    by (auto simp: ring_contents_init)
  moreover have "full r \<longleftrightarrow> length (ring_contents r) = cap"
    using r(2) by (auto simp: full_def ring_inv_def)
  moreover have "empty r \<longleftrightarrow> ring_contents r = []"
    using r(2) by (auto simp: empty_def ring_inv_def ring_contents_def)
  ultimately show ?thesis by blast
qed

theorem ring_buffer_fifo_witness:
  "\<exists>r. fifo_run push_back front pop_front (RingBuffer_init (0 :: nat) 2)
      [Put 1, Put 2, Get, Put 3, Get, Put 4, Get] = Inr ([1, 2, 3], r) \<and> ring_contents r = [4]"
proof -
  let ?ops = "[Put 1, Put 2, Get, Put 3, Get, Put 4, Get] :: nat fifo_op list"
  have legal: "fifo_legal 2 0 ?ops" and "take (gets ?ops) (puts ?ops) = [1, 2, 3]"
    and "drop (gets ?ops) (puts ?ops) = [4]"
    by simp_all
  with ring_buffer_fifo [OF _ legal, of 0] show ?thesis
    by (metis zero_less_numeral)
qed

end
