(* ===== verification/Tcp_Connection.thy ===== *)
theory Tcp_Connection
  imports Buffer
begin

text \<open>
  One TCP connection of the network library: \<open>src/3rdparty/muduo/net/TcpConnection.cc\<close> with its \<open>Channel\<close>. All
  calls come from the loop's thread, as they do in this program, so \<open>runInLoop\<close> calls at once. The
  program installs no write-complete and no high-water-mark callback; the calls of the connection, message and close
  callbacks are the owner's part (\<open>Tcp_Server\<close>). Bytes and the end of the stream handed to the socket are outputs.
\<close>

section \<open>State\<close>

datatype StateE = kDisconnected | kConnecting | kConnected | kDisconnecting

text \<open>
  \<open>read_events\<close>, \<open>write_events\<close>: what the channel asks the poller for; \<open>addedToLoop\<close>: the poller knows the channel. The
  input buffer is part of the server's state (\<open>inputBuffers\<close>).
\<close>

record TcpConnection =
  conn_name :: string
  conn_fd :: int
  tcp_state :: StateE
  tcp_reading :: bool
  read_events :: bool
  write_events :: bool
  addedToLoop :: bool
  outputBuffer :: buffer

datatype net_out = Wrote "byte list" | ShutdownWrite

text \<open>What \<open>write\<close> answers: a count (of at most what it was given), or an error by its \<open>errno\<close>.\<close>

datatype write_answer = Accepted nat | WouldBlock | PeerGone | OtherError

definition TcpConnection_new :: "string \<Rightarrow> int \<Rightarrow> TcpConnection" where
  "TcpConnection_new name fd =
     \<lparr>conn_name = name, conn_fd = fd, tcp_state = kConnecting, tcp_reading = True, read_events = False, write_events = False,
      addedToLoop = False, outputBuffer = Buffer_init kInitialSize\<rparr>"

definition conn_open :: "TcpConnection \<Rightarrow> bool" where
  "conn_open c \<longleftrightarrow> tcp_state c = kConnected \<or> tcp_state c = kDisconnecting"

definition enableWriting :: "TcpConnection \<Rightarrow> TcpConnection" where
  "enableWriting c = c\<lparr>write_events := True, addedToLoop := True\<rparr>"

definition disableWriting :: "TcpConnection \<Rightarrow> TcpConnection" where
  "disableWriting c = c\<lparr>write_events := False, addedToLoop := True\<rparr>"

section \<open>Output\<close>

definition accepted_bytes :: "write_answer \<Rightarrow> byte list \<Rightarrow> nat" where
  "accepted_bytes ans d = (case ans of Accepted n \<Rightarrow> min n (length d) | _ \<Rightarrow> 0)"

definition wrote :: "byte list \<Rightarrow> net_out list" where
  "wrote d = (if d = [] then [] else [Wrote d])"

definition sendInLoop :: "write_answer \<Rightarrow> byte list \<Rightarrow> TcpConnection \<Rightarrow> net_out list \<times> TcpConnection" where
  "sendInLoop ans d c =
     (if tcp_state c = kDisconnected then ([], c)
      else let direct = \<not> write_events c \<and> readableBytes (outputBuffer c) = 0;
               nwrote = (if direct then accepted_bytes ans d else 0);
               faultError = (direct \<and> ans = PeerGone)
           in (wrote (take nwrote d),
               if \<not> faultError \<and> 0 < length d - nwrote
               then enableWriting (c\<lparr>outputBuffer := buf_append (drop nwrote d) (outputBuffer c)\<rparr>)
               else c))"

definition tcp_send :: "write_answer \<Rightarrow> byte list \<Rightarrow> TcpConnection \<Rightarrow> net_out list \<times> TcpConnection" where
  "tcp_send ans d c = (if tcp_state c = kConnected then sendInLoop ans d c else ([], c))"

definition shutdownInLoop :: "TcpConnection \<Rightarrow> net_out list" where
  "shutdownInLoop c = (if \<not> write_events c then [ShutdownWrite] else [])"

definition tcp_shutdown :: "TcpConnection \<Rightarrow> net_out list \<times> TcpConnection" where
  "tcp_shutdown c =
     (if tcp_state c = kConnected then (shutdownInLoop c, c\<lparr>tcp_state := kDisconnecting\<rparr>) else ([], c))"

definition handleWrite :: "write_answer \<Rightarrow> TcpConnection \<Rightarrow> (net_out list \<times> TcpConnection) result" where
  "handleWrite ans c =
     (if write_events c
      then let d = toStringPiece (outputBuffer c); n = accepted_bytes ans d in
           if 0 < n
           then rbind (retrieve n (outputBuffer c)) (\<lambda>b.
                  let c1 = c\<lparr>outputBuffer := b\<rparr> in
                  if readableBytes (outputBuffer c1) = 0
                  then let c2 = disableWriting c1
                       in Inr (wrote (take n d) @ (if tcp_state c2 = kDisconnecting then shutdownInLoop c2 else []), c2)
                  else Inr (wrote (take n d), c1))
           else Inr ([], c)
      else Inr ([], c))"

section \<open>Life cycle\<close>

definition connectEstablished :: "TcpConnection \<Rightarrow> TcpConnection result" where
  "connectEstablished c =
     c_assert (tcp_state c = kConnecting) (Inr (c\<lparr>tcp_state := kConnected, read_events := True, addedToLoop := True\<rparr>))"

definition disableAll :: "TcpConnection \<Rightarrow> TcpConnection" where
  "disableAll c = c\<lparr>read_events := False, write_events := False, addedToLoop := True\<rparr>"

text \<open>\<open>handleClose\<close> up to its callbacks.\<close>

definition handleClose :: "TcpConnection \<Rightarrow> TcpConnection result" where
  "handleClose c = c_assert (conn_open c) (Inr (disableAll (c\<lparr>tcp_state := kDisconnected\<rparr>)))"

text \<open>\<open>forceClose\<close>: the flag says whether \<open>forceCloseInLoop\<close> is queued. The delayed form sets the state at once, too.\<close>

definition forceClose :: "TcpConnection \<Rightarrow> bool \<times> TcpConnection" where
  "forceClose c = (if conn_open c then (True, c\<lparr>tcp_state := kDisconnecting\<rparr>) else (False, c))"

definition forceCloseWithDelay :: "TcpConnection \<Rightarrow> bool \<times> TcpConnection" where
  "forceCloseWithDelay c = (if conn_open c then (True, c\<lparr>tcp_state := kDisconnecting\<rparr>) else (False, c))"

text \<open>\<open>Channel::remove\<close>: the poller must know the channel, which must not ask for anything any more.\<close>

definition channel_remove :: "TcpConnection \<Rightarrow> TcpConnection result" where
  "channel_remove c =
     c_assert (\<not> read_events c \<and> \<not> write_events c \<and> addedToLoop c) (Inr (c\<lparr>addedToLoop := False\<rparr>))"

text \<open>\<open>connectDestroyed\<close>: the flag says whether the connection callback is called.\<close>

definition connectDestroyed :: "TcpConnection \<Rightarrow> (bool \<times> TcpConnection) result" where
  "connectDestroyed c =
     (if tcp_state c = kConnected
      then rbind (channel_remove (disableAll (c\<lparr>tcp_state := kDisconnected\<rparr>))) (\<lambda>c'. Inr (True, c'))
      else rbind (channel_remove c) (\<lambda>c'. Inr (False, c')))"

text \<open>
  The assertions of the destructors of the connection and of its channel. \<open>addedToLoop\<close> stands for both the flag \<open>~Channel\<close> looks at and
  the entry \<open>hasChannel\<close> looks for, which \<open>update\<close> and \<open>remove\<close> set and clear together. Its third assertion, that no event is being
  handled, holds because \<open>Channel::handleEvent\<close> holds the connection until it returns.
\<close>

definition TcpConnection_destroy :: "TcpConnection \<Rightarrow> bool" where
  "TcpConnection_destroy c \<longleftrightarrow> tcp_state c = kDisconnected \<and> \<not> addedToLoop c"

definition startRead :: "TcpConnection \<Rightarrow> TcpConnection" where
  "startRead c = (if \<not> tcp_reading c \<or> \<not> read_events c then c\<lparr>read_events := True, addedToLoop := True, tcp_reading := True\<rparr> else c)"

definition stopRead :: "TcpConnection \<Rightarrow> TcpConnection" where
  "stopRead c = (if tcp_reading c \<or> read_events c then c\<lparr>read_events := False, addedToLoop := True, tcp_reading := False\<rparr> else c)"

section \<open>The output is a stream\<close>

text \<open>What a client of the connection and the poller can ask of an established connection, one after the other.\<close>

datatype tcp_op = Send write_answer "byte list" | CanWrite write_answer | ShutdownOp | ForceCloseOp

fun tcp_step :: "TcpConnection \<Rightarrow> tcp_op \<Rightarrow> (net_out list \<times> TcpConnection) result" where
  "tcp_step c (Send ans d) = Inr (tcp_send ans d c)"
| "tcp_step c (CanWrite ans) = handleWrite ans c"
| "tcp_step c ShutdownOp = Inr (tcp_shutdown c)"
| "tcp_step c ForceCloseOp = Inr ([], snd (forceClose c))"

fun tcp_run :: "TcpConnection \<Rightarrow> tcp_op list \<Rightarrow> (net_out list \<times> TcpConnection) result" where
  "tcp_run c [] = Inr ([], c)"
| "tcp_run c (x # xs) =
     rbind (tcp_step c x) (\<lambda>(outs, c1). rbind (tcp_run c1 xs) (\<lambda>(outs', c2). Inr (outs @ outs', c2)))"

text \<open>The data the connection takes: what is sent before a shutdown or a forced close.\<close>

fun taken :: "tcp_op list \<Rightarrow> byte list" where
  "taken [] = []"
| "taken (Send ans d # xs) = d @ taken xs"
| "taken (CanWrite ans # xs) = taken xs"
| "taken (ShutdownOp # xs) = []"
| "taken (ForceCloseOp # xs) = []"

fun written :: "net_out list \<Rightarrow> byte list" where
  "written [] = []"
| "written (Wrote d # outs) = d @ written outs"
| "written (ShutdownWrite # outs) = written outs"

lemma written_append [simp]: "written (xs @ ys) = written xs @ written ys"
  by (induction xs rule: written.induct) simp_all

lemma written_wrote [simp]: "written (wrote d) = d"
  by (simp add: wrote_def)

lemma written_step:
  "written outs @ w1 = w @ d \<Longrightarrow> written outs2 @ w2 = w1 @ t \<Longrightarrow> written (outs @ outs2) @ w2 = w @ d @ t"
  by (metis append_assoc written_append)

lemma no_shutdown_wrote [simp]: "ShutdownWrite \<notin> set (wrote d)"
  by (simp add: wrote_def)

definition writable_op :: "tcp_op \<Rightarrow> bool" where
  "writable_op x \<longleftrightarrow> (\<forall>d. x \<noteq> Send PeerGone d)"

text \<open>The channel asks for writability exactly while output is waiting.\<close>

definition output_inv :: "TcpConnection \<Rightarrow> bool" where
  "output_inv c \<longleftrightarrow> buffer_inv (outputBuffer c) \<and> (write_events c \<longleftrightarrow> toStringPiece (outputBuffer c) \<noteq> [])"

abbreviation waiting :: "TcpConnection \<Rightarrow> byte list" where
  "waiting c \<equiv> toStringPiece (outputBuffer c)"

lemma channel_writing [simp]:
  "outputBuffer (enableWriting c) = outputBuffer c" "tcp_state (enableWriting c) = tcp_state c" "write_events (enableWriting c)"
  "outputBuffer (disableWriting c) = outputBuffer c" "tcp_state (disableWriting c) = tcp_state c" "\<not> write_events (disableWriting c)"
  "conn_name (enableWriting c) = conn_name c" "conn_name (disableWriting c) = conn_name c" "conn_fd (enableWriting c) = conn_fd c"
  "conn_fd (disableWriting c) = conn_fd c" "addedToLoop (enableWriting c)" "addedToLoop (disableWriting c)"
  "read_events (enableWriting c) = read_events c" "read_events (disableWriting c) = read_events c"
  by (simp_all add: enableWriting_def disableWriting_def)

lemma readable_waiting: "buffer_inv (outputBuffer c) \<Longrightarrow> readableBytes (outputBuffer c) = length (waiting c)"
  using length_contents by simp

lemma accepted_le [simp]: "accepted_bytes ans d \<le> length d"
  by (simp add: accepted_bytes_def split: write_answer.split)

lemma send_effect:
  assumes "output_inv c" "ans \<noteq> PeerGone" "tcp_state c = kConnected"
  shows "\<exists>outs c'. tcp_send ans d c = (outs, c') \<and> output_inv c' \<and> tcp_state c' = kConnected \<and>
    written outs @ waiting c' = waiting c @ d \<and> ShutdownWrite \<notin> set outs"
proof (cases "write_events c")
  case True
  then have "waiting c \<noteq> []" "buffer_inv (outputBuffer c)" using assms(1) by (simp_all add: output_inv_def)
  then show ?thesis
    using True assms(1,3) by (cases "d = []") (simp_all add: tcp_send_def sendInLoop_def output_inv_def wrote_def buf_simps inv_intros)
next
  case False
  then have w: "waiting c = []" "buffer_inv (outputBuffer c)" using assms(1) by (simp_all add: output_inv_def)
  have e: "tcp_send ans d c = (wrote (take (accepted_bytes ans d) d),
      if 0 < length d - accepted_bytes ans d
      then enableWriting (c\<lparr>outputBuffer := buf_append (drop (accepted_bytes ans d) d) (outputBuffer c)\<rparr>) else c)"
    using False w assms(2,3) readable_waiting [of c] by (simp add: tcp_send_def sendInLoop_def Let_def)
  show ?thesis
  proof (cases "accepted_bytes ans d = length d")
    case True
    with e w False assms(1,3) show ?thesis by simp
  next
    case lt: False
    then have "0 < length d - accepted_bytes ans d" using accepted_le [of ans d] by linarith
    then show ?thesis using e w assms(3) by (simp add: output_inv_def buf_simps inv_intros)
  qed
qed

lemma handleWrite_effect:
  assumes "output_inv c"
  shows "\<exists>outs c' shut. handleWrite ans c = Inr (outs @ shut, c') \<and> output_inv c' \<and> tcp_state c' = tcp_state c \<and>
    written outs @ waiting c' = waiting c \<and> ShutdownWrite \<notin> set outs \<and>
    (shut = [] \<and> (waiting c' = [] \<longrightarrow> waiting c = [] \<or> tcp_state c \<noteq> kDisconnecting) \<or>
     shut = [ShutdownWrite] \<and> tcp_state c = kDisconnecting \<and> waiting c \<noteq> [] \<and> waiting c' = [])"
proof (cases "write_events c \<and> 0 < accepted_bytes ans (waiting c)")
  case False
  then have "handleWrite ans c = Inr ([] @ [], c)" by (auto simp: handleWrite_def Let_def)
  with assms False show ?thesis by (intro exI [of _ "[]"] exI [of _ c]) (auto simp: output_inv_def)
next
  case True
  let ?n = "accepted_bytes ans (waiting c)"
  let ?c1 = "c\<lparr>outputBuffer := advance ?n (outputBuffer c)\<rparr>"
  have b: "buffer_inv (outputBuffer c)" "buffer_inv (outputBuffer ?c1)" "waiting ?c1 = drop ?n (waiting c)"
    using assms by (simp_all add: output_inv_def buf_simps inv_intros)
  have r: "readableBytes (outputBuffer ?c1) = length (waiting c) - ?n"
    using readable_waiting [OF b(2)] b(3) by simp
  have ne: "waiting c \<noteq> []" using True assms by (simp add: output_inv_def)
  have t: "retrieve ?n (outputBuffer c) = Inr (advance ?n (outputBuffer c))"
    using readable_waiting [OF b(1)] by (intro retrieve_ok) simp
  show ?thesis
  proof (cases "length (waiting c) = ?n")
    case all: True
    let ?shut = "if tcp_state c = kDisconnecting then [ShutdownWrite] else []"
    have "handleWrite ans c = Inr (wrote (take ?n (waiting c)) @ ?shut, disableWriting ?c1)"
      using True r all t by (simp add: handleWrite_def Let_def shutdownInLoop_def)
    moreover have "waiting ?c1 = []" using b(3) all by simp
    ultimately show ?thesis
      using b(2) ne all by (intro exI [of _ "wrote (take ?n (waiting c))"] exI [of _ "disableWriting ?c1"] exI [of _ ?shut])
        (simp add: output_inv_def)
  next
    case False
    then have lt: "?n < length (waiting c)" using accepted_le [of ans "waiting c"] by linarith
    then have "handleWrite ans c = Inr (wrote (take ?n (waiting c)) @ [], ?c1)"
      using True r t by (simp add: handleWrite_def Let_def)
    moreover have "drop ?n (waiting c) \<noteq> []" using lt by simp
    ultimately show ?thesis
      using b True by (intro exI [of _ "wrote (take ?n (waiting c))"] exI [of _ ?c1] exI [of _ "[]"]) (simp add: output_inv_def)
  qed
qed

lemma disconnecting_idle:
  assumes "output_inv c" "tcp_state c = kDisconnecting" "waiting c = []"
  shows "tcp_run c xs = Inr ([], c)"
  using assms
proof (induction xs)
  case Nil
  then show ?case by simp
next
  case (Cons x xs)
  have "tcp_step c x = Inr ([], c)"
    using Cons.prems
    by (cases x) (simp_all add: tcp_send_def handleWrite_def tcp_shutdown_def forceClose_def conn_open_def output_inv_def)
  with Cons show ?case by simp
qed

text \<open>The end of the stream is announced at most once, as the last thing, with nothing waiting.\<close>

definition ends_once :: "net_out list \<Rightarrow> TcpConnection \<Rightarrow> bool" where
  "ends_once outs c \<longleftrightarrow>
     ShutdownWrite \<notin> set outs \<or> (\<exists>pre. outs = pre @ [ShutdownWrite] \<and> ShutdownWrite \<notin> set pre \<and> waiting c = [])"

lemma ends_once_prefix: "ShutdownWrite \<notin> set pre \<Longrightarrow> ends_once outs c \<Longrightarrow> ends_once (pre @ outs) c"
  unfolding ends_once_def by (metis Un_iff append.assoc set_append)

lemma disconnecting_stream:
  "output_inv c \<Longrightarrow> tcp_state c = kDisconnecting \<Longrightarrow>
     \<exists>outs c'. tcp_run c xs = Inr (outs, c') \<and> written outs @ waiting c' = waiting c \<and> ends_once outs c'"
proof (induction xs arbitrary: c)
  case Nil
  then show ?case by (simp add: ends_once_def)
next
  case (Cons x xs)
  have other: ?case if "tcp_step c x = Inr ([], c)"
    using Cons.IH [OF Cons.prems] that by auto
  show ?case
  proof (cases x)
    case (CanWrite ans)
    obtain outs c1 shut where h: "handleWrite ans c = Inr (outs @ shut, c1)" "output_inv c1" "tcp_state c1 = tcp_state c"
      "written outs @ waiting c1 = waiting c" "ShutdownWrite \<notin> set outs"
      "shut = [] \<or> shut = [ShutdownWrite] \<and> waiting c1 = []"
      using handleWrite_effect [OF Cons.prems(1), of ans] by blast
    have st: "tcp_state c1 = kDisconnecting" using h(3) Cons.prems(2) by simp
    show ?thesis
    proof (cases "shut = []")
      case True
      obtain outs2 c2 where "tcp_run c1 xs = Inr (outs2, c2)" "written outs2 @ waiting c2 = waiting c1" "ends_once outs2 c2"
        using Cons.IH [OF h(2) st] by blast
      with h(1,4,5) True CanWrite ends_once_prefix [OF h(5)] show ?thesis by simp
    next
      case False
      with h(6) have s: "shut = [ShutdownWrite]" "waiting c1 = []" by simp_all
      with disconnecting_idle [OF h(2) st] h(1,4,5) CanWrite show ?thesis by (auto simp: ends_once_def)
    qed
  qed (use other Cons.prems(2) in \<open>simp_all add: tcp_send_def tcp_shutdown_def forceClose_def conn_open_def\<close>)
qed

lemma connected_stream:
  "output_inv c \<Longrightarrow> tcp_state c = kConnected \<Longrightarrow> \<forall>x \<in> set xs. writable_op x \<Longrightarrow>
     \<exists>outs c'. tcp_run c xs = Inr (outs, c') \<and> written outs @ waiting c' = waiting c @ taken xs \<and> ends_once outs c'"
proof (induction xs arbitrary: c)
  case Nil
  then show ?case by (simp add: ends_once_def)
next
  case (Cons x xs)
  show ?case
  proof (cases x)
    case (Send ans d)
    have "ans \<noteq> PeerGone" using Cons.prems(3) Send by (auto simp: writable_op_def)
    from send_effect [OF Cons.prems(1) this Cons.prems(2), of d] obtain outs c1 where s: "tcp_send ans d c = (outs, c1)"
      "output_inv c1" "tcp_state c1 = kConnected" "written outs @ waiting c1 = waiting c @ d" "ShutdownWrite \<notin> set outs" by blast
    obtain outs2 c2 where "tcp_run c1 xs = Inr (outs2, c2)" "written outs2 @ waiting c2 = waiting c1 @ taken xs" "ends_once outs2 c2"
      using Cons.IH [OF s(2,3)] Cons.prems(3) by auto
    with s(1,5) Send ends_once_prefix [OF s(5)] written_step [OF s(4)] show ?thesis by auto
  next
    case (CanWrite ans)
    obtain outs c1 shut where h: "handleWrite ans c = Inr (outs @ shut, c1)" "output_inv c1" "tcp_state c1 = kConnected"
      "written outs @ waiting c1 = waiting c" "ShutdownWrite \<notin> set outs" "shut = []"
      using handleWrite_effect [OF Cons.prems(1), of ans] Cons.prems(2) by auto
    obtain outs2 c2 where "tcp_run c1 xs = Inr (outs2, c2)" "written outs2 @ waiting c2 = waiting c1 @ taken xs" "ends_once outs2 c2"
      using Cons.IH [OF h(2,3)] Cons.prems(3) by auto
    with h(1,5,6) CanWrite ends_once_prefix [OF h(5)] written_step [of outs "waiting c1" "waiting c" "[]"] h(4) show ?thesis by auto
  next
    case ShutdownOp
    let ?c1 = "c\<lparr>tcp_state := kDisconnecting\<rparr>"
    have c1: "output_inv ?c1" "tcp_state ?c1 = kDisconnecting" using Cons.prems(1) by (simp_all add: output_inv_def)
    have step: "tcp_step c x = Inr (shutdownInLoop c, ?c1)" using ShutdownOp Cons.prems(2) by (simp add: tcp_shutdown_def)
    show ?thesis
    proof (cases "write_events c")
      case True
      with disconnecting_stream [OF c1, of xs] step ShutdownOp show ?thesis by (auto simp: shutdownInLoop_def)
    next
      case False
      then have "waiting ?c1 = []" using Cons.prems(1) by (simp add: output_inv_def)
      with disconnecting_idle [OF c1 this] step False ShutdownOp show ?thesis by (simp add: shutdownInLoop_def ends_once_def)
    qed
  next
    case ForceCloseOp
    let ?c1 = "c\<lparr>tcp_state := kDisconnecting\<rparr>"
    have c1: "output_inv ?c1" "tcp_state ?c1 = kDisconnecting" using Cons.prems(1) by (simp_all add: output_inv_def)
    have "tcp_step c x = Inr ([], ?c1)" using ForceCloseOp Cons.prems(2) by (simp add: forceClose_def conn_open_def)
    with disconnecting_stream [OF c1, of xs] ForceCloseOp show ?thesis by auto
  qed
qed

text \<open>What every operation on an open connection keeps.\<close>

lemma tcp_send_keeps:
  assumes "output_inv c"
  shows "output_inv (snd (tcp_send ans d c)) \<and> tcp_state (snd (tcp_send ans d c)) = tcp_state c \<and>
    conn_name (snd (tcp_send ans d c)) = conn_name c \<and> conn_fd (snd (tcp_send ans d c)) = conn_fd c \<and>
    (addedToLoop c \<longrightarrow> addedToLoop (snd (tcp_send ans d c)))"
proof (cases "write_events c")
  case True
  with assms show ?thesis by (auto simp: tcp_send_def sendInLoop_def Let_def output_inv_def buf_simps inv_intros)
next
  case False
  have "drop (accepted_bytes ans d) d \<noteq> []" if "accepted_bytes ans d < length d" using that by simp
  with False assms show ?thesis by (auto simp: tcp_send_def sendInLoop_def Let_def output_inv_def buf_simps inv_intros)
qed

lemma handleWrite_total: "output_inv c \<Longrightarrow> \<exists>res. handleWrite ans c = Inr res"
  using handleWrite_effect [of c ans] by blast

lemma handleWrite_keeps:
  assumes "output_inv c" "handleWrite ans c = Inr res"
  shows "output_inv (snd res) \<and> tcp_state (snd res) = tcp_state c \<and> conn_name (snd res) = conn_name c \<and>
    conn_fd (snd res) = conn_fd c \<and> (addedToLoop c \<longrightarrow> addedToLoop (snd res))"
proof -
  have "output_inv (snd res) \<and> tcp_state (snd res) = tcp_state c"
    using handleWrite_effect [OF assms(1), of ans] assms(2) by auto
  moreover have "conn_name (snd res) = conn_name c \<and> conn_fd (snd res) = conn_fd c \<and> (addedToLoop c \<longrightarrow> addedToLoop (snd res))"
    using assms(2) by (auto simp: handleWrite_def Let_def rbind_eq_Inr split: if_splits)
  ultimately show ?thesis by simp
qed

lemma handleWrite_quiet: "\<not> write_events c \<Longrightarrow> handleWrite ans c = Inr ([], c)"
  by (simp add: handleWrite_def)

text \<open>
  C19: What is sent arrives, in order and complete, on a connection whose peer has not gone (no \<open>send\<close> is answered \<open>EPIPE\<close> or
  \<open>ECONNRESET\<close>, in which case \<open>sendInLoop\<close> drops the data): whatever way the kernel takes the data in pieces, no assertion fails, and what
  the connection wrote followed by what waits in its output buffer is, at any time, exactly the data sent before the first
  shutdown or forced close. The end of the stream is announced at most once, as
  the last thing written, and only when nothing waits: a shutdown behind a reply never cuts the reply off.
\<close>

theorem output_is_a_stream:
  assumes "output_inv c" "waiting c = []" "tcp_state c = kConnected" "\<forall>x \<in> set xs. writable_op x"
  shows "\<exists>outs c'. tcp_run c xs = Inr (outs, c') \<and> written outs @ waiting c' = taken xs \<and> ends_once outs c'"
  using connected_stream [OF assms(1,3,4)] assms(2) by simp

theorem output_is_a_stream_witness:
  "\<exists>outs c'. tcp_run ((TcpConnection_new ''RtspServer-0.0.0.0:554#1'' 9)\<lparr>tcp_state := kConnected\<rparr>)
      [Send (Accepted 2) [1, 2, 3, 4], Send WouldBlock [5], ShutdownOp, CanWrite (Accepted 1), CanWrite (Accepted 9)] = Inr (outs, c') \<and>
    written outs @ waiting c' = [1, 2, 3, 4, 5] \<and> ends_once outs c'"
proof -
  let ?c = "(TcpConnection_new ''RtspServer-0.0.0.0:554#1'' 9)\<lparr>tcp_state := kConnected\<rparr>"
  have "output_inv ?c" "waiting ?c = []" "tcp_state ?c = kConnected"
    by (simp_all add: TcpConnection_new_def output_inv_def buf_simps inv_intros)
  from output_is_a_stream [OF this, of "[Send (Accepted 2) [1, 2, 3, 4], Send WouldBlock [5], ShutdownOp, CanWrite (Accepted 1), CanWrite (Accepted 9)]"]
  show ?thesis by (simp add: writable_op_def)
qed

end
