(* ===== verification/Tcp_Server.thy ===== *)
theory Tcp_Server
  imports Rtsp_Server Tcp_Connection
begin

text \<open>
  The network library around the RTSP server: \<open>TcpServer.cc\<close>, the loop's functors (\<open>EventLoop.cc\<close>), its timers
  (\<open>TimerQueue.cc\<close>) and the dispatch of a channel's events (\<open>Channel.cc\<close>), all under
  \<open>src/3rdparty/muduo/net/\<close>, put together with \<open>RtspServer\<close>, whose callbacks they call and whose answers
  (\<open>sendMessage\<close>, \<open>shutdown\<close>, \<open>forceCloseWithDelay\<close>) they carry out. One thread runs the loop; a step is one
  wake-up of it, or one call from the thread that pushes frames.
\<close>

section \<open>State\<close>

text \<open>
  \<open>tcp_conns\<close> holds the connection objects that exist, by their names, \<open>connections\<close> the names in the map of
  \<open>TcpServer\<close>. A queued functor keeps its connection alive; a timer of \<open>forceCloseWithDelay\<close> does not (weak
  callback). \<open>sockets\<close> is what the kernel was given on each connection.
\<close>

datatype loop_functor = ConnectDestroyed string | ForceCloseInLoop string

record net =
  server_name :: string
  ipPort :: string
  nextConnId :: nat
  tcp_conns :: "string \<rightharpoonup> TcpConnection"
  connections :: "string set"
  pendingFunctors :: "loop_functor list"
  timers :: "(int \<times> string) list"
  sockets :: "string \<Rightarrow> net_out list"

record system =
  sys_net :: net
  sys_rtsp :: RtspServer

fun functor_conn :: "loop_functor \<Rightarrow> string" where
  "functor_conn (ConnectDestroyed name) = name"
| "functor_conn (ForceCloseInLoop name) = name"

definition connName :: "net \<Rightarrow> nat \<Rightarrow> string" where
  "connName n k = server_name n @ snprintf 64 (''-'' @ c_str (ipPort n) @ ''#'' @ nat_str k)"

definition put_conn :: "TcpConnection \<Rightarrow> net \<Rightarrow> net" where
  "put_conn c n = n\<lparr>tcp_conns := (tcp_conns n)(conn_name c \<mapsto> c)\<rparr>"

definition give :: "string \<Rightarrow> net_out list \<times> TcpConnection \<Rightarrow> net \<Rightarrow> net" where
  "give name res n = (put_conn (snd res) n)\<lparr>sockets := (sockets n)(name := sockets n name @ fst res)\<rparr>"

definition tcp_of :: "TcpConnection \<Rightarrow> tcp_ref" where
  "tcp_of c = \<lparr>tcp_fd = conn_fd c, tcp_name = conn_name c\<rparr>"

section \<open>Carrying out what the RTSP layer asks for\<close>

text \<open>\<open>RtspConnection::sendMessage\<close>.\<close>

definition sendMessage :: "write_answer \<Rightarrow> string \<Rightarrow> TcpConnection \<Rightarrow> net_out list \<times> TcpConnection" where
  "sendMessage ans m c = tcp_send ans (bytes_of m) c"

text \<open>\<open>TimerQueue::insert\<close>: the timers are ordered by the time they expire at.\<close>

definition addTimer :: "int \<Rightarrow> string \<Rightarrow> net \<Rightarrow> net" where
  "addTimer t name n = n\<lparr>timers := insort_key fst (t, name) (timers n)\<rparr>"

definition kMicroSecondsPerSecond :: int where
  "kMicroSecondsPerSecond = 1000000"

definition runAfter :: "int \<Rightarrow> nat \<Rightarrow> string \<Rightarrow> net \<Rightarrow> net" where
  "runAfter now delay name n = addTimer (now + int delay * kMicroSecondsPerSecond) name n"

fun react :: "int \<Rightarrow> (nat \<Rightarrow> write_answer) \<Rightarrow> string \<Rightarrow> rtsp_out list \<Rightarrow> net \<Rightarrow> net" where
  "react now ans name [] n = n"
| "react now ans name (x # xs) n =
     react now ans name xs
       (case tcp_conns n name of
          None \<Rightarrow> n
        | Some c \<Rightarrow>
            (case x of
               Message m \<Rightarrow> give name (sendMessage (ans (length xs)) m c) n
             | Shutdown \<Rightarrow> give name (tcp_shutdown c) n
             | ForceCloseWithDelay k \<Rightarrow>
                 (case forceCloseWithDelay c of (armed, c') \<Rightarrow>
                    if armed then runAfter now k name (put_conn c' n) else n)
             | _ \<Rightarrow> n))"

text \<open>Packets sent over the RTSP connection: the weak pointer to it is locked first.\<close>

fun send_packets :: "tcp_conns \<Rightarrow> (nat \<Rightarrow> write_answer) \<Rightarrow> (nat \<times> rtp_out) list \<Rightarrow> net \<Rightarrow> net" where
  "send_packets tcps ans [] n = n"
| "send_packets tcps ans ((r, out) # outs) n =
     send_packets tcps ans outs
       (case out of
          UdpSend fd peer d \<Rightarrow> n
        | TcpSend d \<Rightarrow>
            (case tcps r of
               None \<Rightarrow> n
             | Some t \<Rightarrow>
                 (case tcp_conns n (tcp_name t) of
                    None \<Rightarrow> n
                  | Some c \<Rightarrow> give (tcp_name t) (tcp_send (ans (length outs)) d c) n)))"

section \<open>Connections come and go\<close>

text \<open>\<open>newConnection\<close>, with \<open>connectEstablished\<close> called at once; \<open>memory\<close>, \<open>m\<close> as for \<open>onConnection\<close>.\<close>

definition newConnection :: "int \<Rightarrow> RtspRequest \<Rightarrow> ClientMethod \<Rightarrow> system \<Rightarrow> system result" where
  "newConnection sockfd memory m s =
     (let n = sys_net s; name = connName n (nextConnId n); conn = TcpConnection_new name sockfd;
          n1 = n\<lparr>nextConnId := nextConnId n + 1, connections := insert name (connections n), sockets := (sockets n)(name := [])\<rparr>
      in rbind (connectEstablished conn) (\<lambda>c.
           Inr \<lparr>sys_net = put_conn c n1, sys_rtsp = snd (onConnection True (tcp_of c) memory m (sys_rtsp s))\<rparr>))"

definition conn_down :: "TcpConnection \<Rightarrow> RtspServer \<Rightarrow> RtspServer" where
  "conn_down c r = snd (onConnection False (tcp_of c) (RtspRequest_init METHOD_NONE channel_0 RTP_OVER_TCP) C_NONE r)"

text \<open>\<open>removeConnectionInLoop\<close>, called at once by \<open>removeConnection\<close>.\<close>

definition removeConnection :: "string \<Rightarrow> net \<Rightarrow> net result" where
  "removeConnection name n =
     c_assert (name \<in> connections n)
       (Inr (n\<lparr>connections := connections n - {name}, pendingFunctors := pendingFunctors n @ [ConnectDestroyed name]\<rparr>))"

text \<open>\<open>handleClose\<close> with the two callbacks.\<close>

definition close_conn :: "TcpConnection \<Rightarrow> system \<Rightarrow> system result" where
  "close_conn c s =
     rbind (handleClose c) (\<lambda>c'.
       rbind (removeConnection (conn_name c') (put_conn c' (sys_net s))) (\<lambda>n.
         Inr \<lparr>sys_net = n, sys_rtsp = conn_down c' (sys_rtsp s)\<rparr>))"

section \<open>Events of a channel\<close>

text \<open>What \<open>readv\<close> answers: the bytes read (none at the end of the stream), or an error, which is only logged.\<close>

datatype read_answer = Got "byte list" | ReadError

definition handleRead ::
  "int \<Rightarrow> env \<Rightarrow> read_answer \<Rightarrow> (nat \<Rightarrow> write_answer) \<Rightarrow> TcpConnection \<Rightarrow> system \<Rightarrow> system result" where
  "handleRead now e r ans c s =
     (case r of
        Got d \<Rightarrow>
          if d = [] then close_conn c s
          else rbind (onMessage e (conn_name c) d (sys_rtsp s)) (\<lambda>(outs, rtsp).
                 Inr \<lparr>sys_net = react now ans (conn_name c) outs (sys_net s), sys_rtsp = rtsp\<rparr>)
      | ReadError \<Rightarrow> Inr s)"

record revents =
  ev_hup :: bool
  ev_in :: bool
  ev_pri :: bool
  ev_out :: bool

definition with_conn :: "string \<Rightarrow> (TcpConnection \<Rightarrow> system \<Rightarrow> system result) \<Rightarrow> system \<Rightarrow> system result" where
  "with_conn name f s = (case tcp_conns (sys_net s) name of None \<Rightarrow> Inl NullDeref | Some c \<Rightarrow> f c s)"

definition write_channel :: "string \<Rightarrow> write_answer \<Rightarrow> TcpConnection \<Rightarrow> system \<Rightarrow> system result" where
  "write_channel name ans c s =
     rbind (handleWrite ans c) (\<lambda>res. Inr (s\<lparr>sys_net := give name res (sys_net s)\<rparr>))"

lemma write_channel_eq_Inr:
  "write_channel name ans c s = Inr t \<longleftrightarrow>
     (\<exists>res. handleWrite ans c = Inr res \<and> t = s\<lparr>sys_net := give name res (sys_net s)\<rparr>)"
  by (auto simp: write_channel_def rbind_eq_Inr)

definition handleEventWithGuard ::
  "string \<Rightarrow> revents \<Rightarrow> int \<Rightarrow> env \<Rightarrow> read_answer \<Rightarrow> (nat \<Rightarrow> write_answer) \<Rightarrow> write_answer \<Rightarrow> system \<Rightarrow> system result" where
  "handleEventWithGuard name ev now e r ans wans s =
     rbind (if ev_hup ev \<and> \<not> ev_in ev then with_conn name close_conn s else Inr s) (\<lambda>s1.
       rbind (if ev_in ev \<or> ev_pri ev then with_conn name (handleRead now e r ans) s1 else Inr s1) (\<lambda>s2.
         if ev_out ev
         then with_conn name (write_channel name wans) s2
         else Inr s2))"

section \<open>Functors and timers\<close>

definition run_functor :: "loop_functor \<Rightarrow> system \<Rightarrow> system result" where
  "run_functor f s =
     (case f of
        ForceCloseInLoop name \<Rightarrow> with_conn name (\<lambda>c s. if conn_open c then close_conn c s else Inr s) s
      | ConnectDestroyed name \<Rightarrow>
          with_conn name (\<lambda>c s. rbind (connectDestroyed c) (\<lambda>(down, c').
            Inr \<lparr>sys_net = put_conn c' (sys_net s),
                 sys_rtsp = (if down then conn_down c' (sys_rtsp s) else sys_rtsp s)\<rparr>)) s)"

fun run_functors :: "loop_functor list \<Rightarrow> system \<Rightarrow> system result" where
  "run_functors [] s = Inr s"
| "run_functors (f # fs) s = rbind (run_functor f s) (run_functors fs)"

definition referenced :: "net \<Rightarrow> string \<Rightarrow> bool" where
  "referenced n name \<longleftrightarrow> name \<in> connections n \<or> name \<in> set (map functor_conn (pendingFunctors n))"

text \<open>The functors that have run give up their references; the last one destroys the object.\<close>

fun release_refs :: "loop_functor list \<Rightarrow> net \<Rightarrow> net result" where
  "release_refs [] n = Inr n"
| "release_refs (f # fs) n =
     (case tcp_conns n (functor_conn f) of
        None \<Rightarrow> release_refs fs n
      | Some c \<Rightarrow>
          if referenced n (functor_conn f) then release_refs fs n
          else c_assert (TcpConnection_destroy c) (release_refs fs (n\<lparr>tcp_conns := (tcp_conns n)(functor_conn f := None)\<rparr>)))"

definition doPendingFunctors :: "system \<Rightarrow> system result" where
  "doPendingFunctors s =
     (let fs = pendingFunctors (sys_net s)
      in rbind (run_functors fs (s\<lparr>sys_net := (sys_net s)\<lparr>pendingFunctors := []\<rparr>\<rparr>)) (\<lambda>s1.
           rbind (release_refs fs (sys_net s1)) (\<lambda>n. Inr (s1\<lparr>sys_net := n\<rparr>))))"

text \<open>\<open>TimerQueue::handleRead\<close>: the timers that are due run; each is a weak callback of \<open>forceClose\<close>.\<close>

definition run_timer :: "int \<times> string \<Rightarrow> net \<Rightarrow> net" where
  "run_timer t n =
     (case tcp_conns n (snd t) of
        None \<Rightarrow> n
      | Some c \<Rightarrow>
          (case forceClose c of (queued, c') \<Rightarrow>
             (put_conn c' n)\<lparr>pendingFunctors := pendingFunctors n @ (if queued then [ForceCloseInLoop (snd t)] else [])\<rparr>))"

definition getExpired :: "int \<Rightarrow> net \<Rightarrow> (int \<times> string) list \<times> net" where
  "getExpired now n = (takeWhile (\<lambda>t. fst t \<le> now) (timers n), n\<lparr>timers := dropWhile (\<lambda>t. fst t \<le> now) (timers n)\<rparr>)"

definition handleTimers :: "int \<Rightarrow> net \<Rightarrow> net" where
  "handleTimers now n = (case getExpired now n of (expired, n') \<Rightarrow> fold run_timer expired n')"

section \<open>The system\<close>

datatype sys_event =
    Accept int RtspRequest ClientMethod
  | ChannelEvent string revents int env read_answer "nat \<Rightarrow> write_answer" write_answer
  | PendingFunctors
  | TimersDue int
  | PushFrame "nat \<Rightarrow> nat \<Rightarrow> byte list" "nat \<Rightarrow> byte list" nat MediaSessionId MediaChannelId AVFrame
  | PacketTask int "nat \<Rightarrow> write_answer"
  | Register MediaSession
  | Unregister MediaSessionId

fun sys_step :: "system \<Rightarrow> sys_event \<Rightarrow> system result" where
  "sys_step s (Accept fd memory m) = newConnection fd memory m s"
| "sys_step s (ChannelEvent name ev now e r ans wans) = handleEventWithGuard name ev now e r ans wans s"
| "sys_step s PendingFunctors = doPendingFunctors s"
| "sys_step s (TimersDue now) = Inr (s\<lparr>sys_net := handleTimers now (sys_net s)\<rparr>)"
| "sys_step s (PushFrame fresh blocks now k chn frame) =
     rbind (pushFrame fresh blocks now k chn frame (sys_rtsp s)) (\<lambda>(ok, r). Inr (s\<lparr>sys_rtsp := r\<rparr>))"
| "sys_step s (PacketTask sent ans) =
     rbind (run_task sent (sys_rtsp s)) (\<lambda>(outs, r).
       Inr \<lparr>sys_net = send_packets (rtpTcps (sys_rtsp s)) ans outs (sys_net s), sys_rtsp = r\<rparr>)"
| "sys_step s (Register ss) = Inr (s\<lparr>sys_rtsp := snd (addMediaSession ss (sys_rtsp s))\<rparr>)"
| "sys_step s (Unregister k) = Inr (s\<lparr>sys_rtsp := removeMediaSession k (sys_rtsp s)\<rparr>)"

definition net_init :: "string \<Rightarrow> string \<Rightarrow> net" where
  "net_init name addr =
     \<lparr>server_name = name, ipPort = addr, nextConnId = 1, tcp_conns = Map.empty, connections = {}, pendingFunctors = [],
      timers = [], sockets = (\<lambda>name. [])\<rparr>"

definition system_init :: "string \<Rightarrow> string \<Rightarrow> RtspServer \<Rightarrow> system" where
  "system_init name addr r = \<lparr>sys_net = net_init name addr, sys_rtsp = r\<rparr>"

end
