(* ===== verification/Network_Safety.thy ===== *)
theory Network_Safety
  imports Tcp_Server Server_Properties
begin

text \<open>
  The invariant of the network library's state around the RTSP server: which connection objects exist, in which state, and who
  holds them; and that sending, shutting down, forced closes and timers keep it.
\<close>

section \<open>The invariant of the network\<close>

text \<open>
  While \<open>doPendingFunctors\<close> runs, \<open>fs\<close> are the functors still to come and \<open>zs\<close> the connections the functors that have
  run still hold.
\<close>

definition tcp_ok :: "loop_functor list \<Rightarrow> net \<Rightarrow> string \<Rightarrow> TcpConnection \<Rightarrow> bool" where
  "tcp_ok fs n name c \<longleftrightarrow>
     conn_name c = name \<and> tcp_state c \<noteq> kConnecting \<and> (conn_open c \<longleftrightarrow> name \<in> connections n) \<and>
     (if conn_open c then output_inv c \<and> addedToLoop c
      else \<not> read_events c \<and> \<not> write_events c \<and> (addedToLoop c \<longleftrightarrow> ConnectDestroyed name \<in> set (fs @ pendingFunctors n)))"

fun is_destroy :: "loop_functor \<Rightarrow> bool" where
  "is_destroy (ConnectDestroyed name) = True"
| "is_destroy (ForceCloseInLoop name) = False"

definition net_inv :: "loop_functor list \<Rightarrow> string set \<Rightarrow> net \<Rightarrow> bool" where
  "net_inv fs zs n \<longleftrightarrow>
     (\<forall>name c. tcp_conns n name = Some c \<longrightarrow> tcp_ok fs n name c) \<and>
     (\<forall>name \<in> connections n. tcp_conns n name \<noteq> None) \<and>
     (\<forall>f \<in> set (fs @ pendingFunctors n). tcp_conns n (functor_conn f) \<noteq> None) \<and>
     (\<forall>name. ConnectDestroyed name \<in> set (fs @ pendingFunctors n) \<longrightarrow> name \<notin> connections n) \<and>
     distinct (filter is_destroy (fs @ pendingFunctors n)) \<and>
     (\<forall>name. tcp_conns n name \<noteq> None \<longrightarrow>
        name \<in> connections n \<or> name \<in> functor_conn ` set (fs @ pendingFunctors n) \<or> name \<in> zs) \<and>
     (\<forall>name. tcp_conns n name \<noteq> None \<longrightarrow> (\<exists>k < nextConnId n. name = connName n k)) \<and>
     length (ipPort n) \<le> 40 \<and> nextConnId n < 2 ^ 31"

lemma net_inv_parts:
  assumes "net_inv fs zs n"
  shows "tcp_conns n name = Some c \<Longrightarrow> tcp_ok fs n name c"
    "name \<in> connections n \<Longrightarrow> tcp_conns n name \<noteq> None"
    "f \<in> set fs \<or> f \<in> set (pendingFunctors n) \<Longrightarrow> tcp_conns n (functor_conn f) \<noteq> None"
    "ConnectDestroyed name \<in> set fs \<or> ConnectDestroyed name \<in> set (pendingFunctors n) \<Longrightarrow> name \<notin> connections n"
    "distinct (filter is_destroy (fs @ pendingFunctors n))"
    "tcp_conns n name \<noteq> None \<Longrightarrow> \<exists>k < nextConnId n. name = connName n k"
    "length (ipPort n) \<le> 40" "nextConnId n < 2 ^ 31"
  using assms unfolding net_inv_def by auto

lemma connName_inj:
  assumes "length (ipPort n) \<le> 40" "k < 2 ^ 31" "connName n j = connName n k" "j < 2 ^ 31"
  shows "j = k"
proof -
  have c: "length (c_str (ipPort n)) \<le> 40"
    using assms(1) length_takeWhile_le [of "\<lambda>c. c \<noteq> CHR 0x00" "ipPort n"] by (simp add: c_str_def)
  have l: "length (nat_str i) \<le> 10" if "i < 2 ^ 31" for i using that by (intro length_nat_str) simp_all
  have "snprintf 64 (''-'' @ c_str (ipPort n) @ ''#'' @ nat_str i) = ''-'' @ c_str (ipPort n) @ ''#'' @ nat_str i" if "i < 2 ^ 31" for i
    using c l [OF that] by (intro snprintf_fits) simp
  with assms(2-4) have "nat_str j = nat_str k" by (simp add: connName_def)
  then show ?thesis by (metis digits_val_nat_str)
qed

text \<open>Parts of the state the invariant does not look at.\<close>

lemma tcp_ok_frame [simp]:
  "tcp_ok fs (n\<lparr>sockets := x\<rparr>) = tcp_ok fs n" "tcp_ok fs (n\<lparr>timers := y\<rparr>) = tcp_ok fs n" "tcp_ok fs (put_conn c n) = tcp_ok fs n"
  "tcp_ok fs (n\<lparr>tcp_conns := z\<rparr>) = tcp_ok fs n"
  by (simp_all add: tcp_ok_def put_conn_def fun_eq_iff)

lemma connName_frame [simp]:
  "connName (n\<lparr>sockets := x\<rparr>) = connName n" "connName (n\<lparr>timers := y\<rparr>) = connName n" "connName (put_conn c n) = connName n"
  "connName (n\<lparr>connections := u\<rparr>) = connName n" "connName (n\<lparr>pendingFunctors := v\<rparr>) = connName n"
  "connName (n\<lparr>nextConnId := w\<rparr>) = connName n" "connName (n\<lparr>tcp_conns := z\<rparr>) = connName n"
  by (simp_all add: connName_def put_conn_def fun_eq_iff)

lemma net_inv_frame [simp]:
  "net_inv fs zs (n\<lparr>sockets := x\<rparr>) = net_inv fs zs n" "net_inv fs zs (n\<lparr>timers := y\<rparr>) = net_inv fs zs n"
  by (simp_all add: net_inv_def)

lemma put_conn_fields [simp]:
  "tcp_conns (put_conn c n) = (tcp_conns n)(conn_name c \<mapsto> c)" "connections (put_conn c n) = connections n"
  "pendingFunctors (put_conn c n) = pendingFunctors n" "nextConnId (put_conn c n) = nextConnId n" "ipPort (put_conn c n) = ipPort n"
  "timers (put_conn c n) = timers n" "sockets (put_conn c n) = sockets n"
  by (simp_all add: put_conn_def)

lemma net_inv_put:
  assumes "net_inv fs zs n" "tcp_conns n (conn_name c) \<noteq> None" "tcp_ok fs n (conn_name c) c"
  shows "net_inv fs zs (put_conn c n)"
  using assms unfolding net_inv_def by auto

text \<open>A network state that differs from another only in what its connections send and wait for.\<close>

definition same_links :: "net \<Rightarrow> net \<Rightarrow> bool" where
  "same_links n n' \<longleftrightarrow> connections n' = connections n \<and> nextConnId n' = nextConnId n \<and> connName n' = connName n \<and>
     dom (tcp_conns n') = dom (tcp_conns n)"

lemma same_links_refl [simp]: "same_links n n"
  by (simp add: same_links_def)

lemma same_links_trans: "same_links n n1 \<Longrightarrow> same_links n1 n2 \<Longrightarrow> same_links n n2"
  by (simp add: same_links_def)

lemma same_links_put: "tcp_conns n (conn_name c) \<noteq> None \<Longrightarrow> same_links n (put_conn c n)"
  by (auto simp: same_links_def)

lemma net_inv_give:
  assumes "net_inv fs zs n" "tcp_conns n name = Some c" "conn_name (snd res) = name" "tcp_ok fs n name (snd res)"
  shows "net_inv fs zs (give name res n) \<and> same_links n (give name res n) \<and> pendingFunctors (give name res n) = pendingFunctors n \<and>
    timers (give name res n) = timers n"
  using net_inv_put [of fs zs n "snd res"] assms by (auto simp: give_def same_links_def)

section \<open>Sending and closing keep it\<close>

lemma tcp_ok_step:
  assumes "tcp_ok fs n name c" "output_inv c \<Longrightarrow> output_inv c' \<and> tcp_state c' = tcp_state c \<and> conn_name c' = conn_name c \<and>
      (addedToLoop c \<longrightarrow> addedToLoop c')" "\<not> conn_open c \<Longrightarrow> c' = c"
  shows "tcp_ok fs n name c'"
  using assms by (cases "conn_open c") (auto simp: tcp_ok_def conn_open_def)

lemma tcp_ok_send:
  assumes "tcp_ok fs n name c"
  shows "tcp_ok fs n name (snd (tcp_send ans d c)) \<and> conn_name (snd (tcp_send ans d c)) = name"
proof -
  have "tcp_ok fs n name (snd (tcp_send ans d c))"
    using tcp_send_keeps [of c ans d] by (intro tcp_ok_step [OF assms]) (auto simp: tcp_send_def conn_open_def)
  then show ?thesis by (simp add: tcp_ok_def)
qed

lemma tcp_ok_write:
  assumes "tcp_ok fs n name c"
  shows "\<exists>res. handleWrite ans c = Inr res \<and> tcp_ok fs n name (snd res) \<and> conn_name (snd res) = name"
proof -
  have q: "\<not> conn_open c \<Longrightarrow> \<not> write_events c" and o: "conn_open c \<Longrightarrow> output_inv c" using assms by (simp_all add: tcp_ok_def)
  then obtain res where res: "handleWrite ans c = Inr res"
    using handleWrite_total [of c ans] handleWrite_quiet [of c ans] by (cases "conn_open c") auto
  moreover have "tcp_ok fs n name (snd res)"
    using handleWrite_keeps [of c ans res] handleWrite_quiet [of c ans] q res by (intro tcp_ok_step [OF assms]) auto
  ultimately show ?thesis by (auto simp: tcp_ok_def)
qed

lemma tcp_ok_disconnecting:
  assumes "tcp_ok fs n name c" "conn_open c"
  shows "tcp_ok fs n name (c\<lparr>tcp_state := kDisconnecting\<rparr>)"
  using assms by (auto simp: tcp_ok_def conn_open_def output_inv_def)

lemma tcp_ok_shutdown:
  assumes "tcp_ok fs n name c"
  shows "tcp_ok fs n name (snd (tcp_shutdown c)) \<and> conn_name (snd (tcp_shutdown c)) = name"
proof -
  have "conn_name c = name" using assms by (simp add: tcp_ok_def)
  then show ?thesis using assms tcp_ok_disconnecting [OF assms] by (simp add: tcp_shutdown_def conn_open_def)
qed

lemma react_inv:
  "net_inv fs zs n \<Longrightarrow>
     net_inv fs zs (react now ans name outs n) \<and> same_links n (react now ans name outs n) \<and>
     pendingFunctors (react now ans name outs n) = pendingFunctors n"
proof (induction outs arbitrary: n)
  case Nil
  then show ?case by simp
next
  case (Cons x xs)
  let ?n1 = "case tcp_conns n name of
          None \<Rightarrow> n
        | Some c \<Rightarrow>
            (case x of
               Message m \<Rightarrow> give name (sendMessage (ans (length xs)) m c) n
             | Shutdown \<Rightarrow> give name (tcp_shutdown c) n
             | ForceCloseWithDelay k \<Rightarrow>
                 (case forceCloseWithDelay c of (armed, c') \<Rightarrow>
                    if armed then runAfter now k name (put_conn c' n) else n)
             | _ \<Rightarrow> n)"
  have "net_inv fs zs ?n1 \<and> same_links n ?n1 \<and> pendingFunctors ?n1 = pendingFunctors n"
  proof (cases "tcp_conns n name")
    case None
    then show ?thesis using Cons.prems by simp
  next
    case (Some c)
    have ok: "tcp_ok fs n name c" and nm: "conn_name c = name" using net_inv_parts(1) [OF Cons.prems Some] by (simp_all add: tcp_ok_def)
    show ?thesis
    proof (cases x)
      case (Message m)
      then show ?thesis
        using Some net_inv_give [OF Cons.prems Some] tcp_ok_send [OF ok] by (simp add: sendMessage_def)
    next
      case Shutdown
      then show ?thesis using Some net_inv_give [OF Cons.prems Some] tcp_ok_shutdown [OF ok] by simp
    next
      case (ForceCloseWithDelay k)
      show ?thesis
      proof (cases "conn_open c")
        case True
        have "net_inv fs zs (put_conn (c\<lparr>tcp_state := kDisconnecting\<rparr>) n)"
          using net_inv_put [OF Cons.prems] tcp_ok_disconnecting [OF ok True] Some nm by simp
        then show ?thesis
          using Some ForceCloseWithDelay True nm
          by (auto simp: forceCloseWithDelay_def runAfter_def addTimer_def same_links_def)
      next
        case False
        then show ?thesis using Some ForceCloseWithDelay Cons.prems by (simp add: forceCloseWithDelay_def)
      qed
    qed (use Some Cons.prems in simp_all)
  qed
  with Cons.IH [of ?n1] same_links_trans show ?case by (metis (no_types, lifting) react.simps(2))
qed

lemma send_packets_inv:
  "net_inv fs zs n \<Longrightarrow>
     net_inv fs zs (send_packets tcps ans outs n) \<and> same_links n (send_packets tcps ans outs n) \<and>
     pendingFunctors (send_packets tcps ans outs n) = pendingFunctors n \<and> timers (send_packets tcps ans outs n) = timers n"
proof (induction outs arbitrary: n)
  case Nil
  then show ?case by simp
next
  case (Cons x xs)
  obtain r out where x: "x = (r, out)" by (cases x)
  have other: ?case if "send_packets tcps ans (x # xs) n = send_packets tcps ans xs n"
    using Cons.IH [OF Cons.prems] that by simp
  show ?case
  proof (cases out)
    case (UdpSend fd peer d)
    with other x show ?thesis by simp
  next
    case (TcpSend d)
    show ?thesis
    proof (cases "tcps r")
      case None
      with other x TcpSend show ?thesis by simp
    next
      case t: (Some t)
      show ?thesis
      proof (cases "tcp_conns n (tcp_name t)")
        case None
        with other x TcpSend t show ?thesis by simp
      next
        case (Some c)
        let ?n1 = "give (tcp_name t) (tcp_send (ans (length xs)) d c) n"
        have "tcp_ok fs n (tcp_name t) c" using net_inv_parts(1) [OF Cons.prems Some] .
        from net_inv_give [OF Cons.prems Some] tcp_ok_send [OF this, of "ans (length xs)" d]
        have g: "net_inv fs zs ?n1" "same_links n ?n1" "pendingFunctors ?n1 = pendingFunctors n" "timers ?n1 = timers n" by simp_all
        from Cons.IH [OF g(1)] g same_links_trans [OF g(2)] x TcpSend t Some show ?thesis by simp
      qed
    qed
  qed
qed

lemma net_inv_force:
  assumes "net_inv fs zs n" "tcp_conns n name \<noteq> None"
  shows "net_inv fs zs (n\<lparr>pendingFunctors := pendingFunctors n @ [ForceCloseInLoop name]\<rparr>)"
proof -
  let ?n = "n\<lparr>pendingFunctors := pendingFunctors n @ [ForceCloseInLoop name]\<rparr>"
  have "tcp_ok fs ?n = tcp_ok fs n" by (simp add: tcp_ok_def fun_eq_iff)
  moreover have "filter is_destroy (fs @ pendingFunctors ?n) = filter is_destroy (fs @ pendingFunctors n)" by simp
  moreover have "set (fs @ pendingFunctors ?n) = insert (ForceCloseInLoop name) (set (fs @ pendingFunctors n))" by auto
  ultimately show ?thesis using assms unfolding net_inv_def by (simp only: connName_frame) auto
qed

lemma run_timer_inv:
  assumes "net_inv fs zs n"
  shows "net_inv fs zs (run_timer t n) \<and> same_links n (run_timer t n)"
proof (cases "tcp_conns n (snd t)")
  case None
  then show ?thesis using assms by (simp add: run_timer_def)
next
  case (Some c)
  have ok: "tcp_ok fs n (snd t) c" and nm: "conn_name c = snd t" using net_inv_parts(1) [OF assms Some] by (simp_all add: tcp_ok_def)
  show ?thesis
  proof (cases "conn_open c")
    case True
    let ?n1 = "put_conn (c\<lparr>tcp_state := kDisconnecting\<rparr>) n"
    have i: "net_inv fs zs ?n1"
      using net_inv_put [OF assms] tcp_ok_disconnecting [OF ok True] Some nm by simp
    have "net_inv fs zs (?n1\<lparr>pendingFunctors := pendingFunctors n @ [ForceCloseInLoop (snd t)]\<rparr>)"
      using net_inv_force [OF i, of "snd t"] nm by simp
    then show ?thesis using Some True nm by (auto simp: run_timer_def forceClose_def same_links_def)
  next
    case False
    then have "run_timer t n = put_conn c n" using Some by (simp add: run_timer_def forceClose_def)
    then show ?thesis using net_inv_put [OF assms] ok nm Some same_links_put by simp
  qed
qed

lemma fold_timers_inv: "net_inv fs zs n \<Longrightarrow> net_inv fs zs (fold run_timer ts n) \<and> same_links n (fold run_timer ts n)"
proof (induction ts arbitrary: n)
  case Nil
  then show ?case by simp
next
  case (Cons t ts)
  from run_timer_inv [OF Cons.prems, of t] Cons.IH [of "run_timer t n"] same_links_trans show ?case by fastforce
qed

end
