(* ===== verification/System_Run.thy ===== *)
theory System_Run
  imports Network_Safety
begin

text \<open>
  Runs of the whole system: each step of the network library is a sequence of steps of the RTSP server the server's own
  assumptions allow, and the callbacks of one connection come in the order up, messages, down.
\<close>

section \<open>Simulation\<close>

text \<open>Where a name is in its life, as the server sees it.\<close>

datatype phase = Unborn | Live | Gone

definition phase_of :: "net \<Rightarrow> string \<Rightarrow> phase" where
  "phase_of n name =
     (if name \<in> connections n then Live else if \<exists>k < nextConnId n. name = connName n k then Gone else Unborn)"

fun phase_step :: "string \<Rightarrow> phase \<Rightarrow> server_event \<Rightarrow> phase option" where
  "phase_step name p (Connected conn memory m) =
     (if tcp_name conn = name then (if p = Unborn then Some Live else None) else Some p)"
| "phase_step name p (Disconnected conn) =
     (if tcp_name conn = name then (if p = Live then Some Gone else None) else Some p)"
| "phase_step name p (Received e name' d) = (if name' = name \<and> p \<noteq> Live then None else Some p)"
| "phase_step name p e = Some p"

fun phase_run :: "string \<Rightarrow> phase \<Rightarrow> server_event list \<Rightarrow> phase option" where
  "phase_run name p [] = Some p"
| "phase_run name p (e # es) = (case phase_step name p e of None \<Rightarrow> None | Some q \<Rightarrow> phase_run name q es)"

lemma phase_run_append: "phase_run name p es = Some q \<Longrightarrow> phase_run name p (es @ fs) = phase_run name q fs"
  by (induction es arbitrary: p) (auto split: option.splits)

definition simulates :: "system \<Rightarrow> server_event list \<Rightarrow> system \<Rightarrow> bool" where
  "simulates s es t \<longleftrightarrow>
     admissible server_step server_ok (sys_rtsp s) es \<and> run_steps server_step (sys_rtsp s) es = Inr (sys_rtsp t) \<and>
     (\<forall>name. phase_run name (phase_of (sys_net s) name) es = Some (phase_of (sys_net t) name))"

lemma simulates_refl: "sys_rtsp t = sys_rtsp s \<Longrightarrow> phase_of (sys_net t) = phase_of (sys_net s) \<Longrightarrow> simulates s [] t"
  by (simp add: simulates_def)

lemma simulates_append: "simulates s es t \<Longrightarrow> simulates t fs u \<Longrightarrow> simulates s (es @ fs) u"
  by (simp add: simulates_def admissible_append run_steps_append phase_run_append)

lemma phase_of_links: "same_links n n' \<Longrightarrow> phase_of n' = phase_of n"
  by (simp add: phase_of_def same_links_def fun_eq_iff)

lemma phase_of_frame [simp]:
  "phase_of (n\<lparr>sockets := x\<rparr>) = phase_of n" "phase_of (n\<lparr>timers := y\<rparr>) = phase_of n" "phase_of (put_conn c n) = phase_of n"
  "phase_of (n\<lparr>pendingFunctors := v\<rparr>) = phase_of n" "phase_of (n\<lparr>tcp_conns := z\<rparr>) = phase_of n"
  by (simp_all add: phase_of_def fun_eq_iff)

definition sys_inv_at :: "loop_functor list \<Rightarrow> string set \<Rightarrow> system \<Rightarrow> bool" where
  "sys_inv_at fs zs s \<longleftrightarrow>
     net_inv fs zs (sys_net s) \<and> server_inv (sys_rtsp s) \<and> dom (rtspConnMap (sys_rtsp s)) = connections (sys_net s)"

definition sys_inv :: "system \<Rightarrow> bool" where
  "sys_inv s \<longleftrightarrow> sys_inv_at [] {} s"

section \<open>Closing a connection\<close>

lemma conn_down_rtsp:
  assumes "server_inv r" "conn_name c = name"
  shows "server_inv (conn_down c r) \<and> rtspConnMap (conn_down c r) = (rtspConnMap r)(name := None)"
  using server_inv_release [OF assms(1), of name] assms(2) by (simp add: conn_down_def onConnection_def tcp_of_def)

lemma net_inv_closed:
  assumes "net_inv fs zs n" "tcp_conns n name = Some c" "conn_open c" "conn_name c' = name"
    and "tcp_state c' = kDisconnected" "\<not> read_events c'" "\<not> write_events c'" "addedToLoop c'"
  shows "net_inv fs zs ((put_conn c' n)\<lparr>connections := connections n - {name},
    pendingFunctors := pendingFunctors n @ [ConnectDestroyed name]\<rparr>)" (is "net_inv fs zs ?m")
proof -
  have ok: "tcp_ok fs n x d" if "tcp_conns n x = Some d" for x d using net_inv_parts(1) [OF assms(1) that] .
  have live: "name \<in> connections n" using ok [OF assms(2)] assms(3) by (simp add: tcp_ok_def)
  have no: "ConnectDestroyed name \<notin> set (fs @ pendingFunctors n)" using net_inv_parts(4) [OF assms(1), of name] live by auto
  have set_m: "set (fs @ pendingFunctors ?m) = insert (ConnectDestroyed name) (set (fs @ pendingFunctors n))" by auto
  have conns: "tcp_ok fs ?m x d" if "tcp_conns ?m x = Some d" for x d
  proof (cases "x = name")
    case True
    then show ?thesis using that assms(4-8) set_m by (auto simp: tcp_ok_def conn_open_def)
  next
    case False
    then have "tcp_ok fs n x d" using that ok assms(4) by simp
    then show ?thesis using False set_m by (auto simp: tcp_ok_def)
  qed
  have d: "distinct (filter is_destroy (fs @ pendingFunctors ?m))"
    using net_inv_parts(5) [OF assms(1)] no by (auto simp: distinct_append)
  have "\<forall>x \<in> connections ?m. tcp_conns ?m x \<noteq> None" using net_inv_parts(2) [OF assms(1)] assms(4) by auto
  moreover have "\<forall>f \<in> set (fs @ pendingFunctors ?m). tcp_conns ?m (functor_conn f) \<noteq> None"
    using net_inv_parts(3) [OF assms(1)] assms(4) set_m by auto
  moreover have "\<forall>x. ConnectDestroyed x \<in> set (fs @ pendingFunctors ?m) \<longrightarrow> x \<notin> connections ?m"
    using net_inv_parts(4) [OF assms(1)] set_m by auto
  moreover have "\<forall>x. tcp_conns ?m x \<noteq> None \<longrightarrow>
      x \<in> connections ?m \<or> x \<in> functor_conn ` set (fs @ pendingFunctors ?m) \<or> x \<in> zs"
    using assms(1,4) set_m unfolding net_inv_def by auto
  moreover have "\<forall>x. tcp_conns ?m x \<noteq> None \<longrightarrow> (\<exists>k < nextConnId ?m. x = connName ?m k)"
    using net_inv_parts(6) [OF assms(1)] assms(2,4) by auto
  ultimately show ?thesis
    using conns d net_inv_parts(7,8) [OF assms(1)] unfolding net_inv_def by simp
qed

lemma close_conn_ok:
  assumes "sys_inv_at fs zs s" "tcp_conns (sys_net s) name = Some c" "conn_open c"
  shows "\<exists>t. close_conn c s = Inr t \<and> sys_inv_at fs zs t \<and> simulates s [Disconnected (tcp_of c)] t \<and>
    tcp_conns (sys_net t) name \<noteq> None \<and> name \<notin> connections (sys_net t) \<and> timers (sys_net t) = timers (sys_net s) \<and>
    pendingFunctors (sys_net t) = pendingFunctors (sys_net s) @ [ConnectDestroyed name] \<and>
    (\<forall>x. x \<noteq> name \<longrightarrow> tcp_conns (sys_net t) x = tcp_conns (sys_net s) x)"
proof -
  let ?n = "sys_net s"
  have i: "net_inv fs zs ?n" "server_inv (sys_rtsp s)" "dom (rtspConnMap (sys_rtsp s)) = connections ?n"
    using assms(1) by (simp_all add: sys_inv_at_def)
  have nm: "conn_name c = name" and live: "name \<in> connections ?n"
    using net_inv_parts(1) [OF i(1) assms(2)] assms(3) by (simp_all add: tcp_ok_def)
  let ?c = "disableAll (c\<lparr>tcp_state := kDisconnected\<rparr>)"
  let ?m = "(put_conn ?c ?n)\<lparr>connections := connections ?n - {name}, pendingFunctors := pendingFunctors ?n @ [ConnectDestroyed name]\<rparr>"
  let ?t = "\<lparr>sys_net = ?m, sys_rtsp = conn_down ?c (sys_rtsp s)\<rparr>"
  have e: "close_conn c s = Inr ?t"
    using assms(3) nm live by (simp add: close_conn_def handleClose_def removeConnection_def disableAll_def)
  have inv: "sys_inv_at fs zs ?t"
    using net_inv_closed [OF i(1) assms(2,3), of ?c] conn_down_rtsp [OF i(2), of ?c name] i(3) nm
    by (auto simp: sys_inv_at_def disableAll_def)
  have rtsp: "server_step (sys_rtsp s) (Disconnected (tcp_of c)) = Inr (sys_rtsp ?t)"
    by (simp add: conn_down_def tcp_of_def disableAll_def)
  have "\<exists>k < nextConnId ?n. name = connName ?n k" using net_inv_parts(6) [OF i(1), of name] assms(2) by simp
  then have "simulates s [Disconnected (tcp_of c)] ?t"
    using rtsp live nm by (auto simp: simulates_def phase_of_def tcp_of_def)
  then show ?thesis using e inv nm by (auto simp: disableAll_def)
qed

section \<open>Functors\<close>

lemma sys_inv_at_parts:
  assumes "sys_inv_at fs zs s"
  shows "net_inv fs zs (sys_net s)" "server_inv (sys_rtsp s)" "dom (rtspConnMap (sys_rtsp s)) = connections (sys_net s)"
  using assms by (simp_all add: sys_inv_at_def)

lemma net_inv_advance:
  assumes "net_inv (f # fs) zs n" "\<And>name c. tcp_conns n name = Some c \<Longrightarrow> tcp_ok fs n name c"
  shows "net_inv fs (insert (functor_conn f) zs) n"
  using assms(1) assms(2) unfolding net_inv_def by (cases "is_destroy f") auto

lemma run_functor_ok:
  assumes "sys_inv_at (f # fs) zs s"
  shows "\<exists>t es. run_functor f s = Inr t \<and> sys_inv_at fs (insert (functor_conn f) zs) t \<and> simulates s es t"
proof (cases f)
  case (ForceCloseInLoop name)
  note i = sys_inv_at_parts [OF assms]
  obtain c where c: "tcp_conns (sys_net s) name = Some c" using net_inv_parts(3) [OF i(1), of f] ForceCloseInLoop by auto
  have ok: "tcp_ok fs n x d" if "tcp_ok (f # fs) n x d" for n x d using that ForceCloseInLoop by (simp add: tcp_ok_def)
  have adv: "sys_inv_at fs (insert (functor_conn f) zs) t" if "sys_inv_at (f # fs) zs t" for t
    using net_inv_advance sys_inv_at_parts [OF that] net_inv_parts(1) [OF sys_inv_at_parts(1) [OF that]] ok
    by (simp add: sys_inv_at_def)
  show ?thesis
  proof (cases "conn_open c")
    case True
    from close_conn_ok [OF assms c True] obtain t where "close_conn c s = Inr t" "sys_inv_at (f # fs) zs t"
      "simulates s [Disconnected (tcp_of c)] t" by blast
    with adv c True ForceCloseInLoop show ?thesis by (auto simp: run_functor_def with_conn_def)
  next
    case False
    with adv [OF assms] c ForceCloseInLoop simulates_refl [of s s] show ?thesis by (auto simp: run_functor_def with_conn_def)
  qed
next
  case (ConnectDestroyed name)
  note i = sys_inv_at_parts [OF assms]
  let ?n = "sys_net s"
  obtain c where c: "tcp_conns ?n name = Some c" using net_inv_parts(3) [OF i(1), of f] ConnectDestroyed by auto
  have "name \<notin> connections ?n" using net_inv_parts(4) [OF i(1), of name] ConnectDestroyed by simp
  with net_inv_parts(1) [OF i(1) c] ConnectDestroyed
  have cs: "conn_name c = name" "\<not> conn_open c" "tcp_state c \<noteq> kConnecting" "\<not> read_events c" "\<not> write_events c" "addedToLoop c"
    by (simp_all add: tcp_ok_def)
  let ?c = "c\<lparr>addedToLoop := False\<rparr>"
  have no: "ConnectDestroyed name \<notin> set (fs @ pendingFunctors ?n)"
    using net_inv_parts(5) [OF i(1)] ConnectDestroyed by auto
  have ok: "tcp_ok fs (put_conn ?c ?n) x d" if "tcp_conns (put_conn ?c ?n) x = Some d" for x d
  proof (cases "x = name")
    case True
    with that cs no \<open>name \<notin> connections ?n\<close> show ?thesis by (auto simp: tcp_ok_def conn_open_def)
  next
    case False
    with that cs net_inv_parts(1) [OF i(1), of x d] ConnectDestroyed show ?thesis by (auto simp: tcp_ok_def)
  qed
  have "net_inv fs (insert name zs) (put_conn ?c ?n)"
    using i(1) ok cs(1) c ConnectDestroyed unfolding net_inv_def by auto
  moreover have "connectDestroyed c = Inr (False, ?c)"
    using cs by (simp add: connectDestroyed_def channel_remove_def conn_open_def)
  ultimately show ?thesis
    using c i ConnectDestroyed simulates_refl [of "\<lparr>sys_net = put_conn ?c ?n, sys_rtsp = sys_rtsp s\<rparr>" s]
    by (auto simp: run_functor_def with_conn_def sys_inv_at_def)
qed

lemma run_functors_ok:
  "sys_inv_at fs zs s \<Longrightarrow>
     \<exists>t es. run_functors fs s = Inr t \<and> sys_inv_at [] (functor_conn ` set fs \<union> zs) t \<and> simulates s es t"
proof (induction fs arbitrary: zs s)
  case Nil
  with simulates_refl [of s s] show ?case by auto
next
  case (Cons f fs)
  from run_functor_ok [OF Cons.prems] obtain t es where
    t: "run_functor f s = Inr t" "sys_inv_at fs (insert (functor_conn f) zs) t" "simulates s es t" by blast
  from Cons.IH [OF t(2)] obtain u es' where
    u: "run_functors fs t = Inr u" "sys_inv_at [] (functor_conn ` set fs \<union> insert (functor_conn f) zs) u" "simulates t es' u" by blast
  have "functor_conn ` set fs \<union> insert (functor_conn f) zs = functor_conn ` set (f # fs) \<union> zs" by auto
  with t(1) u simulates_append [OF t(3) u(3)] show ?case by auto
qed

lemma net_inv_drop:
  assumes "net_inv [] zs n" "\<not> referenced n name"
  shows "net_inv [] (zs - {name}) (n\<lparr>tcp_conns := (tcp_conns n)(name := None)\<rparr>)"
  using assms unfolding net_inv_def referenced_def by (auto simp: tcp_ok_def)

lemma net_inv_mono: "net_inv fs zs n \<Longrightarrow> zs \<subseteq> zs' \<Longrightarrow> net_inv fs zs' n"
  unfolding net_inv_def by (elim conjE) (intro conjI; (assumption | blast))

lemma release_refs_ok:
  "net_inv [] (functor_conn ` set fs) n \<Longrightarrow>
     \<exists>n'. release_refs fs n = Inr n' \<and> net_inv [] {} n' \<and> connections n' = connections n \<and> phase_of n' = phase_of n"
proof (induction fs arbitrary: n)
  case Nil
  then show ?case by simp
next
  case (Cons f fs)
  let ?name = "functor_conn f"
  show ?case
  proof (cases "tcp_conns n ?name = None \<or> referenced n ?name")
    case True
    then have "net_inv [] (functor_conn ` set fs) n"
      using Cons.prems unfolding net_inv_def referenced_def by auto
    with Cons.IH True show ?thesis by (auto split: option.splits)
  next
    case False
    then obtain c where c: "tcp_conns n ?name = Some c" by auto
    let ?n = "n\<lparr>tcp_conns := (tcp_conns n)(?name := None)\<rparr>"
    have "TcpConnection_destroy c"
      using False net_inv_parts(1) [OF Cons.prems c]
      by (cases "tcp_state c") (auto simp: TcpConnection_destroy_def tcp_ok_def referenced_def conn_open_def image_iff)
    moreover have "net_inv [] (functor_conn ` set fs) ?n"
      using net_inv_mono [OF net_inv_drop [OF Cons.prems, of ?name]] False by auto
    ultimately show ?thesis using Cons.IH [of ?n] c False by auto
  qed
qed

lemma doPendingFunctors_ok:
  assumes "sys_inv s"
  shows "\<exists>t es. doPendingFunctors s = Inr t \<and> sys_inv t \<and> simulates s es t"
proof -
  let ?fs = "pendingFunctors (sys_net s)"
  let ?s0 = "s\<lparr>sys_net := (sys_net s)\<lparr>pendingFunctors := []\<rparr>\<rparr>"
  have "sys_inv_at ?fs {} ?s0"
    using assms unfolding sys_inv_def sys_inv_at_def net_inv_def by (simp add: tcp_ok_def)
  from run_functors_ok [OF this] obtain t es where
    t: "run_functors ?fs ?s0 = Inr t" "sys_inv_at [] (functor_conn ` set ?fs) t" "simulates ?s0 es t" by auto
  from release_refs_ok [OF sys_inv_at_parts(1) [OF t(2)]] obtain n where
    n: "release_refs ?fs (sys_net t) = Inr n" "net_inv [] {} n" "connections n = connections (sys_net t)" "phase_of n = phase_of (sys_net t)"
    by blast
  have "sys_inv (t\<lparr>sys_net := n\<rparr>)" using t(2) n(2,3) by (simp add: sys_inv_def sys_inv_at_def)
  moreover have "simulates s es (t\<lparr>sys_net := n\<rparr>)" using t(3) n(4) by (simp add: simulates_def)
  ultimately show ?thesis using t(1) n(1) by (auto simp: doPendingFunctors_def Let_def)
qed

end
