(* ===== verification/System_Properties.thy ===== *)
theory System_Properties
  imports System_Run
begin

text \<open>
  Every step of the whole system: which events the environment may make happen (\<open>sys_ok\<close>), and that such a step returns, keeps the
  invariant and is a run of the server. What the environment is asked here for messages, tasks, frames and sessions is what \<open>server_ok\<close> asks.
\<close>

section \<open>What may happen\<close>

text \<open>
  The kernel reports what a channel asked for, and a hang-up together with the end of the stream; a name's number fits an
  \<open>int\<close>. Left to the caller are what \<open>server_ok\<close> asks of messages, tasks, frames and new sessions, except that the
  connection of a message is known: that is proved.
\<close>

fun sys_ok :: "system \<Rightarrow> sys_event \<Rightarrow> bool" where
  "sys_ok s (Accept fd memory m) = (nextConnId (sys_net s) + 1 < 2 ^ 31)"
| "sys_ok s (ChannelEvent name ev now e r ans wans) =
     (case tcp_conns (sys_net s) name of
        None \<Rightarrow> False
      | Some c \<Rightarrow>
          (ev_hup ev \<longrightarrow> read_events c \<or> write_events c) \<and> (ev_in ev \<or> ev_pri ev \<longrightarrow> read_events c) \<and>
          \<not> (ev_hup ev \<and> \<not> ev_in ev \<and> ev_pri ev) \<and>
          (case (r, rtspConnMap (sys_rtsp s) name) of
             (Got d, Some rc) \<Rightarrow> d = [] \<or> \<not> message_faults (buf_append d (inputBuffers (sys_rtsp s) name)) rc
           | _ \<Rightarrow> True))"
| "sys_ok s (PushFrame fresh blocks now k chn frame) = server_ok (sys_rtsp s) (Frame fresh blocks now k chn frame)"
| "sys_ok s (PacketTask sent ans) = server_ok (sys_rtsp s) (Task sent)"
| "sys_ok s (Register ss) = server_ok (sys_rtsp s) (AddSession ss)"
| "sys_ok s e = True"

section \<open>Every step\<close>

lemma system_upd: "s\<lparr>sys_rtsp := r\<rparr> = \<lparr>sys_net = sys_net s, sys_rtsp = r\<rparr>"
  by (cases s) simp

lemma accept_ok:
  assumes "sys_inv s" "nextConnId (sys_net s) + 1 < 2 ^ 31"
  shows "\<exists>t es. newConnection fd memory m s = Inr t \<and> sys_inv t \<and> simulates s es t"
proof -
  let ?n = "sys_net s" let ?name = "connName ?n (nextConnId ?n)"
  note i = sys_inv_at_parts [OF assms(1) [unfolded sys_inv_def]]
  have fresh: "?name \<noteq> connName ?n k" if "k < nextConnId ?n" for k
    using connName_inj [OF net_inv_parts(7,8) [OF i(1)], of k] that net_inv_parts(8) [OF i(1)] by fastforce
  then have none: "tcp_conns ?n ?name = None" 
    using net_inv_parts(6) [OF i(1), of ?name] by metis
  have out: "?name \<notin> connections ?n" using none net_inv_parts(2) [OF i(1), of ?name] by blast
  have pend: "functor_conn f \<noteq> ?name" if "f \<in> set (pendingFunctors ?n)" for f
    using none net_inv_parts(3) [OF i(1), of f] that by (intro notI) simp
  let ?c = "(TcpConnection_new ?name fd)\<lparr>tcp_state := kConnected, read_events := True, addedToLoop := True\<rparr>"
  let ?m = "?n\<lparr>nextConnId := nextConnId ?n + 1, connections := insert ?name (connections ?n), sockets := (sockets ?n)(?name := [])\<rparr>"
  let ?r = "snd (onConnection True (tcp_of ?c) memory m (sys_rtsp s))"
  let ?t = "\<lparr>sys_net = put_conn ?c ?m, sys_rtsp = ?r\<rparr>"
  have e: "newConnection fd memory m s = Inr ?t"
    by (simp add: newConnection_def Let_def connectEstablished_def TcpConnection_new_def)
  have nd: "ConnectDestroyed ?name \<notin> set (pendingFunctors ?n)" using pend by force
  have ok: "tcp_ok [] (put_conn ?c ?m) x d" if "tcp_conns (put_conn ?c ?m) x = Some d" for x d
  proof (cases "x = ?name")
    case True
    with that show ?thesis
      by (auto simp: tcp_ok_def conn_open_def TcpConnection_new_def output_inv_def buf_simps inv_intros)
  next
    case False
    with that net_inv_parts(1) [OF i(1), of x d] show ?thesis by (auto simp: tcp_ok_def TcpConnection_new_def)
  qed
  have nm: "conn_name ?c = ?name" by (simp add: TcpConnection_new_def)
  have born: "\<exists>k < Suc (nextConnId ?n). x = connName ?n k" if "tcp_conns ?n x \<noteq> None" for x
    using net_inv_parts(6) [OF i(1) that] less_SucI by blast
  have "net_inv [] {} (put_conn ?c ?m)"
    using i(1) ok nm nd born assms(2) unfolding net_inv_def by (auto simp: less_Suc_eq)
  moreover have "server_inv ?r" by (rule server_inv_connect [OF i(2)])
  moreover have "rtspConnMap ?r = (rtspConnMap (sys_rtsp s))(?name \<mapsto> RtspConnection_new memory m (tcp_of ?c))"
    using server_inv_release [OF i(2), of ?name] nm by (simp add: onConnection_def tcp_of_def case_prod_unfold)
  ultimately have inv: "sys_inv ?t" using i(3) by (simp add: sys_inv_def sys_inv_at_def)
  have "phase_step x (phase_of ?n x) (Connected (tcp_of ?c) memory m) = Some (phase_of (put_conn ?c ?m) x)" for x
    using out fresh nm by (auto simp: phase_of_def tcp_of_def less_Suc_eq)
  then have "simulates s [Connected (tcp_of ?c) memory m] ?t" by (simp add: simulates_def)
  with e inv show ?thesis by blast
qed

lemma simulates_rtsp:
  assumes "server_ok (sys_rtsp s) ev" "server_step (sys_rtsp s) ev = Inr r" "same_links (sys_net s) n"
    and "\<And>name p. phase_step name p ev = Some p"
  shows "simulates s [ev] \<lparr>sys_net = n, sys_rtsp = r\<rparr>"
  using assms phase_of_links [OF assms(3)] by (simp add: simulates_def)

lemma pushFrame_conns: "pushFrame fresh blocks now k chn frame r = Inr (ok, r') \<Longrightarrow> rtspConnMap r' = rtspConnMap r"
  by (auto simp: pushFrame_def put_session_def rbind_eq_Inr split: option.splits if_splits)

lemma run_task_conns: "run_task sent r = Inr (outs, r') \<Longrightarrow> rtspConnMap r' = rtspConnMap r"
  by (auto simp: run_task_def put_rtp_def rbind_eq_Inr split: list.splits option.splits)

lemma server_only_ok:
  assumes "sys_inv s" "server_ok (sys_rtsp s) ev" "server_step (sys_rtsp s) ev = Inr r" "rtspConnMap r = rtspConnMap (sys_rtsp s)"
    and "\<And>name p. phase_step name p ev = Some p" "net_inv [] {} n" "same_links (sys_net s) n"
  shows "sys_inv \<lparr>sys_net = n, sys_rtsp = r\<rparr> \<and> simulates s [ev] \<lparr>sys_net = n, sys_rtsp = r\<rparr>"
proof -
  note i = sys_inv_at_parts [OF assms(1) [unfolded sys_inv_def]]
  have "server_inv r" using server.step_inv [OF i(2) assms(2)] assms(3) by simp
  with i(3) assms(4,6,7) have "sys_inv \<lparr>sys_net = n, sys_rtsp = r\<rparr>" by (simp add: sys_inv_def sys_inv_at_def same_links_def)
  with simulates_rtsp [OF assms(2,3,7,5)] show ?thesis by blast
qed

lemma onMessage_conns:
  assumes "server_inv r" "rtspConnMap r name = Some c" "onMessage e name d r = Inr (outs, r')"
  shows "dom (rtspConnMap r') = dom (rtspConnMap r)"
proof -
  obtain buf s1 c1 where t: "touches c r s1"
    and h: "r' = s1\<lparr>rtspConnMap := (rtspConnMap s1)(name \<mapsto> c1), inputBuffers := (inputBuffers s1)(name := buf)\<rparr>"
    using onMessage_touches [OF assms] by blast
  have "rtspConnMap s1 = rtspConnMap r" using t more_eq unfolding touches_def by blast
  with h assms(2) show ?thesis by auto
qed

lemma handleRead_ok:
  assumes "sys_inv s" "tcp_conns (sys_net s) name = Some c" "conn_open c"
    and "\<And>d rc. r = Got d \<Longrightarrow> d \<noteq> [] \<Longrightarrow> rtspConnMap (sys_rtsp s) name = Some rc \<Longrightarrow>
      \<not> message_faults (buf_append d (inputBuffers (sys_rtsp s) name)) rc"
  shows "\<exists>t es. handleRead now e r ans c s = Inr t \<and> sys_inv t \<and> simulates s es t \<and> tcp_conns (sys_net t) name \<noteq> None"
proof -
  note i = sys_inv_at_parts [OF assms(1) [unfolded sys_inv_def]]
  have nm: "conn_name c = name" and live: "name \<in> connections (sys_net s)"
    using net_inv_parts(1) [OF i(1) assms(2)] assms(3) by (simp_all add: tcp_ok_def)
  show ?thesis
  proof (cases r)
    case ReadError
    then have "handleRead now e r ans c s = Inr s" by (simp add: handleRead_def)
    then show ?thesis using assms(1,2) simulates_refl [OF refl refl, of s] by blast
  next
    case (Got d)
    show ?thesis
    proof (cases "d = []")
      case True
      then have "handleRead now e r ans c s = close_conn c s" using Got by (simp only: handleRead_def read_answer.case simp_thms if_True)
      with close_conn_ok [OF assms(1) [unfolded sys_inv_def] assms(2,3)] show ?thesis unfolding sys_inv_def by metis
    next
      case False
      obtain rc where rc: "rtspConnMap (sys_rtsp s) name = Some rc" using i(3) live by blast
      note nf = assms(4) [OF Got False rc]
      from server_inv_message [OF i(2) rc nf, of e] obtain outs r1 where
        o: "onMessage e name d (sys_rtsp s) = Inr (outs, r1)" "server_inv r1" by blast
      let ?t = "\<lparr>sys_net = react now ans name outs (sys_net s), sys_rtsp = r1\<rparr>"
      note re = react_inv [OF i(1), of now ans name outs]
      have "sys_inv ?t"
        using re o(2) onMessage_conns [OF i(2) rc o(1)] i(3) by (simp add: sys_inv_def sys_inv_at_def same_links_def)
      moreover have "simulates s [Received e name d] ?t"
      proof -
        have p: "phase_of (react now ans name outs (sys_net s)) = phase_of (sys_net s)" by (rule phase_of_links) (simp add: re)
        have "phase_step x (phase_of (sys_net s) x) (Received e name d) = Some (phase_of (sys_net s) x)" for x
          using live by (cases "x = name") (simp_all add: phase_of_def)
        then show ?thesis using rc nf o(1) by (simp add: simulates_def p)
      qed
      moreover have "dom (tcp_conns (sys_net ?t)) = dom (tcp_conns (sys_net s))" using re by (simp add: same_links_def)
      then have "tcp_conns (sys_net ?t) name \<noteq> None" using assms(2) by (metis domIff option.distinct(1))
      moreover have "handleRead now e r ans c s = Inr ?t" using o(1) nm Got False by (simp add: handleRead_def)
      ultimately show ?thesis by blast
    qed
  qed
qed

lemma handleWrite_ok:
  assumes "sys_inv s" "tcp_conns (sys_net s) name \<noteq> None"
  shows "\<exists>t. with_conn name (write_channel name wans) s = Inr t \<and> sys_inv t \<and>
    simulates s [] t"
proof -
  note i = sys_inv_at_parts [OF assms(1) [unfolded sys_inv_def]]
  obtain c where c: "tcp_conns (sys_net s) name = Some c" using assms(2) by auto
  obtain res where res: "handleWrite wans c = Inr res" "tcp_ok [] (sys_net s) name (snd res)" "conn_name (snd res) = name"
    using tcp_ok_write [OF net_inv_parts(1) [OF i(1) c], of wans] by blast
  from net_inv_give [OF i(1) c res(3,2)]
  have n: "net_inv [] {} (give name res (sys_net s))" "same_links (sys_net s) (give name res (sys_net s))" by blast+
  let ?t = "s\<lparr>sys_net := give name res (sys_net s)\<rparr>"
  have "sys_inv ?t" using i(2,3) n by (simp add: sys_inv_def sys_inv_at_def same_links_def)
  moreover have "simulates s [] ?t" by (rule simulates_refl) (simp_all add: phase_of_links [OF n(2)])
  moreover have "with_conn name (write_channel name wans) s = Inr ?t"
    using c res(1) by (simp add: with_conn_def write_channel_eq_Inr)
  ultimately show ?thesis by blast
qed

lemma handleEvent_ok:
  assumes "sys_inv s" "sys_ok s (ChannelEvent name ev now e r ans wans)"
  shows "\<exists>t es. handleEventWithGuard name ev now e r ans wans s = Inr t \<and> sys_inv t \<and> simulates s es t"
proof -
  note i = sys_inv_at_parts [OF assms(1) [unfolded sys_inv_def]]
  obtain c where c: "tcp_conns (sys_net s) name = Some c" using assms(2) by (auto split: option.splits)
  have cond: "ev_hup ev \<Longrightarrow> read_events c \<or> write_events c" "ev_in ev \<or> ev_pri ev \<Longrightarrow> read_events c"
    "ev_hup ev \<Longrightarrow> \<not> ev_in ev \<Longrightarrow> \<not> ev_pri ev"
    and msg: "\<And>d rc. r = Got d \<Longrightarrow> d \<noteq> [] \<Longrightarrow> rtspConnMap (sys_rtsp s) name = Some rc \<Longrightarrow>
      \<not> message_faults (buf_append d (inputBuffers (sys_rtsp s) name)) rc"
    using assms(2) c by auto
  have op: "read_events c \<or> write_events c \<Longrightarrow> conn_open c"
    using net_inv_parts(1) [OF i(1) c] by (auto simp: tcp_ok_def split: if_splits)
  have mid: "\<exists>t es. rbind (if ev_hup ev \<and> \<not> ev_in ev then with_conn name close_conn s else Inr s)
      (\<lambda>s1. if ev_in ev \<or> ev_pri ev then with_conn name (handleRead now e r ans) s1 else Inr s1) = Inr t \<and>
      sys_inv t \<and> simulates s es t \<and> tcp_conns (sys_net t) name \<noteq> None"
  proof (cases "ev_hup ev \<and> \<not> ev_in ev")
    case True
    with cond op have op: "conn_open c" and pri: "\<not> ev_pri ev" by blast+
    obtain t where t: "close_conn c s = Inr t" "sys_inv t" "simulates s [Disconnected (tcp_of c)] t" "tcp_conns (sys_net t) name \<noteq> None"
      using close_conn_ok [OF assms(1) [unfolded sys_inv_def] c op] unfolding sys_inv_def by blast
    have "rbind (if ev_hup ev \<and> \<not> ev_in ev then with_conn name close_conn s else Inr s)
        (\<lambda>s1. if ev_in ev \<or> ev_pri ev then with_conn name (handleRead now e r ans) s1 else Inr s1) = Inr t"
      using True pri c t(1) by (simp add: with_conn_def)
    with t(2-4) show ?thesis by blast
  next
    case False
    show ?thesis
    proof (cases "ev_in ev \<or> ev_pri ev")
      case True
      with cond op have "conn_open c" by blast
      have h: "rbind (if ev_hup ev \<and> \<not> ev_in ev then with_conn name close_conn s else Inr s)
          (\<lambda>s1. if ev_in ev \<or> ev_pri ev then with_conn name (handleRead now e r ans) s1 else Inr s1) = handleRead now e r ans c s"
        using False True c by (simp only: if_False if_True rbind_simps with_conn_def option.case)
      from handleRead_ok [where now = now and ans = ans and e = e, OF assms(1) c \<open>conn_open c\<close> msg] show ?thesis
        unfolding h .
    next
      case none: False
      have "rbind (if ev_hup ev \<and> \<not> ev_in ev then with_conn name close_conn s else Inr s)
          (\<lambda>s1. if ev_in ev \<or> ev_pri ev then with_conn name (handleRead now e r ans) s1 else Inr s1) = Inr s"
        using False none by (simp only: if_False rbind_simps)
      moreover have "tcp_conns (sys_net s) name \<noteq> None" using c by simp
      ultimately show ?thesis using assms(1) simulates_refl [OF refl refl, of s] by blast
    qed
  qed
  then obtain t es where t: "rbind (if ev_hup ev \<and> \<not> ev_in ev then with_conn name close_conn s else Inr s)
      (\<lambda>s1. if ev_in ev \<or> ev_pri ev then with_conn name (handleRead now e r ans) s1 else Inr s1) = Inr t"
      "sys_inv t" "simulates s es t" "tcp_conns (sys_net t) name \<noteq> None" by blast
  have "handleEventWithGuard name ev now e r ans wans s =
      (if ev_out ev then with_conn name (write_channel name wans) t else Inr t)"
    using t(1) by (auto simp: handleEventWithGuard_def rbind_def split: sum.splits)
  moreover obtain u where u: "with_conn name (write_channel name wans) t = Inr u"
    "sys_inv u" "simulates t [] u"
    using handleWrite_ok [OF t(2,4), of wans] by blast
  ultimately have "handleEventWithGuard name ev now e r ans wans s = Inr (if ev_out ev then u else t)" by simp
  with t(2,3) u(2) simulates_append [OF t(3) u(3)] show ?thesis by (cases "ev_out ev") (simp_all, blast+)
qed

lemma handleTimers_inv:
  assumes "net_inv fs zs n"
  shows "net_inv fs zs (handleTimers now n) \<and> same_links n (handleTimers now n)"
proof -
  let ?n = "n\<lparr>timers := dropWhile (\<lambda>t. fst t \<le> now) (timers n)\<rparr>"
  have "net_inv fs zs ?n" "same_links n ?n" using assms by (simp_all add: same_links_def)
  moreover have "handleTimers now n = fold run_timer (takeWhile (\<lambda>t. fst t \<le> now) (timers n)) ?n"
    by (simp add: handleTimers_def getExpired_def)
  ultimately show ?thesis using fold_timers_inv [of fs zs ?n] same_links_trans [of n ?n] by simp
qed

lemma sys_step_ok:
  assumes "sys_inv s" "sys_ok s ev"
  shows "\<exists>t es. sys_step s ev = Inr t \<and> sys_inv t \<and> simulates s es t"
proof (cases ev)
  case (TimersDue now)
  note i = sys_inv_at_parts [OF assms(1) [unfolded sys_inv_def]]
  let ?n = "handleTimers now (sys_net s)"
  have n: "net_inv [] {} ?n" "same_links (sys_net s) ?n" using handleTimers_inv [OF i(1)] by blast+
  have "sys_inv (s\<lparr>sys_net := ?n\<rparr>)" using i(2,3) n by (simp add: sys_inv_def sys_inv_at_def same_links_def)
  moreover have "simulates s [] (s\<lparr>sys_net := ?n\<rparr>)"
    by (rule simulates_refl) (simp_all add: phase_of_links [OF n(2)])
  moreover have "sys_step s ev = Inr (s\<lparr>sys_net := ?n\<rparr>)" using TimersDue by simp
  ultimately show ?thesis by blast
next
  case (PushFrame fresh blocks now k chn frame)
  note i = sys_inv_at_parts [OF assms(1) [unfolded sys_inv_def]]
  have ok: "server_ok (sys_rtsp s) (Frame fresh blocks now k chn frame)" using assms(2) PushFrame by simp
  obtain b r where r: "pushFrame fresh blocks now k chn frame (sys_rtsp s) = Inr (b, r)"
    using server.step_inv [OF i(2) ok] by (auto simp: rbind_eq_Inr)
  from server_only_ok [OF assms(1) ok, of r "sys_net s"] r pushFrame_conns [OF r] i(1)
  have "sys_inv \<lparr>sys_net = sys_net s, sys_rtsp = r\<rparr> \<and> simulates s [Frame fresh blocks now k chn frame] \<lparr>sys_net = sys_net s, sys_rtsp = r\<rparr>"
    by simp
  moreover have "sys_step s ev = Inr \<lparr>sys_net = sys_net s, sys_rtsp = r\<rparr>" using PushFrame r by (simp add: system_upd)
  ultimately show ?thesis by blast
next
  case (PacketTask sent ans)
  note i = sys_inv_at_parts [OF assms(1) [unfolded sys_inv_def]]
  have ok: "server_ok (sys_rtsp s) (Task sent)" using assms(2) PacketTask by simp
  obtain outs r where r: "run_task sent (sys_rtsp s) = Inr (outs, r)"
    using server.step_inv [OF i(2) ok] by (auto simp: rbind_eq_Inr)
  from send_packets_inv [OF i(1), of "rtpTcps (sys_rtsp s)" ans outs]
    server_only_ok [OF assms(1) ok, of r "send_packets (rtpTcps (sys_rtsp s)) ans outs (sys_net s)"] r run_task_conns [OF r]
  show ?thesis using PacketTask by auto
next
  case (Register ss)
  note i = sys_inv_at_parts [OF assms(1) [unfolded sys_inv_def]]
  from server_only_ok [OF assms(1), of "AddSession ss" "snd (addMediaSession ss (sys_rtsp s))" "sys_net s"] assms(2) Register i(1)
  have "sys_inv \<lparr>sys_net = sys_net s, sys_rtsp = snd (addMediaSession ss (sys_rtsp s))\<rparr> \<and>
      simulates s [AddSession ss] \<lparr>sys_net = sys_net s, sys_rtsp = snd (addMediaSession ss (sys_rtsp s))\<rparr>"
    by (simp add: addMediaSession_def)
  moreover have "sys_step s ev = Inr \<lparr>sys_net = sys_net s, sys_rtsp = snd (addMediaSession ss (sys_rtsp s))\<rparr>"
    using Register by (simp add: system_upd)
  ultimately show ?thesis by blast
next
  case (Unregister k)
  note i = sys_inv_at_parts [OF assms(1) [unfolded sys_inv_def]]
  have "rtspConnMap (removeMediaSession k (sys_rtsp s)) = rtspConnMap (sys_rtsp s)" by (simp add: removeMediaSession_def split: option.split)
  with server_only_ok [OF assms(1), of "RemoveSession k" "removeMediaSession k (sys_rtsp s)" "sys_net s"] i(1)
  have "sys_inv \<lparr>sys_net = sys_net s, sys_rtsp = removeMediaSession k (sys_rtsp s)\<rparr> \<and>
      simulates s [RemoveSession k] \<lparr>sys_net = sys_net s, sys_rtsp = removeMediaSession k (sys_rtsp s)\<rparr>" by simp
  moreover have "sys_step s ev = Inr \<lparr>sys_net = sys_net s, sys_rtsp = removeMediaSession k (sys_rtsp s)\<rparr>"
    using Unregister by (simp add: system_upd)
  ultimately show ?thesis by blast
next
  case (Accept fd memory m)
  then show ?thesis using accept_ok [OF assms(1)] assms(2) by simp
next
  case (ChannelEvent name ev now e r ans wans)
  then show ?thesis using handleEvent_ok [OF assms(1)] assms(2) by simp
qed (use doPendingFunctors_ok [OF assms(1)] in simp)

end
