(* ===== verification/System_Leads.thy ===== *)
theory System_Leads
  imports System_Properties
begin

text \<open>
  How a connection goes away: an armed timer, the queued \<open>forceCloseInLoop\<close>, the connection out of the map, its last
  functor; and the \<open>RtpConnection\<close> it owned goes with it. Each stage is kept by every step until the next is reached.
\<close>

section \<open>What a step does to timers, functors and the map\<close>

definition moves :: "net \<Rightarrow> net \<Rightarrow> bool" where
  "moves n n' \<longleftrightarrow> set (timers n) \<subseteq> set (timers n') \<and> set (pendingFunctors n) \<subseteq> set (pendingFunctors n') \<and>
     connections n' \<subseteq> connections n \<and>
     functor_conn ` set (pendingFunctors n') \<subseteq> functor_conn ` set (pendingFunctors n) \<union> connections n \<and>
     (sorted (map fst (timers n)) \<longrightarrow> sorted (map fst (timers n')))"

lemma moves_refl [simp]: "moves n n"
  by (auto simp: moves_def)

lemma moves_trans:
  assumes "moves n n1" "moves n1 n2"
  shows "moves n n2"
proof -
  have c: "connections n1 \<subseteq> connections n" and "connections n2 \<subseteq> connections n1" using assms by (simp_all add: moves_def)
  then have "connections n2 \<subseteq> connections n" by (rule subset_trans [rotated])
  moreover have "functor_conn ` set (pendingFunctors n1) \<subseteq> functor_conn ` set (pendingFunctors n) \<union> connections n"
    "functor_conn ` set (pendingFunctors n2) \<subseteq> functor_conn ` set (pendingFunctors n1) \<union> connections n1"
    using assms by (simp_all only: moves_def)
  then have "functor_conn ` set (pendingFunctors n2) \<subseteq> functor_conn ` set (pendingFunctors n) \<union> connections n"
    using c by (meson Un_least subset_trans sup.coboundedI2)
  moreover have "set (timers n) \<subseteq> set (timers n2)" "set (pendingFunctors n) \<subseteq> set (pendingFunctors n2)"
    "sorted (map fst (timers n)) \<longrightarrow> sorted (map fst (timers n2))"
    using assms by (auto simp: moves_def)
  ultimately show ?thesis by (simp only: moves_def simp_thms)
qed

lemma moves_put [simp]: "moves n (put_conn c n)"
  by (auto simp: moves_def)

lemma moves_give [simp]: "moves n (give name res n)"
  by (auto simp: moves_def give_def)

lemma moves_timer [simp]: "moves n (runAfter now k name n)"
  by (auto simp: moves_def runAfter_def addTimer_def set_insort_key sorted_insort_key)

lemma moves_close:
  assumes "close_conn c s = Inr t"
  shows "moves (sys_net s) (sys_net t)"
proof -
  let ?c = "disableAll (c\<lparr>tcp_state := kDisconnected\<rparr>)"
  have "conn_name c \<in> connections (sys_net s)" "sys_net t = (put_conn ?c (sys_net s))\<lparr>connections := connections (sys_net s) - {conn_name c},
      pendingFunctors := pendingFunctors (sys_net s) @ [ConnectDestroyed (conn_name c)]\<rparr>"
    using assms by (auto simp: close_conn_def handleClose_def removeConnection_def disableAll_def c_assert_def rbind_eq_Inr split: if_splits)
  then show ?thesis by (auto simp: moves_def)
qed

lemma moves_react: "moves n (react now ans name outs n)"
proof (induction outs arbitrary: n)
  case Nil
  then show ?case by simp
next
  case (Cons x xs)
  let ?n1 = "case tcp_conns n name of
          None \<Rightarrow> n
        | Some c \<Rightarrow>
            (case x of
               Message m \<Rightarrow> give name (sendMessage (ans (length xs)) m c) n
             | Shutdown \<Rightarrow> give name (tcp_shutdown c) n
             | ForceCloseWithDelay k \<Rightarrow>
                 (case forceCloseWithDelay c of (armed, c') \<Rightarrow>
                    if armed then runAfter now k name (put_conn c' n) else n)
             | _ \<Rightarrow> n)"
  have "moves n ?n1" using moves_trans [OF moves_put moves_timer] by (simp split: option.split rtsp_out.split prod.split)
  from moves_trans [OF this Cons.IH] show ?case by simp
qed

lemma moves_packets: "moves n (send_packets tcps ans outs n)"
proof (induction tcps ans outs n rule: send_packets.induct)
  case (2 tcps ans r out outs n)
  let ?n1 = "case out of
          UdpSend fd peer d \<Rightarrow> n
        | TcpSend d \<Rightarrow>
            (case tcps r of
               None \<Rightarrow> n
             | Some t \<Rightarrow>
                 (case tcp_conns n (tcp_name t) of
                    None \<Rightarrow> n
                  | Some c \<Rightarrow> give (tcp_name t) (tcp_send (ans (length outs)) d c) n))"
  have "moves n ?n1" by (simp split: option.split rtp_out.split)
  from moves_trans [OF this 2] show ?case by simp
qed simp

lemma moves_read: "handleRead now e r ans c s = Inr t \<Longrightarrow> moves (sys_net s) (sys_net t)"
  using moves_close moves_react by (auto simp: handleRead_def rbind_eq_Inr split: read_answer.splits if_splits prod.splits)

lemma moves_with_conn:
  assumes "with_conn name f s = Inr t" "\<And>c. f c s = Inr t \<Longrightarrow> moves (sys_net s) (sys_net t)"
  shows "moves (sys_net s) (sys_net t)"
  using assms by (auto simp: with_conn_def split: option.splits)

lemma moves_event:
  assumes "handleEventWithGuard name ev now e r ans wans s = Inr t"
  shows "moves (sys_net s) (sys_net t)"
proof -
  obtain s1 s2 where s1: "(if ev_hup ev \<and> \<not> ev_in ev then with_conn name close_conn s else Inr s) = Inr s1"
    and s2: "(if ev_in ev \<or> ev_pri ev then with_conn name (handleRead now e r ans) s1 else Inr s1) = Inr s2"
    and t: "(if ev_out ev then with_conn name (write_channel name wans) s2 else Inr s2) = Inr t"
    using assms unfolding handleEventWithGuard_def rbind_eq_Inr by blast
  have "moves (sys_net s) (sys_net s1)" using s1 moves_with_conn [OF _ moves_close] by (auto split: if_splits)
  moreover have "moves (sys_net s1) (sys_net s2)" using s2 moves_with_conn [OF _ moves_read] by (auto split: if_splits)
  moreover have "moves (sys_net s2) (sys_net t)"
    using t by (auto simp: with_conn_def write_channel_eq_Inr split: if_splits option.splits)
  ultimately show ?thesis using moves_trans by blast
qed

lemma timers_close: "close_conn c s = Inr t \<Longrightarrow> timers (sys_net t) = timers (sys_net s)"
  by (auto simp: close_conn_def handleClose_def removeConnection_def c_assert_def rbind_eq_Inr split: if_splits)

lemma moves_functor: "run_functor f s = Inr t \<Longrightarrow> moves (sys_net s) (sys_net t) \<and> timers (sys_net t) = timers (sys_net s)"
  using moves_close timers_close
  by (cases f) (auto simp: run_functor_def with_conn_def rbind_eq_Inr split: option.splits if_splits prod.splits)

lemma moves_functors: "run_functors fs s = Inr t \<Longrightarrow> moves (sys_net s) (sys_net t) \<and> timers (sys_net t) = timers (sys_net s)"
proof (induction fs arbitrary: s)
  case Nil
  then show ?case by simp
next
  case (Cons f fs)
  then obtain u where u: "run_functor f s = Inr u" "run_functors fs u = Inr t" by (auto simp: rbind_eq_Inr)
  with moves_functor [OF u(1)] Cons.IH [OF u(2)] moves_trans show ?case by metis
qed

lemma functor_closes:
  assumes "sys_inv_at (ForceCloseInLoop name # fs) zs s" "run_functor (ForceCloseInLoop name) s = Inr t"
  shows "name \<notin> connections (sys_net t)"
proof -
  note i = sys_inv_at_parts [OF assms(1)]
  obtain c where c: "tcp_conns (sys_net s) name = Some c"
    using net_inv_parts(3) [OF i(1), of "ForceCloseInLoop name"] by auto
  show ?thesis
  proof (cases "conn_open c")
    case True
    from close_conn_ok [OF assms(1) c True] assms(2) c True show ?thesis by (auto simp: run_functor_def with_conn_def)
  next
    case False
    moreover have "t = s" using False assms(2) c by (simp add: run_functor_def with_conn_def)
    ultimately show ?thesis using net_inv_parts(1) [OF i(1) c] by (simp add: tcp_ok_def)
  qed
qed

lemma functors_close:
  "sys_inv_at fs zs s \<Longrightarrow> run_functors fs s = Inr t \<Longrightarrow> ForceCloseInLoop name \<in> set fs \<Longrightarrow> name \<notin> connections (sys_net t)"
proof (induction fs arbitrary: zs s)
  case Nil
  then show ?case by simp
next
  case (Cons f fs)
  then obtain u where u: "run_functor f s = Inr u" "run_functors fs u = Inr t" by (auto simp: rbind_eq_Inr)
  have i: "sys_inv_at fs (insert (functor_conn f) zs) u" using run_functor_ok [OF Cons.prems(1)] u(1) by auto
  show ?case
  proof (cases "f = ForceCloseInLoop name")
    case True
    then have "name \<notin> connections (sys_net u)" using functor_closes Cons.prems(1) u(1) by blast
    with moves_functors [OF u(2)] show ?thesis by (auto simp: moves_def)
  next
    case False
    with Cons.IH [OF i u(2)] Cons.prems(3) show ?thesis by simp
  qed
qed

lemma release_refs_links:
  "release_refs fs n = Inr n' \<Longrightarrow>
     connections n' = connections n \<and> timers n' = timers n \<and> pendingFunctors n' = pendingFunctors n"
  by (induction fs arbitrary: n) (fastforce simp: c_assert_def split: option.splits if_splits)+

lemma pending_effect:
  assumes "sys_inv s" "doPendingFunctors s = Inr t"
  shows "timers (sys_net t) = timers (sys_net s)" "connections (sys_net t) \<subseteq> connections (sys_net s)"
    "functor_conn ` set (pendingFunctors (sys_net t)) \<subseteq> connections (sys_net s)"
    "ForceCloseInLoop name \<in> set (pendingFunctors (sys_net s)) \<Longrightarrow> name \<notin> connections (sys_net t)"
proof -
  let ?fs = "pendingFunctors (sys_net s)"
  let ?s0 = "s\<lparr>sys_net := (sys_net s)\<lparr>pendingFunctors := []\<rparr>\<rparr>"
  obtain u n where u: "run_functors ?fs ?s0 = Inr u" and n: "release_refs ?fs (sys_net u) = Inr n" and t: "t = u\<lparr>sys_net := n\<rparr>"
    using assms(2) by (auto simp: doPendingFunctors_def Let_def rbind_eq_Inr)
  have i: "sys_inv_at ?fs {} ?s0"
    using assms(1) unfolding sys_inv_def sys_inv_at_def net_inv_def by (simp add: tcp_ok_def)
  note m = moves_functors [OF u] and l = release_refs_links [OF n]
  show "timers (sys_net t) = timers (sys_net s)" using m l t by simp
  show "connections (sys_net t) \<subseteq> connections (sys_net s)"
    "functor_conn ` set (pendingFunctors (sys_net t)) \<subseteq> connections (sys_net s)"
    using m l t by (auto simp: moves_def)
  show "name \<notin> connections (sys_net t)" if "ForceCloseInLoop name \<in> set ?fs" using functors_close [OF i u that] l t by simp
qed

section \<open>Timers\<close>

lemma in_set_dropWhile: "x \<in> set xs \<Longrightarrow> \<not> P x \<Longrightarrow> x \<in> set (dropWhile P xs)"
  by (induction xs) auto

lemma in_sorted_takeWhile:
  "sorted (map fst xs) \<Longrightarrow> x \<in> set xs \<Longrightarrow> fst x \<le> k \<Longrightarrow> x \<in> set (takeWhile (\<lambda>x. fst x \<le> k) xs)"
  by (induction xs) force+

lemma run_timer_effect:
  assumes "net_inv fs zs n"
  shows "connections (run_timer tm n) = connections n \<and> timers (run_timer tm n) = timers n \<and>
    set (pendingFunctors n) \<subseteq> set (pendingFunctors (run_timer tm n)) \<and>
    functor_conn ` set (pendingFunctors (run_timer tm n)) \<subseteq> functor_conn ` set (pendingFunctors n) \<union> connections n \<and>
    (snd tm \<in> connections n \<longrightarrow> ForceCloseInLoop (snd tm) \<in> set (pendingFunctors (run_timer tm n)))"
proof (cases "tcp_conns n (snd tm)")
  case None
  with net_inv_parts(2) [OF assms, of "snd tm"] show ?thesis by (auto simp: run_timer_def)
next
  case (Some c)
  then have "conn_open c \<longleftrightarrow> snd tm \<in> connections n" using net_inv_parts(1) [OF assms Some] by (simp add: tcp_ok_def)
  with Some show ?thesis by (auto simp: run_timer_def forceClose_def)
qed

lemma fold_timers_effect:
  "net_inv fs zs n \<Longrightarrow>
    connections (fold run_timer ts n) = connections n \<and> timers (fold run_timer ts n) = timers n \<and>
    set (pendingFunctors n) \<subseteq> set (pendingFunctors (fold run_timer ts n)) \<and>
    functor_conn ` set (pendingFunctors (fold run_timer ts n)) \<subseteq> functor_conn ` set (pendingFunctors n) \<union> connections n \<and>
    (\<forall>tm \<in> set ts. snd tm \<in> connections n \<longrightarrow> ForceCloseInLoop (snd tm) \<in> set (pendingFunctors (fold run_timer ts n)))"
proof (induction ts arbitrary: n)
  case Nil
  then show ?case by simp
next
  case (Cons tm ts)
  let ?n = "run_timer tm n"
  have i: "net_inv fs zs ?n" using run_timer_inv [OF Cons.prems] by blast
  note e = run_timer_effect [OF Cons.prems, of tm] and f = Cons.IH [OF i]
  have step_union: "X \<subseteq> B \<union> C" if "A \<subseteq> B \<union> C" "X \<subseteq> A \<union> D" "D = C" for A B C D X :: "string set" using that by blast
  have "functor_conn ` set (pendingFunctors (fold run_timer ts ?n)) \<subseteq> functor_conn ` set (pendingFunctors n) \<union> connections n"
    by (rule step_union [of "functor_conn ` set (pendingFunctors ?n)" _ _ _ "connections ?n"]) (use e f in simp_all)
  moreover have "set (pendingFunctors n) \<subseteq> set (pendingFunctors (fold run_timer ts ?n))"
    by (rule subset_trans [of _ "set (pendingFunctors ?n)"]) (use e f in simp_all)
  moreover have "snd tm \<in> connections n \<longrightarrow> ForceCloseInLoop (snd tm) \<in> set (pendingFunctors (fold run_timer ts ?n))"
    using e f by (meson subsetD)
  moreover have "connections (fold run_timer ts ?n) = connections n" "timers (fold run_timer ts ?n) = timers n"
    "\<forall>tm \<in> set ts. snd tm \<in> connections n \<longrightarrow> ForceCloseInLoop (snd tm) \<in> set (pendingFunctors (fold run_timer ts ?n))"
    using e f by simp_all
  ultimately show ?case by simp
qed

lemma timers_effect:
  assumes "sys_inv s" "sorted (map fst (timers (sys_net s)))"
  shows "connections (handleTimers now (sys_net s)) = connections (sys_net s)"
    "set (pendingFunctors (sys_net s)) \<subseteq> set (pendingFunctors (handleTimers now (sys_net s)))"
    "functor_conn ` set (pendingFunctors (handleTimers now (sys_net s))) \<subseteq>
       functor_conn ` set (pendingFunctors (sys_net s)) \<union> connections (sys_net s)"
    "sorted (map fst (timers (handleTimers now (sys_net s))))"
    "tm \<in> set (timers (sys_net s)) \<Longrightarrow> now < fst tm \<Longrightarrow> tm \<in> set (timers (handleTimers now (sys_net s)))"
    "tm \<in> set (timers (sys_net s)) \<Longrightarrow> fst tm \<le> now \<Longrightarrow> snd tm \<in> connections (sys_net s) \<Longrightarrow>
       ForceCloseInLoop (snd tm) \<in> set (pendingFunctors (handleTimers now (sys_net s)))"
proof -
  let ?P = "\<lambda>tm. fst tm \<le> now" let ?ts = "timers (sys_net s)"
  let ?n = "(sys_net s)\<lparr>timers := dropWhile ?P ?ts\<rparr>"
  have h: "handleTimers now (sys_net s) = fold run_timer (takeWhile ?P ?ts) ?n" by (simp add: handleTimers_def getExpired_def)
  have "net_inv [] {} ?n" using sys_inv_at_parts(1) [OF assms(1) [unfolded sys_inv_def]] by simp
  note e = fold_timers_effect [OF this, of "takeWhile ?P ?ts", folded h]
  show "connections (handleTimers now (sys_net s)) = connections (sys_net s)"
    "set (pendingFunctors (sys_net s)) \<subseteq> set (pendingFunctors (handleTimers now (sys_net s)))"
    "functor_conn ` set (pendingFunctors (handleTimers now (sys_net s))) \<subseteq>
       functor_conn ` set (pendingFunctors (sys_net s)) \<union> connections (sys_net s)"
    using e by simp_all
  show "sorted (map fst (timers (handleTimers now (sys_net s))))"
    using e assms(2) sorted_wrt_drop by (simp add: sorted_map_dropWhile)
  show "tm \<in> set (timers (handleTimers now (sys_net s)))" if "tm \<in> set ?ts" "now < fst tm"
    using e that by (simp add: in_set_dropWhile)
  show "ForceCloseInLoop (snd tm) \<in> set (pendingFunctors (handleTimers now (sys_net s)))"
    if "tm \<in> set ?ts" "fst tm \<le> now" "snd tm \<in> connections (sys_net s)"
    using e that in_sorted_takeWhile [OF assms(2) that(1,2)] by simp
qed

section \<open>Stages\<close>

definition timed_inv :: "system \<Rightarrow> bool" where
  "timed_inv s \<longleftrightarrow> sys_inv s \<and> sorted (map fst (timers (sys_net s)))"

definition grows_links :: "net \<Rightarrow> net \<Rightarrow> bool" where
  "grows_links n n' \<longleftrightarrow> set (timers n) \<subseteq> set (timers n') \<and> set (pendingFunctors n) \<subseteq> set (pendingFunctors n') \<and>
     functor_conn ` set (pendingFunctors n') \<subseteq> functor_conn ` set (pendingFunctors n) \<union> connections n \<and>
     (sorted (map fst (timers n)) \<longrightarrow> sorted (map fst (timers n')))"

lemma moves_grows: "moves n n' \<Longrightarrow> grows_links n n'"
  by (simp add: moves_def grows_links_def)

lemma step_grows:
  assumes "sys_step s ev = Inr t" "ev \<noteq> PendingFunctors" "\<forall>now. ev \<noteq> TimersDue now"
  shows "grows_links (sys_net s) (sys_net t)"
proof (cases ev)
  case (Accept fd memory m)
  then show ?thesis
    using assms(1) by (auto simp: newConnection_def Let_def rbind_eq_Inr grows_links_def)
next
  case (ChannelEvent name ev now e r ans wans)
  with assms(1) moves_event moves_grows show ?thesis by simp
next
  case (PacketTask sent ans)
  with assms(1) moves_packets moves_grows show ?thesis by (auto simp: rbind_eq_Inr)
qed (use assms moves_grows [OF moves_refl] in \<open>auto simp: rbind_eq_Inr\<close>)

lemma timed_step:
  assumes "timed_inv s" "sys_ok s ev"
  shows "\<exists>t es. sys_step s ev = Inr t \<and> timed_inv t \<and> simulates s es t"
proof -
  have i: "sys_inv s" "sorted (map fst (timers (sys_net s)))" using assms(1) by (simp_all add: timed_inv_def)
  obtain t es where t: "sys_step s ev = Inr t" "sys_inv t" "simulates s es t" using sys_step_ok [OF i(1) assms(2)] by blast
  have "sorted (map fst (timers (sys_net t)))"
  proof (cases "ev = PendingFunctors \<or> (\<exists>now. ev = TimersDue now)")
    case True
    with t(1) pending_effect(1) [OF i(1)] timers_effect(4) [OF i] i(2) show ?thesis by auto
  next
    case False
    with step_grows [OF t(1)] i(2) show ?thesis by (simp add: grows_links_def)
  qed
  with t show ?thesis by (auto simp: timed_inv_def)
qed

interpretation system: transition_system sys_step sys_ok timed_inv
  by unfold_locales (use timed_step in blast)

lemma phase_run_born: "phase_run name p es = Some q \<Longrightarrow> p \<noteq> Unborn \<Longrightarrow> q \<noteq> Unborn"
proof (induction es arbitrary: p)
  case (Cons e es)
  then obtain p' where p': "phase_step name p e = Some p'" "phase_run name p' es = Some q" by (auto split: option.splits)
  have "p' \<noteq> Unborn" using p'(1) Cons.prems(2) by (cases e) (auto split: if_splits)
  with Cons.IH p'(2) show ?case by blast
qed simp

lemma phase_run_gone: "phase_run name Gone es = Some q \<Longrightarrow> q = Gone"
proof (induction es)
  case (Cons e es)
  then obtain p' where p': "phase_step name Gone e = Some p'" "phase_run name p' es = Some q" by (auto split: option.splits)
  have "p' = Gone" using p'(1) by (cases e) (auto split: if_splits)
  with Cons.IH p'(2) show ?case by blast
qed simp

lemma phase_keeps:
  assumes "timed_inv s" "sys_ok s ev" "sys_step s ev = Inr t"
  shows "phase_of (sys_net s) name \<noteq> Unborn \<Longrightarrow> phase_of (sys_net t) name \<noteq> Unborn"
    "phase_of (sys_net s) name = Gone \<Longrightarrow> phase_of (sys_net t) name = Gone"
proof -
  obtain es where "simulates s es t" using timed_step [OF assms(1,2)] assms(3) by auto
  then have "phase_run name (phase_of (sys_net s) name) es = Some (phase_of (sys_net t) name)" by (simp add: simulates_def)
  then show "phase_of (sys_net s) name \<noteq> Unborn \<Longrightarrow> phase_of (sys_net t) name \<noteq> Unborn"
    "phase_of (sys_net s) name = Gone \<Longrightarrow> phase_of (sys_net t) name = Gone"
    using phase_run_born phase_run_gone by metis+
qed

lemma gone_iff: "phase_of n name = Gone \<longleftrightarrow> phase_of n name \<noteq> Unborn \<and> name \<notin> connections n"
  by (simp add: phase_of_def)

definition doomed :: "int \<Rightarrow> string \<Rightarrow> system \<Rightarrow> bool" where
  "doomed limit name s \<longleftrightarrow> phase_of (sys_net s) name \<noteq> Unborn \<and>
     ((\<exists>t \<le> limit. (t, name) \<in> set (timers (sys_net s))) \<or> ForceCloseInLoop name \<in> set (pendingFunctors (sys_net s)) \<or>
      phase_of (sys_net s) name = Gone)"

definition closing :: "string \<Rightarrow> system \<Rightarrow> bool" where
  "closing name s \<longleftrightarrow> phase_of (sys_net s) name \<noteq> Unborn \<and>
     (ForceCloseInLoop name \<in> set (pendingFunctors (sys_net s)) \<or> phase_of (sys_net s) name = Gone)"

definition unlinked :: "string \<Rightarrow> system \<Rightarrow> bool" where
  "unlinked name s \<longleftrightarrow> phase_of (sys_net s) name = Gone"

definition released :: "string \<Rightarrow> system \<Rightarrow> bool" where
  "released name s \<longleftrightarrow> phase_of (sys_net s) name = Gone \<and> name \<notin> functor_conn ` set (pendingFunctors (sys_net s))"

lemma timers_close_it:
  assumes "timed_inv s" "doomed limit name s" "limit \<le> now" "phase_of (handleTimers now (sys_net s)) name \<noteq> Unborn"
  shows "closing name (s\<lparr>sys_net := handleTimers now (sys_net s)\<rparr>)"
proof (cases "phase_of (sys_net s) name = Gone")
  case True
  have i: "sys_inv s" "sorted (map fst (timers (sys_net s)))" using assms(1) by (simp_all add: timed_inv_def)
  show ?thesis using True assms(4) timers_effect(1) [OF i] by (simp add: closing_def gone_iff)
next
  case False
  have i: "sys_inv s" "sorted (map fst (timers (sys_net s)))" using assms(1) by (simp_all add: timed_inv_def)
  have live: "name \<in> connections (sys_net s)" using False assms(2) by (simp add: doomed_def gone_iff)
  have "ForceCloseInLoop name \<in> set (pendingFunctors (handleTimers now (sys_net s)))"
  proof (cases "ForceCloseInLoop name \<in> set (pendingFunctors (sys_net s))")
    case True
    with timers_effect(2) [OF i] show ?thesis by blast
  next
    case no: False
    with assms(2) False obtain t where "t \<le> limit" "(t, name) \<in> set (timers (sys_net s))" by (auto simp: doomed_def)
    with timers_effect(6) [OF i, of "(t, name)" now] live assms(3) show ?thesis by simp
  qed
  with assms(4) show ?thesis by (simp add: closing_def)
qed

lemma pending_closes:
  assumes "timed_inv s" "closing name s" "sys_step s PendingFunctors = Inr t"
  shows "phase_of (sys_net t) name = Gone"
proof -
  have i: "sys_inv s" using assms(1) by (simp add: timed_inv_def)
  have p: "phase_of (sys_net t) name \<noteq> Unborn" "phase_of (sys_net s) name = Gone \<Longrightarrow> phase_of (sys_net t) name = Gone"
    using phase_keeps [OF assms(1) _ assms(3), of name] assms(2) by (simp_all add: closing_def)
  show ?thesis
    using pending_effect(4) [OF i, of t name] assms(2,3) p by (auto simp: closing_def gone_iff)
qed

lemma pending_releases:
  assumes "timed_inv s" "unlinked name s" "sys_step s PendingFunctors = Inr t"
  shows "released name t"
proof -
  have i: "sys_inv s" using assms(1) by (simp add: timed_inv_def)
  have "name \<notin> connections (sys_net s)" using assms(2) by (simp add: unlinked_def gone_iff)
  with pending_effect(3) [OF i, of t] assms phase_keeps(2) [OF assms(1) _ assms(3), of name] show ?thesis
    by (auto simp: released_def unlinked_def)
qed

lemma doomed_stable: "stable sys_step sys_ok timed_inv (doomed limit name)"
  unfolding stable_def
proof (intro allI impI)
  fix s ev t
  assume a: "timed_inv s" "sys_ok s ev" "sys_step s ev = Inr t" "doomed limit name s"
  note k = phase_keeps [OF a(1-3), of name]
  have i: "sys_inv s" "sorted (map fst (timers (sys_net s)))" using a(1) by (simp_all add: timed_inv_def)
  have born: "phase_of (sys_net t) name \<noteq> Unborn" using k(1) a(4) by (simp add: doomed_def)
  consider now where "ev = TimersDue now" | "ev = PendingFunctors" | "ev \<noteq> PendingFunctors" "\<forall>now. ev \<noteq> TimersDue now" by blast
  then show "doomed limit name t"
  proof cases
    case 1
    have t: "t = s\<lparr>sys_net := handleTimers now (sys_net s)\<rparr>" using a(3) 1 by simp
    show ?thesis
    proof (cases "limit \<le> now")
      case True
      with timers_close_it [OF a(1,4) True] born t show ?thesis by (auto simp: closing_def doomed_def)
    next
      case False
      then have "(x, name) \<in> set (timers (sys_net s)) \<Longrightarrow> x \<le> limit \<Longrightarrow>
          (x, name) \<in> set (timers (sys_net t)) \<or> ForceCloseInLoop name \<in> set (pendingFunctors (sys_net t)) \<or>
          name \<notin> connections (sys_net t)" for x
        using timers_effect(5,6) [OF i, of "(x, name)" now] timers_effect(1) [OF i, of now] t by (cases "x \<le> now") auto
      moreover have "ForceCloseInLoop name \<in> set (pendingFunctors (sys_net s)) \<Longrightarrow> ForceCloseInLoop name \<in> set (pendingFunctors (sys_net t))"
        using timers_effect(2) [OF i, of now] t by auto
      ultimately show ?thesis using a(4) born k(2) unfolding doomed_def gone_iff by blast
    qed
  next
    case 2
    have "timers (sys_net t) = timers (sys_net s)" using pending_effect(1) [OF i(1)] a(3) 2 by simp
    moreover have "closing name s \<Longrightarrow> phase_of (sys_net t) name = Gone" using pending_closes [OF a(1)] a(3) 2 by simp
    ultimately show ?thesis using a(4) born by (auto simp: doomed_def closing_def)
  next
    case 3
    from step_grows [OF a(3) this] a(4) born k(2) show ?thesis by (auto simp: doomed_def grows_links_def)
  qed
qed

lemma closing_stable: "stable sys_step sys_ok timed_inv (closing name)"
  unfolding stable_def
proof (intro allI impI)
  fix s ev t
  assume a: "timed_inv s" "sys_ok s ev" "sys_step s ev = Inr t" "closing name s"
  note k = phase_keeps [OF a(1-3), of name]
  have i: "sys_inv s" "sorted (map fst (timers (sys_net s)))" using a(1) by (simp_all add: timed_inv_def)
  have born: "phase_of (sys_net t) name \<noteq> Unborn" using k(1) a(4) by (simp add: closing_def)
  consider now where "ev = TimersDue now" | "ev = PendingFunctors" | "ev \<noteq> PendingFunctors" "\<forall>now. ev \<noteq> TimersDue now" by blast
  then show "closing name t"
  proof cases
    case 1
    with timers_effect(2) [OF i, of now] a(3,4) born k(2) show ?thesis by (auto simp: closing_def)
  next
    case 2
    with pending_closes [OF a(1,4)] a(3) show ?thesis by (simp add: closing_def)
  next
    case 3
    from step_grows [OF a(3) this] a(4) born k(2) show ?thesis by (auto simp: closing_def grows_links_def)
  qed
qed

lemma unlinked_stable: "stable sys_step sys_ok timed_inv (unlinked name)"
  unfolding stable_def unlinked_def using phase_keeps(2) by blast

lemma released_stable: "stable sys_step sys_ok timed_inv (released name)"
  unfolding stable_def
proof (intro allI impI)
  fix s ev t
  assume a: "timed_inv s" "sys_ok s ev" "sys_step s ev = Inr t" "released name s"
  note k = phase_keeps [OF a(1-3), of name]
  have i: "sys_inv s" "sorted (map fst (timers (sys_net s)))" using a(1) by (simp_all add: timed_inv_def)
  have g: "phase_of (sys_net t) name = Gone" "name \<notin> connections (sys_net s)" using k(2) a(4) by (simp_all add: released_def gone_iff)
  consider now where "ev = TimersDue now" | "ev = PendingFunctors" | "ev \<noteq> PendingFunctors" "\<forall>now. ev \<noteq> TimersDue now" by blast
  then show "released name t"
  proof cases
    case 1
    have "name \<notin> functor_conn ` set (pendingFunctors (handleTimers now (sys_net s)))"
      using timers_effect(3) [OF i, of now] a(4) g(2) unfolding released_def by blast
    with 1 a(3) g(1) show ?thesis by (auto simp: released_def)
  next
    case 2
    with pending_releases [OF a(1)] a(3,4) show ?thesis by (simp add: released_def unlinked_def)
  next
    case 3
    from step_grows [OF a(3) this] a(4) g show ?thesis by (auto simp: released_def grows_links_def)
  qed
qed

section \<open>The RtpConnection goes with its owner\<close>

definition owned :: "string \<Rightarrow> nat \<Rightarrow> RtspServer \<Rightarrow> bool" where
  "owned name r s \<longleftrightarrow>
     (case rtspConnMap s name of Some c \<Rightarrow> rtpConnPtr c = Some r | None \<Rightarrow> r < nextRtp s \<and> rtpConns s r = None)"

lemma onMessage_owner:
  assumes "server_inv s" "rtspConnMap s name = Some c" "onMessage e name d s = Inr (outs, s')"
  shows "nextRtp s \<le> nextRtp s'" "r < nextRtp s \<Longrightarrow> rtpConns s r = None \<Longrightarrow> rtpConns s' r = None"
    "\<exists>c'. rtspConnMap s' = (rtspConnMap s)(name \<mapsto> c') \<and> (\<forall>r. rtpConnPtr c = Some r \<longrightarrow> rtpConnPtr c' = Some r)"
proof -
  have c: "shared_inv s" "conn_ok s c" "req_inv (rtspRequest c)"
    using server_inv_parts(1) [OF assms(1)] server_inv_parts(2) [OF assms(1,2)] by blast+
  have buf: "input_ok (buf_append d (inputBuffers s name))" using server_inv_parts(4) [OF assms(1)] by (rule input_ok_append)
  have mode: "connMode c = RTSP_SERVER" using c(2) by (simp add: conn_ok_def)
  obtain buf s1 c1 where h: "handleRtspMessage e (buf_append d (inputBuffers s name)) s c = Inr (outs, buf, s1, c1)"
    "s' = s1\<lparr>rtspConnMap := (rtspConnMap s1)(name \<mapsto> c1), inputBuffers := (inputBuffers s1)(name := buf)\<rparr>"
    using assms(2,3) by (auto simp: onMessage_def rbind_eq_Inr)
  then have nf: "\<not> message_faults (buf_append d (inputBuffers s name)) c"
    using handleRtspMessage_fault [OF mode, of _ e s] by fastforce
  have g: "grows s s1" "rtpConnPtr c1 = rtpConnPtr c \<or> rtpConnPtr c = None"
    using handleRtspMessage_ok [OF c buf nf, of e] h(1) unfolding message_handled_def by auto
  show "nextRtp s \<le> nextRtp s'" using g(1) h(2) by (simp add: grows_def)
  show "\<exists>c'. rtspConnMap s' = (rtspConnMap s)(name \<mapsto> c') \<and> (\<forall>r. rtpConnPtr c = Some r \<longrightarrow> rtpConnPtr c' = Some r)"
    using g more_eq [of s1 s] h(2) by (auto simp: grows_def)
  show "rtpConns s' r = None" if r: "r < nextRtp s" "rtpConns s r = None"
  proof -
    have "rtpConnPtr c \<noteq> Some r" using c(2) r(2) by (auto simp: conn_ok_def)
    moreover have "touches c s s1" using message_touches [OF _ h(1) mode] c(1) by (simp add: shared_inv_def)
    ultimately show ?thesis using r h(2) by (simp add: touches_def)
  qed
qed

lemma release_owned:
  assumes "server_inv s" "owned name r s"
  shows "owned name r (snd (release_name n s))"
proof (cases "rtspConnMap s n")
  case None
  then show ?thesis using assms(2) by (simp add: release_name_def)
next
  case (Some c)
  have o: "\<And>r'. rtpConnPtr c = Some r' \<Longrightarrow> r' < nextRtp s" using server_inv_parts(2) [OF assms(1) Some] by (simp add: conn_ok_def)
  then show ?thesis using Some assms(2)
    by (cases "rtpConnPtr c") (auto simp: release_name_def destroy_conn_def owned_def split: option.splits)
qed

lemma owned_step:
  assumes "server_inv s" "server_ok s ev" "server_step s ev = Inr t" "owned name r s" "p \<noteq> Unborn" "phase_step name p ev = Some q"
  shows "owned name r t"
proof (cases ev)
  case (Connected conn memory m)
  then have "tcp_name conn \<noteq> name" using assms(5,6) by auto
  then show ?thesis
    using release_owned [OF assms(1,4), of "tcp_name conn"] assms(3) Connected
    by (auto simp: onConnection_def owned_def case_prod_unfold split: option.splits)
next
  case (Disconnected conn)
  then show ?thesis using release_owned [OF assms(1,4), of "tcp_name conn"] assms(3) by (auto simp: onConnection_def)
next
  case (Received e n d)
  obtain c outs where c: "rtspConnMap s n = Some c" and o: "onMessage e n d s = Inr (outs, t)"
    using assms(2,3) Received by (auto simp: rbind_eq_Inr split: option.splits)
  note m = onMessage_owner [OF assms(1) c o]
  obtain c' where c': "rtspConnMap t = (rtspConnMap s)(n \<mapsto> c')" "\<And>r. rtpConnPtr c = Some r \<Longrightarrow> rtpConnPtr c' = Some r"
    using m(3) by blast
  show ?thesis using assms(4) c c' m(1) m(2) [of r] by (cases "n = name") (auto simp: owned_def split: option.splits)
next
  case (Frame fresh blocks now k chn frame)
  then obtain ok where "pushFrame fresh blocks now k chn frame s = Inr (ok, t)" using assms(3) by (auto simp: rbind_eq_Inr)
  then have "rtspConnMap t = rtspConnMap s" "rtpConns t = rtpConns s" "nextRtp t = nextRtp s"
    by (auto simp: pushFrame_def put_session_def rbind_eq_Inr split: option.splits if_splits)
  with assms(4) show ?thesis by (auto simp: owned_def split: option.split)
next
  case (Task sent)
  then obtain outs where "run_task sent s = Inr (outs, t)" using assms(3) by (auto simp: rbind_eq_Inr)
  then have "rtspConnMap t = rtspConnMap s" "nextRtp t = nextRtp s" "rtpConns s r = None \<Longrightarrow> rtpConns t r = None"
    by (auto simp: run_task_def put_rtp_def rbind_eq_Inr split: list.splits option.splits)
  with assms(4) show ?thesis by (auto simp: owned_def split: option.splits)
next
  case (AddSession ss)
  have "rtspConnMap t = rtspConnMap s" "rtpConns t = rtpConns s" "nextRtp t = nextRtp s"
    using assms(3) AddSession by (auto simp: addMediaSession_def)
  with assms(4) show ?thesis by (auto simp: owned_def split: option.split)
next
  case (RemoveSession k)
  have "rtspConnMap t = rtspConnMap s" "rtpConns t = rtpConns s" "nextRtp t = nextRtp s"
    using assms(3) RemoveSession by (auto simp: removeMediaSession_def split: option.split)
  with assms(4) show ?thesis by (auto simp: owned_def split: option.split)
qed

lemma owned_run:
  "server_inv s \<Longrightarrow> admissible server_step server_ok s es \<Longrightarrow> run_steps server_step s es = Inr t \<Longrightarrow> owned name r s \<Longrightarrow>
     p \<noteq> Unborn \<Longrightarrow> phase_run name p es = Some q \<Longrightarrow> owned name r t"
proof (induction es arbitrary: s p)
  case Nil
  then show ?case by simp
next
  case (Cons e es)
  obtain u where u: "server_step s e = Inr u" "run_steps server_step u es = Inr t" using Cons.prems(3) by (auto simp: rbind_eq_Inr)
  obtain p' where p': "phase_step name p e = Some p'" "phase_run name p' es = Some q"
    using Cons.prems(6) by (auto split: option.splits)
  have ok: "server_ok s e" "admissible server_step server_ok u es" using Cons.prems(2) u(1) by simp_all
  have "server_inv u" using server.step_inv [OF Cons.prems(1) ok(1)] u(1) by simp
  moreover have "owned name r u" by (rule owned_step [OF Cons.prems(1) ok(1) u(1) Cons.prems(4,5) p'(1)])
  moreover have "p' \<noteq> Unborn" using phase_run_born [of name p "[e]" p'] p'(1) Cons.prems(5) by simp
  ultimately show ?case using Cons.IH ok(2) u(2) p'(2) by blast
qed

definition owns :: "string \<Rightarrow> nat \<Rightarrow> system \<Rightarrow> bool" where
  "owns name r s \<longleftrightarrow> phase_of (sys_net s) name \<noteq> Unborn \<and> owned name r (sys_rtsp s)"

lemma owns_stable: "stable sys_step sys_ok timed_inv (owns name r)"
  unfolding stable_def
proof (intro allI impI)
  fix s ev t
  assume a: "timed_inv s" "sys_ok s ev" "sys_step s ev = Inr t" "owns name r s"
  obtain es where es: "simulates s es t" using timed_step [OF a(1,2)] a(3) by auto
  have "server_inv (sys_rtsp s)" using a(1) by (simp add: timed_inv_def sys_inv_def sys_inv_at_def)
  with owned_run [of "sys_rtsp s" es "sys_rtsp t" name r "phase_of (sys_net s) name"] es a(4) phase_keeps(1) [OF a(1-3), of name]
  show "owns name r t" by (simp add: owns_def simulates_def)
qed

end
