(* ===== verification/System_Theorems.thy ===== *)
theory System_Theorems
  imports System_Leads
begin

text \<open>
  The properties of the server together with the network library under it: no assertion of the library and no null
  pointer fails, the library calls the server only as the server expects, and a client that has sent TEARDOWN is released.
\<close>

section \<open>Runs\<close>

lemma timed_init:
  assumes "server_inv r" "rtspConnMap r = Map.empty" "length addr \<le> 40"
  shows "timed_inv (system_init name addr r)"
  using assms by (simp add: timed_inv_def sys_inv_def sys_inv_at_def net_inv_def system_init_def net_init_def)

lemma timed_run:
  "timed_inv s \<Longrightarrow> admissible sys_step sys_ok s es \<Longrightarrow>
     \<exists>t es'. run_steps sys_step s es = Inr t \<and> timed_inv t \<and> simulates s es' t"
proof (induction es arbitrary: s)
  case Nil
  with simulates_refl [OF refl refl, of s] show ?case by auto
next
  case (Cons e es)
  obtain t es' where t: "sys_step s e = Inr t" "timed_inv t" "simulates s es' t"
    using timed_step [OF Cons.prems(1), of e] Cons.prems(2) by auto
  with Cons.prems(2) have "admissible sys_step sys_ok t es" by simp
  from Cons.IH [OF t(2) this] simulates_append [OF t(3)] t(1) show ?case by fastforce
qed

lemma phase_run_never: "phase_run x Gone es = Some q \<Longrightarrow> phase_run x Unborn es = Some Unborn"
proof (induction es)
  case (Cons e es)
  then obtain p where p: "phase_step x Gone e = Some p" "phase_run x p es = Some q" by (auto split: option.splits)
  then have "p = Gone" "phase_step x Unborn e = Some Unborn" by (cases e; auto split: if_splits)+
  with Cons.IH p(2) show ?case by simp
qed simp

section \<open>The system does not fault\<close>

text \<open>
  C2: The network library under the server adds no fault to those of the server's own: from the start, through any run of accepted
  connections, channel events, turns of the loop, timers, frames and packet tasks that is admissible under \<open>sys_ok\<close> (no message
  that faults by itself, \<open>message_faults\<close>; no packet task of an \<open>RtpConnection\<close> that is gone, see \<open>Server_Faults\<close>;
  well-formed frames, new sessions; the poller reports what it was asked to; fewer than \<open>2 ^ 31\<close> connections), no assertion of
  \<open>TcpServer\<close>, \<open>TcpConnection\<close>, \<open>Channel\<close> and \<open>Buffer\<close> fails and no null pointer is read; the server knows exactly the connections of
  \<open>TcpServer\<close>'s map, a connection
  object lives exactly as long as the map or a queued functor holds it, it is open exactly while it is in the map, and an open
  one waits for writability exactly when it has output left. (Timers are a list here; the assertions of \<open>TimerQueue\<close> are the
  subject of \<open>Timer_Queue\<close>, and \<open>Timer_Refinement\<close> relates the two.)
\<close>

theorem system_never_faults:
  assumes "server_inv r" "rtspConnMap r = Map.empty" "length addr \<le> 40"
    and "admissible sys_step sys_ok (system_init name addr r) es"
  shows "\<exists>s. run_steps sys_step (system_init name addr r) es = Inr s \<and>
    dom (rtspConnMap (sys_rtsp s)) = connections (sys_net s) \<and>
    (\<forall>x. tcp_conns (sys_net s) x \<noteq> None \<longleftrightarrow> referenced (sys_net s) x) \<and>
    (\<forall>x c. tcp_conns (sys_net s) x = Some c \<longrightarrow> conn_name c = x \<and> (conn_open c \<longleftrightarrow> x \<in> connections (sys_net s)) \<and>
       (conn_open c \<longrightarrow> (write_events c \<longleftrightarrow> toStringPiece (outputBuffer c) \<noteq> [])))"
proof -
  obtain s where s: "run_steps sys_step (system_init name addr r) es = Inr s" "timed_inv s"
    using system.run_inv [OF timed_init [OF assms(1-3)] assms(4)] by blast
  have i: "net_inv [] {} (sys_net s)" "dom (rtspConnMap (sys_rtsp s)) = connections (sys_net s)"
    using s(2) by (simp_all add: timed_inv_def sys_inv_def sys_inv_at_def)
  have "tcp_conns (sys_net s) x \<noteq> None \<longleftrightarrow> referenced (sys_net s) x" for x
  proof
    assume "tcp_conns (sys_net s) x \<noteq> None"
    then show "referenced (sys_net s) x" using i(1) unfolding net_inv_def referenced_def by auto
  next
    assume "referenced (sys_net s) x"
    then show "tcp_conns (sys_net s) x \<noteq> None"
      using net_inv_parts(2) [OF i(1), of x] net_inv_parts(3) [OF i(1)] unfolding referenced_def by auto
  qed
  moreover have "conn_name c = x \<and> (conn_open c \<longleftrightarrow> x \<in> connections (sys_net s)) \<and>
      (conn_open c \<longrightarrow> (write_events c \<longleftrightarrow> toStringPiece (outputBuffer c) \<noteq> []))" if "tcp_conns (sys_net s) x = Some c" for x c
    using net_inv_parts(1) [OF i(1) that] by (auto simp: tcp_ok_def output_inv_def)
  ultimately show ?thesis using s(1) i(2) by blast
qed

text \<open>
  C7: The network library keeps what the server assumes of it: any run of the system admissible under \<open>sys_ok\<close>, which excludes the
  messages that fault and the tasks that have outlived their object, but says nothing of the order of callbacks, is, for the server, a
  run of its own callbacks and calls admissible under \<open>server_ok\<close> that ends in the same server state (so messages come for known
  connections only); and each connection's callbacks come
  as one \<open>up\<close>, then messages, then one \<open>down\<close>, a name never coming back, the connection being up exactly while it is
  in \<open>TcpServer\<close>'s map.
\<close>

theorem system_refines_server:
  assumes "server_inv r" "rtspConnMap r = Map.empty" "length addr \<le> 40"
    and "admissible sys_step sys_ok (system_init name addr r) es"
  shows "\<exists>s es'. run_steps sys_step (system_init name addr r) es = Inr s \<and>
    admissible server_step server_ok r es' \<and> run_steps server_step r es' = Inr (sys_rtsp s) \<and>
    (\<forall>x. \<exists>p. phase_run x Unborn es' = Some p \<and> (p = Live \<longleftrightarrow> x \<in> connections (sys_net s)))"
proof -
  let ?s = "system_init name addr r"
  obtain s es' where s: "run_steps sys_step ?s es = Inr s" "timed_inv s" "simulates ?s es' s"
    using timed_run [OF timed_init [OF assms(1-3)] assms(4)] by blast
  have r: "sys_rtsp ?s = r" "connections (sys_net ?s) = {}" by (simp_all add: system_init_def net_init_def)
  have "\<exists>p. phase_run x Unborn es' = Some p \<and> (p = Live \<longleftrightarrow> x \<in> connections (sys_net s))" for x
  proof -
    have p: "phase_run x (phase_of (sys_net ?s) x) es' = Some (phase_of (sys_net s) x)" using s(3) by (simp add: simulates_def)
    have live: "phase_of (sys_net s) x = Live \<longleftrightarrow> x \<in> connections (sys_net s)" by (simp add: phase_of_def)
    show ?thesis
    proof (cases "phase_of (sys_net ?s) x = Unborn")
      case True
      with p live show ?thesis by auto
    next
      case False
      moreover have "phase_of (sys_net ?s) x \<noteq> Live" using r(2) by (simp add: phase_of_def)
      ultimately have g: "phase_of (sys_net ?s) x = Gone" by (cases "phase_of (sys_net ?s) x") simp_all
      with p phase_run_gone [of x es'] have "phase_of (sys_net s) x = Gone" by simp
      with g p live phase_run_never show ?thesis by fastforce
    qed
  qed
  with s(1,3) r(1) show ?thesis unfolding simulates_def by auto
qed

section \<open>A client that leaves\<close>

lemma timers_turn:
  assumes "limit \<le> later"
  shows "turns sys_step sys_ok timed_inv (TimersDue later) (doomed limit name) (closing name)"
  unfolding turns_def
proof (intro allI impI)
  fix s t
  assume a: "timed_inv s" "sys_ok s (TimersDue later)" "sys_step s (TimersDue later) = Inr t" "doomed limit name s"
  have "phase_of (sys_net t) name \<noteq> Unborn" using phase_keeps(1) [OF a(1-3)] a(4) by (simp add: doomed_def)
  with timers_close_it [OF a(1,4) assms] a(3) show "closing name t" by auto
qed

lemma functors_turn:
  "turns sys_step sys_ok timed_inv PendingFunctors (closing name) (unlinked name)"
  "turns sys_step sys_ok timed_inv PendingFunctors (unlinked name) (released name)"
  using pending_closes pending_releases unfolding turns_def unlinked_def by blast+

lemma react_arms:
  "net_inv fs zs n \<Longrightarrow> name \<in> connections n \<Longrightarrow> ForceCloseWithDelay k \<in> set outs \<Longrightarrow>
     (now + int k * kMicroSecondsPerSecond, name) \<in> set (timers (react now ans name outs n))"
proof (induction outs arbitrary: n)
  case Nil
  then show ?case by simp
next
  case (Cons x xs)
  obtain n1 where n1: "n1 = react now (\<lambda>_. ans (length xs)) name [x] n" by blast
  then have r: "react now ans name (x # xs) n = react now ans name xs n1" by simp
  have i: "net_inv fs zs n1" "name \<in> connections n1" using react_inv [OF Cons.prems(1)] n1 Cons.prems(2) by (simp_all only: same_links_def)
  show ?case
  proof (cases "x = ForceCloseWithDelay k")
    case True
    obtain c where c: "tcp_conns n name = Some c" using net_inv_parts(2) [OF Cons.prems(1,2)] by auto
    then have "conn_open c" using net_inv_parts(1) [OF Cons.prems(1) c] Cons.prems(2) by (simp add: tcp_ok_def)
    then have "(now + int k * kMicroSecondsPerSecond, name) \<in> set (timers n1)"
      using c True n1 by (simp add: forceCloseWithDelay_def runAfter_def addTimer_def set_insort_key)
    with r moves_react [of n1 now ans name xs] show ?thesis by (auto simp: moves_def)
  next
    case False
    with Cons.IH [OF i] Cons.prems(3) r show ?thesis by simp
  qed
qed

lemma teardown_dooms:
  assumes "timed_inv s" "name \<in> connections (sys_net s)" "idle (sys_rtsp s) name rc" "valid_url ip suffix" "rtpConnPtr rc = Some r"
    and "ev = ChannelEvent name \<lparr>ev_hup = False, ev_in = True, ev_pri = pri, ev_out = out\<rparr> now e
           (Got (request_bytes (W_TEARDOWN n) ip port suffix cseq agent)) ans wans" "sys_ok s ev"
  shows "\<exists>t. sys_step s ev = Inr t \<and> timed_inv t \<and> doomed (now + 3000000) name t \<and> owns name r t"
proof -
  let ?d = "request_bytes (W_TEARDOWN n) ip port suffix cseq agent"
  have i: "sys_inv s" "net_inv [] {} (sys_net s)" "server_inv (sys_rtsp s)"
    using assms(1) by (simp_all add: timed_inv_def sys_inv_def sys_inv_at_def)
  obtain c where c: "tcp_conns (sys_net s) name = Some c" using net_inv_parts(2) [OF i(2) assms(2)] by auto
  have nm: "conn_name c = name" using net_inv_parts(1) [OF i(2) c] by (simp add: tcp_ok_def)
  have rc: "rtspConnMap (sys_rtsp s) name = Some rc" using assms(3) by (simp add: idle_def)
  obtain rtp where rtp: "rtpConns (sys_rtsp s) r = Some rtp"
    using server_inv_parts(2) [OF i(3) rc] assms(5) by (auto simp: conn_ok_def)
  obtain outs r1 where o: "onMessage e name ?d (sys_rtsp s) = Inr (outs, r1)" and delay: "ForceCloseWithDelay 3 \<in> set outs"
    using teardown_step [OF i(3) assms(3,4,5) rtp, of e n port cseq agent] by (elim exE conjE) (rule that, assumption, simp)
  have ne: "?d \<noteq> []" by (simp add: request_bytes_def request_text_def request_line_def)
  let ?s1 = "\<lparr>sys_net = react now ans name outs (sys_net s), sys_rtsp = r1\<rparr>"
  have h: "handleRead now e (Got ?d) ans c s = Inr ?s1" using o nm ne by (simp add: handleRead_def)
  have "(now + int 3 * kMicroSecondsPerSecond, name) \<in> set (timers (sys_net ?s1))"
    using react_arms [OF i(2) assms(2) delay] by simp
  then have armed: "(now + 3000000, name) \<in> set (timers (sys_net ?s1))" by (simp add: kMicroSecondsPerSecond_def)
  obtain t where t: "sys_step s ev = Inr t" "timed_inv t" using timed_step [OF assms(1,7)] by blast
  then have "timers (sys_net t) = timers (sys_net ?s1)"
    using assms(6) c h
    by (auto simp: handleEventWithGuard_def with_conn_def give_def rbind_eq_Inr write_channel_eq_Inr split: if_splits option.splits)
  with armed have "(now + 3000000, name) \<in> set (timers (sys_net t))" by simp
  moreover have "owns name r s" using assms(2,5) rc by (simp add: owns_def owned_def phase_of_def)
  then have "owns name r t" using owns_stable [of name r] assms(1,7) t(1) unfolding stable_def by blast
  ultimately show ?thesis using t by (auto simp: doomed_def owns_def)
qed

text \<open>
  C6: A client that sends TEARDOWN is released: once the loop has run the timers three seconds later and has then run its queued functors twice,
  whatever other admissible events happen before, between and after, the connection object is destroyed, the server has
  dropped the connection, and the \<open>RtpConnection\<close> it owned is gone, even if the client never closes its side.
\<close>

theorem teardown_releases_client:
  assumes "timed_inv s" "name \<in> connections (sys_net s)" "idle (sys_rtsp s) name rc" "valid_url ip suffix" "rtpConnPtr rc = Some r"
    and "ev = ChannelEvent name \<lparr>ev_hup = False, ev_in = True, ev_pri = pri, ev_out = out\<rparr> now e
           (Got (request_bytes (W_TEARDOWN n) ip port suffix cseq agent)) ans wans"
    and "now + 3000000 \<le> later"
    and "admissible sys_step sys_ok s (ev # es1 @ TimersDue later # es2 @ PendingFunctors # es3 @ PendingFunctors # es4)"
  shows "\<exists>t. run_steps sys_step s (ev # es1 @ TimersDue later # es2 @ PendingFunctors # es3 @ PendingFunctors # es4) = Inr t \<and>
    tcp_conns (sys_net t) name = None \<and> rtspConnMap (sys_rtsp t) name = None \<and> rtpConns (sys_rtsp t) r = None"
proof -
  let ?rest = "es1 @ TimersDue later # es2 @ PendingFunctors # es3 @ PendingFunctors # es4"
  have "sys_ok s ev" using assms(8) by simp
  from teardown_dooms [OF assms(1-6) this] obtain s0 where
    s0: "sys_step s ev = Inr s0" "timed_inv s0" "doomed (now + 3000000) name s0" "owns name r s0" by blast
  have a0: "admissible sys_step sys_ok s0 ?rest" using assms(8) s0(1) by simp
  obtain s1 where s1: "run_steps sys_step s0 (es1 @ [TimersDue later]) = Inr s1" "timed_inv s1" "closing name s1"
    "admissible sys_step sys_ok s1 (es2 @ PendingFunctors # es3 @ PendingFunctors # es4)"
    using system.run_leads [OF doomed_stable timers_turn [OF assms(7)] s0(2) a0 s0(3)] by blast
  obtain s2 where s2: "run_steps sys_step s1 (es2 @ [PendingFunctors]) = Inr s2" "timed_inv s2" "unlinked name s2"
    "admissible sys_step sys_ok s2 (es3 @ PendingFunctors # es4)"
    using system.run_leads [OF closing_stable functors_turn(1) s1(2,4,3)] by blast
  obtain s3 where s3: "run_steps sys_step s2 (es3 @ [PendingFunctors]) = Inr s3" "timed_inv s3" "released name s3"
    "admissible sys_step sys_ok s3 es4"
    using system.run_leads [OF unlinked_stable functors_turn(2) s2(2,4,3)] by blast
  obtain t where t: "run_steps sys_step s3 es4 = Inr t" "timed_inv t" "released name t"
    using system.run_stable [OF released_stable s3(2,4,3)] by blast
  have run: "run_steps sys_step s0 ?rest = Inr t"
    using s1(1) s2(1) s3(1) t(1) by (auto simp: run_steps_append rbind_eq_Inr)
  then have "owns name r t" using system.run_stable [OF owns_stable s0(2) a0 s0(4)] by simp
  moreover have i: "net_inv [] {} (sys_net t)" "dom (rtspConnMap (sys_rtsp t)) = connections (sys_net t)"
    using t(2) by (simp_all add: timed_inv_def sys_inv_def sys_inv_at_def)
  have out: "name \<notin> connections (sys_net t)" "name \<notin> functor_conn ` set (pendingFunctors (sys_net t))"
    using t(3) by (simp_all add: released_def gone_iff)
  have "rtspConnMap (sys_rtsp t) name = None" using out(1) i(2) by blast
  moreover have "tcp_conns (sys_net t) name = None" using i(1) out unfolding net_inv_def by auto
  ultimately show ?thesis using run s0(1) by (simp add: owns_def owned_def)
qed

section \<open>Sample runs\<close>

text \<open>The program's server, its first client connected.\<close>

definition sample_start :: system where
  "sample_start = system_init ''RtspServer'' ''0.0.0.0:554'' (snd (main_server 0))"

definition sample_accept :: sys_event where
  "sample_accept = Accept 9 (RtspRequest_init METHOD_NONE channel_0 RTP_OVER_TCP) C_NONE"

definition sample_message :: "byte list \<Rightarrow> sys_event" where
  "sample_message d = ChannelEvent ''RtspServer-0.0.0.0:554#1'' \<lparr>ev_hup = False, ev_in = True, ev_pri = False, ev_out = False\<rparr> 0 sample_env
     (Got d) (\<lambda>_. Accepted 0) WouldBlock"

definition sample_conn :: TcpConnection where
  "sample_conn = (TcpConnection_new ''RtspServer-0.0.0.0:554#1'' 9)\<lparr>tcp_state := kConnected, read_events := True, addedToLoop := True\<rparr>"

definition sample_net :: net where
  "sample_net = put_conn sample_conn ((net_init ''RtspServer'' ''0.0.0.0:554'')
     \<lparr>nextConnId := 2, connections := {''RtspServer-0.0.0.0:554#1''}, sockets := (\<lambda>_. [])\<rparr>)"

lemma main_server_empty: "rtspConnMap (snd (main_server port)) = Map.empty"
  by (simp add: main_server_def addMediaSession_def RtspServer_new_def)

lemma sample_name: "connName (net_init ''RtspServer'' ''0.0.0.0:554'') 1 = ''RtspServer-0.0.0.0:554#1''"
  by (simp add: connName_def net_init_def snprintf_def c_str_def nat_str.simps digit_char_def char_of_def bit_0)

lemma sample_accepted: "sys_step sample_start sample_accept = Inr \<lparr>sys_net = sample_net, sys_rtsp = opened_server\<rparr>"
proof -
  obtain n where n: "net_init ''RtspServer'' ''0.0.0.0:554'' = n" by blast
  have f: "nextConnId n = 1" "connections n = {}" "sockets n = (\<lambda>_. [])" using n by (auto simp: net_init_def)
  show ?thesis
    using sample_name unfolding sample_start_def sample_accept_def system_init_def sample_net_def n
    by (simp add: newConnection_def f connectEstablished_def sample_conn_def TcpConnection_new_def
        opened_server_def tcp_of_def sample_tcp_def fun_upd_idem numeral_2_eq_2 Let_def)
qed

lemma sample_start_inv: "timed_inv sample_start"
  unfolding sample_start_def by (rule timed_init) (simp_all add: server_inv_main main_server_empty)

lemma sample_open_inv: "timed_inv \<lparr>sys_net = sample_net, sys_rtsp = opened_server\<rparr>"
  using timed_step [OF sample_start_inv, of sample_accept] sample_accepted
  by (simp add: sample_accept_def sample_start_def system_init_def net_init_def)

lemma sample_links:
  "tcp_conns sample_net ''RtspServer-0.0.0.0:554#1'' = Some sample_conn" "connections sample_net = {''RtspServer-0.0.0.0:554#1''}"
  "read_events sample_conn"
  by (simp_all add: sample_net_def sample_conn_def TcpConnection_new_def)

lemma sample_addr: "length ''0.0.0.0:554'' \<le> 40"
  by simp

lemma sample_hangup_ok:
  "sys_ok \<lparr>sys_net = sample_net, sys_rtsp = opened_server\<rparr>
     (ChannelEvent ''RtspServer-0.0.0.0:554#1'' \<lparr>ev_hup = True, ev_in = False, ev_pri = False, ev_out = False\<rparr> 0 sample_env ReadError
        (\<lambda>_. Accepted 0) WouldBlock)"
  using sample_links by simp

lemma sample_request_ok:
  "sys_ok \<lparr>sys_net = sample_net, sys_rtsp = opened_server\<rparr> (sample_message (request_bytes W_OPTIONS ''10.0.0.1'' 554 ''live'' 1 ''VLC''))"
proof -
  have "agent_ok W_OPTIONS ''VLC''" "\<not> premature opened_conn (fst (wire_method W_OPTIONS))"
    by (simp_all add: agent_ok_def premature_def)
  then have "\<not> message_faults (buf_append (request_bytes W_OPTIONS ''10.0.0.1'' 554 ''live'' 1 ''VLC'')
      (inputBuffers opened_server ''RtspServer-0.0.0.0:554#1'')) opened_conn"
    using request_no_fault [OF opened_server_inv opened_idle sample_urls(1)] opened_server_fields(1) by auto
  then show ?thesis using sample_links opened_server_fields(1) by (simp add: sample_message_def)
qed

theorem system_never_faults_witness:
  "\<exists>s. run_steps sys_step (system_init ''RtspServer'' ''0.0.0.0:554'' (snd (main_server 0)))
    [sample_accept, sample_message (request_bytes W_OPTIONS ''10.0.0.1'' 554 ''live'' 1 ''VLC''), PendingFunctors] = Inr s"
proof -
  have "admissible sys_step sys_ok sample_start
    [sample_accept, sample_message (request_bytes W_OPTIONS ''10.0.0.1'' 554 ''live'' 1 ''VLC''), PendingFunctors]"
    using sample_accepted sample_request_ok by (simp add: sample_accept_def sample_start_def system_init_def net_init_def split: sum.split)
  from system_never_faults [OF server_inv_main main_server_empty sample_addr this [unfolded sample_start_def]] show ?thesis by blast
qed

theorem system_refines_server_witness:
  "\<exists>s es'. run_steps sys_step (system_init ''RtspServer'' ''0.0.0.0:554'' (snd (main_server 0)))
    [sample_accept, ChannelEvent ''RtspServer-0.0.0.0:554#1'' \<lparr>ev_hup = True, ev_in = False, ev_pri = False, ev_out = False\<rparr> 0 sample_env
       ReadError (\<lambda>_. Accepted 0) WouldBlock, PendingFunctors] = Inr s \<and>
    run_steps server_step (snd (main_server 0)) es' = Inr (sys_rtsp s)"
proof -
  have "admissible sys_step sys_ok sample_start
    [sample_accept, ChannelEvent ''RtspServer-0.0.0.0:554#1'' \<lparr>ev_hup = True, ev_in = False, ev_pri = False, ev_out = False\<rparr> 0 sample_env
       ReadError (\<lambda>_. Accepted 0) WouldBlock, PendingFunctors]"
    using sample_accepted sample_hangup_ok by (simp add: sample_accept_def sample_start_def system_init_def net_init_def split: sum.split)
  from system_refines_server [OF server_inv_main main_server_empty sample_addr this [unfolded sample_start_def]] show ?thesis by blast
qed

lemma exchange_conns:
  "server_inv s \<Longrightarrow> rtspConnMap s name \<noteq> None \<Longrightarrow> exchange name ms s = Inr (rs, t) \<Longrightarrow> dom (rtspConnMap t) = dom (rtspConnMap s)"
proof (induction name ms s arbitrary: rs rule: exchange.induct)
  case (2 name e d ms s)
  then obtain outs s1 rs1 where s1: "onMessage e name d s = Inr (outs, s1)" "exchange name ms s1 = Inr (rs1, t)"
    by (auto simp: rbind_eq_Inr)
  obtain c where c: "rtspConnMap s name = Some c" using 2(3) by auto
  have d: "dom (rtspConnMap s1) = dom (rtspConnMap s)" by (rule onMessage_conns [OF 2(2) c s1(1)])
  have "server_inv s1" "rtspConnMap s1 name \<noteq> None" using onMessage_inv [OF 2(2) c s1(1)] by auto
  from 2(1) [OF this s1(2)] d show ?case by simp
qed simp

theorem teardown_releases_client_witness:
  "\<exists>rs t0 t. exchange ''RtspServer-0.0.0.0:554#1'' sample_requests opened_server = Inr (rs, t0) \<and>
    run_steps sys_step \<lparr>sys_net = sample_net, sys_rtsp = t0\<rparr>
      [sample_message (request_bytes (W_TEARDOWN 4096) ''10.0.0.1'' 554 ''live'' 5 ''VLC''), TimersDue 3000000, PendingFunctors,
       PendingFunctors] = Inr t \<and>
    tcp_conns (sys_net t) ''RtspServer-0.0.0.0:554#1'' = None \<and> rtpConns (sys_rtsp t) 0 = None"
proof -
  let ?name = "''RtspServer-0.0.0.0:554#1''"
  obtain rs t0 c where t0: "exchange ?name sample_requests opened_server = Inr (rs, t0)" "server_inv t0" "idle t0 ?name c" "rtpConnPtr c = Some 0"
    using sample_viewer by (elim exE conjE) (rule that)
  let ?s = "\<lparr>sys_net = sample_net, sys_rtsp = t0\<rparr>"
  let ?d = "request_bytes (W_TEARDOWN 4096) ''10.0.0.1'' 554 ''live'' 5 ''VLC''"
  have rc: "rtspConnMap t0 ?name = Some c" using t0(3) by (simp add: idle_def)
  have "dom (rtspConnMap t0) = dom (rtspConnMap opened_server)"
    using exchange_conns [OF opened_server_inv _ t0(1)] opened_server_fields(1) by simp
  then have i: "timed_inv ?s"
    using sample_open_inv t0(2) by (simp add: timed_inv_def sys_inv_def sys_inv_at_def)
  have "agent_ok (W_TEARDOWN 4096) ''VLC''" "\<not> premature c (fst (wire_method (W_TEARDOWN 4096)))"
    using t0(4) by (simp_all add: agent_ok_def premature_def)
  then have "\<not> message_faults (buf_append ?d (inputBuffers t0 ?name)) c"
    using request_no_fault [OF t0(2,3) sample_urls(1)] rc by auto
  then have "sys_ok ?s (sample_message ?d)" using sample_links rc by (simp add: sample_message_def)
  then have a: "admissible sys_step sys_ok ?s (sample_message ?d # [] @ TimersDue 3000000 # [] @ PendingFunctors # [] @ PendingFunctors # [])"
    by (simp split: sum.split)
  have "?name \<in> connections (sys_net ?s)" using sample_links by simp
  from teardown_releases_client [OF i this _ sample_urls(1) t0(4) sample_message_def _ a] t0(1,3) show ?thesis by auto
qed

end
