(* ===== verification/Acceptor.thy ===== *)
theory Acceptor
  imports System_Theorems "HOL-Library.Multiset"
begin

text \<open>
  Where the connections come from: \<open>Acceptor.cc\<close> with the \<open>accept\<close> of \<open>SocketsOps.cc\<close>, and the rest of \<open>TcpServer.cc\<close>
  (constructor, \<open>start\<close>), on top of \<open>system\<close>. What the kernel answers is an argument; each call that returns or closes a
  descriptor is recorded, in order. \<open>LOG_FATAL\<close> and \<open>LOG_SYSFATAL\<close> abort the program: the fault \<open>Fatal\<close>. The line logged
  between the failing \<open>accept\<close> and the reading of \<open>errno\<close> is taken to leave \<open>errno\<close> alone.
\<close>

section \<open>The acceptor\<close>

datatype errno =
    EAGAIN | ECONNABORTED | EINTR | EPROTO | EPERM | EMFILE
  | EBADF | EFAULT | EINVAL | ENFILE | ENOBUFS | ENOMEM | ENOTSOCK | EOPNOTSUPP
  | UnknownErrno int

datatype accept_answer = Client int | Refused errno

datatype fd_call = Opened int | Closed int

text \<open>\<open>acceptReading\<close>: the channel of the listening socket asks for reading. The reserve descriptor is negative if it could not be
  opened again.\<close>

record Acceptor =
  acceptSocket :: int
  acceptReading :: bool
  newConnectionCallback :: bool
  listenning :: bool
  idleFd :: int

definition Acceptor_new :: "int \<Rightarrow> int \<Rightarrow> bool \<Rightarrow> (fd_call list \<times> Acceptor) result" where
  "Acceptor_new sockfd spare bound =
     (if sockfd < 0 then Inl Fatal
      else c_assert (0 \<le> spare)
        (if \<not> bound then Inl Fatal
         else Inr ([Opened sockfd, Opened spare],
           \<lparr>acceptSocket = sockfd, acceptReading = False, newConnectionCallback = False, listenning = False, idleFd = spare\<rparr>)))"

definition setNewConnectionCallback :: "Acceptor \<Rightarrow> Acceptor" where
  "setNewConnectionCallback a = a\<lparr>newConnectionCallback := True\<rparr>"

definition Acceptor_listen :: "bool \<Rightarrow> Acceptor \<Rightarrow> Acceptor result" where
  "Acceptor_listen listens a = (if listens then Inr (a\<lparr>listenning := True, acceptReading := True\<rparr>) else Inl Fatal)"

fun expected_error :: "errno \<Rightarrow> bool" where
  "expected_error e = (e \<in> {EAGAIN, ECONNABORTED, EINTR, EPROTO, EPERM, EMFILE})"

definition sockets_accept :: "accept_answer \<Rightarrow> accept_answer result" where
  "sockets_accept ans =
     (case ans of Client fd \<Rightarrow> Inr ans | Refused e \<Rightarrow> if expected_error e then Inr ans else Inl Fatal)"

text \<open>
  \<open>again\<close> and \<open>reopened\<close> are the answers of the second \<open>accept\<close> and of \<open>open\<close>. The result is the calls made, the
  descriptor \<open>newConnectionCallback_\<close> is called with, and the new state.
\<close>

definition Acceptor_handleRead ::
  "accept_answer \<Rightarrow> int \<Rightarrow> int \<Rightarrow> Acceptor \<Rightarrow> (fd_call list \<times> int option \<times> Acceptor) result" where
  "Acceptor_handleRead ans again reopened a =
     rbind (sockets_accept ans) (\<lambda>r.
       case r of
         Client connfd \<Rightarrow>
           if newConnectionCallback a then Inr ([Opened connfd], Some connfd, a)
           else Inr ([Opened connfd, Closed connfd], None, a)
       | Refused e \<Rightarrow>
           if e = EMFILE
           then Inr ([Closed (idleFd a), Opened again, Closed again, Opened reopened], None, a\<lparr>idleFd := reopened\<rparr>)
           else Inr ([], None, a))"

text \<open>The destructor: the reserve is closed in its body, the listening socket by its member (\<open>~Socket\<close>).\<close>

definition Acceptor_destroy :: "Acceptor \<Rightarrow> fd_call list" where
  "Acceptor_destroy a = [Closed (idleFd a), Closed (acceptSocket a)]"

section \<open>The whole TCP server\<close>

text \<open>\<open>started\<close>, \<open>poolStarted\<close>: the flags of \<open>TcpServer\<close> and of its thread pool, which has no threads in this program.\<close>

record daemon =
  started :: bool
  poolStarted :: bool
  dm_acceptor :: Acceptor
  dm_calls :: "fd_call list"
  dm_system :: system

definition TcpServer_new :: "int \<Rightarrow> int \<Rightarrow> bool \<Rightarrow> string \<Rightarrow> string \<Rightarrow> RtspServer \<Rightarrow> daemon result" where
  "TcpServer_new sockfd spare bound name addr r =
     rbind (Acceptor_new sockfd spare bound) (\<lambda>(calls, a).
       Inr \<lparr>started = False, poolStarted = False, dm_acceptor = setNewConnectionCallback a, dm_calls = calls,
            dm_system = system_init name addr r\<rparr>)"

definition TcpServer_start :: "bool \<Rightarrow> daemon \<Rightarrow> daemon result" where
  "TcpServer_start listens d =
     (if started d then Inr d
      else c_assert (\<not> poolStarted d)
        (c_assert (\<not> listenning (dm_acceptor d))
          (rbind (Acceptor_listen listens (dm_acceptor d)) (\<lambda>a.
             Inr (d\<lparr>started := True, poolStarted := True, dm_acceptor := a\<rparr>)))))"

text \<open>The descriptors of the connection objects that exist, by the number in their name, and of those a step destroys
  (\<open>~Socket\<close>).\<close>

definition fd_of :: "net \<Rightarrow> nat \<Rightarrow> int option" where
  "fd_of n k = map_option conn_fd (tcp_conns n (connName n k))"

definition conn_fds :: "net \<Rightarrow> int list" where
  "conn_fds n = List.map_filter (fd_of n) [0..<nextConnId n]"

definition destroyed_fds :: "net \<Rightarrow> net \<Rightarrow> int list" where
  "destroyed_fds n n' = List.map_filter (\<lambda>k. if fd_of n' k = None then fd_of n k else None) [0..<nextConnId n]"

datatype daemon_event =
    Start bool
  | Readable accept_answer int int RtspRequest ClientMethod
  | Sys sys_event

fun daemon_step :: "daemon \<Rightarrow> daemon_event \<Rightarrow> daemon result" where
  "daemon_step d (Start listens) = TcpServer_start listens d"
| "daemon_step d (Readable ans again reopened memory m) =
     rbind (Acceptor_handleRead ans again reopened (dm_acceptor d)) (\<lambda>(calls, conn, a).
       case conn of
         None \<Rightarrow> Inr (d\<lparr>dm_acceptor := a, dm_calls := dm_calls d @ calls\<rparr>)
       | Some fd \<Rightarrow>
           c_assert (poolStarted d)
             (rbind (newConnection fd memory m (dm_system d)) (\<lambda>s.
                Inr (d\<lparr>dm_acceptor := a, dm_calls := dm_calls d @ calls, dm_system := s\<rparr>))))"
| "daemon_step d (Sys e) =
     rbind (sys_step (dm_system d) e) (\<lambda>s.
       Inr (d\<lparr>dm_calls := dm_calls d @ map Closed (destroyed_fds (sys_net (dm_system d)) (sys_net s)), dm_system := s\<rparr>))"

text \<open>What may happen: \<open>listen\<close> succeeds, the poller reports the listening socket when it was asked to, \<open>accept\<close> fails only in
  the ways the code expects, connections come through the acceptor, and everything else is as \<open>sys_ok\<close> says.\<close>

fun daemon_ok :: "daemon \<Rightarrow> daemon_event \<Rightarrow> bool" where
  "daemon_ok d (Start listens) = listens"
| "daemon_ok d (Readable ans again reopened memory m) =
     (acceptReading (dm_acceptor d) \<and>
      (case ans of Client fd \<Rightarrow> 0 \<le> fd \<and> sys_ok (dm_system d) (Accept fd memory m) | Refused e \<Rightarrow> expected_error e))"
| "daemon_ok d (Sys e) = (sys_ok (dm_system d) e \<and> (\<forall>fd memory m. e \<noteq> Accept fd memory m))"

section \<open>The descriptors\<close>

text \<open>
  The descriptors open after a list of calls. A call that answers a negative number opens none; \<open>close\<close> of a
  negative number fails. \<open>None\<close>: one that is not open has been closed.
\<close>

fun fd_table :: "int multiset \<Rightarrow> fd_call list \<Rightarrow> int multiset option" where
  "fd_table M [] = Some M"
| "fd_table M (Opened fd # cs) = fd_table (if fd < 0 then M else add_mset fd M) cs"
| "fd_table M (Closed fd # cs) =
     (if fd < 0 then fd_table M cs else if fd \<in># M then fd_table (M - {#fd#}) cs else None)"

definition own_fds :: "Acceptor \<Rightarrow> int multiset" where
  "own_fds a = add_mset (acceptSocket a) (if idleFd a < 0 then {#} else {#idleFd a#})"

lemma fd_table_append: "fd_table M (cs @ ds) = (case fd_table M cs of None \<Rightarrow> None | Some N \<Rightarrow> fd_table N ds)"
  by (induction M cs rule: fd_table.induct) simp_all

lemma fd_table_closed: "\<forall>fd \<in> set fds. 0 \<le> fd \<Longrightarrow> fd_table (mset fds + M) (map Closed fds) = Some M"
  by (induction fds) auto

lemma acceptor_destroy_closes: "0 \<le> acceptSocket a \<Longrightarrow> fd_table (own_fds a) (Acceptor_destroy a) = Some {#}"
  by (simp add: own_fds_def Acceptor_destroy_def)

section \<open>Connections keep their descriptors\<close>

definition keyed :: "net \<Rightarrow> bool" where
  "keyed n \<longleftrightarrow> (\<forall>x c. tcp_conns n x = Some c \<longrightarrow> conn_name c = x)"

definition same_refs :: "net \<Rightarrow> net \<Rightarrow> bool" where
  "same_refs n n' \<longleftrightarrow> connName n' = connName n \<and> nextConnId n' = nextConnId n \<and>
     (\<forall>x c'. tcp_conns n' x = Some c' \<longrightarrow> (\<exists>c. tcp_conns n x = Some c \<and> tcp_of c' = tcp_of c))"

text \<open>\<open>X\<close>: the connections that may change otherwise.\<close>

definition keeps_refs :: "string set \<Rightarrow> net \<Rightarrow> net \<Rightarrow> bool" where
  "keeps_refs X n n' \<longleftrightarrow> (keyed n \<longrightarrow> keyed n' \<and> same_refs n n' \<and> (\<forall>y. y \<notin> X \<longrightarrow> tcp_conns n' y = tcp_conns n y))"

lemma keeps_refl [simp]: "keeps_refs X n n"
  by (simp add: keeps_refs_def same_refs_def)

lemma keeps_trans:
  assumes "keeps_refs X n n1" "keeps_refs X n1 n2"
  shows "keeps_refs X n n2"
proof -
  have "same_refs n n2" if "same_refs n n1" "same_refs n1 n2"
    using that unfolding same_refs_def by (metis (no_types, lifting))
  with assms show ?thesis unfolding keeps_refs_def by (metis (no_types))
qed

lemma keeps_any: "keeps_refs X n n' \<Longrightarrow> keeps_refs UNIV n n'"
  by (simp add: keeps_refs_def)

lemma keeps_frame:
  "connName n' = connName n \<Longrightarrow> nextConnId n' = nextConnId n \<Longrightarrow> tcp_conns n' = tcp_conns n \<Longrightarrow> keeps_refs X n n'"
  by (simp add: keeps_refs_def same_refs_def keyed_def)

lemma keeps_drop:
  "connName n' = connName n \<Longrightarrow> nextConnId n' = nextConnId n \<Longrightarrow> tcp_conns n' \<subseteq>\<^sub>m tcp_conns n \<Longrightarrow> keeps_refs UNIV n n'"
  unfolding keeps_refs_def same_refs_def keyed_def map_le_def dom_def by fastforce

lemma keeps_put:
  assumes "tcp_conns n x = Some c" "tcp_of c' = tcp_of c" "x \<in> X"
  shows "keeps_refs X n (put_conn c' n)"
proof -
  have "conn_name c' = conn_name c" using assms(2) by (simp add: tcp_of_def)
  then show ?thesis using assms unfolding keeps_refs_def same_refs_def keyed_def by auto
qed


lemma keeps_give: "tcp_conns n x = Some c \<Longrightarrow> tcp_of (snd res) = tcp_of c \<Longrightarrow> x \<in> X \<Longrightarrow> keeps_refs X n (give y res n)"
  using keeps_trans [OF keeps_put keeps_frame] by (simp add: give_def connName_def)

lemma tcp_of_steps [simp]:
  "tcp_of (snd (tcp_send ans d c)) = tcp_of c" "tcp_of (snd (sendMessage ans m c)) = tcp_of c"
  "tcp_of (snd (tcp_shutdown c)) = tcp_of c" "tcp_of (snd (forceCloseWithDelay c)) = tcp_of c"
  "tcp_of (snd (forceClose c)) = tcp_of c"
  by (simp_all add: tcp_of_def tcp_send_def sendInLoop_def sendMessage_def tcp_shutdown_def forceCloseWithDelay_def
      forceClose_def enableWriting_def Let_def)

lemma tcp_of_write: "handleWrite ans c = Inr res \<Longrightarrow> tcp_of (snd res) = tcp_of c"
  by (auto simp: tcp_of_def handleWrite_def disableWriting_def Let_def rbind_eq_Inr split: if_splits)

lemma keeps_timer [simp]: "keeps_refs X n (runAfter now k name n)"
  by (rule keeps_frame) (simp_all add: runAfter_def addTimer_def)

lemma keeps_react: "keeps_refs {name} n (react now ans name outs n)"
proof (induction outs arbitrary: n)
  case (Cons x xs)
  let ?n1 = "case tcp_conns n name of
          None \<Rightarrow> n
        | Some c \<Rightarrow>
            (case x of
               Message m \<Rightarrow> give name (sendMessage (ans (length xs)) m c) n
             | Shutdown \<Rightarrow> give name (tcp_shutdown c) n
             | ForceCloseWithDelay k \<Rightarrow>
                 (case forceCloseWithDelay c of (armed, c') \<Rightarrow>
                    if armed then runAfter now k name (put_conn c' n) else n)
             | _ \<Rightarrow> n)"
  have "keeps_refs {name} n (runAfter now k name (put_conn (snd (forceCloseWithDelay c)) n))" if "tcp_conns n name = Some c" for c k
    by (rule keeps_trans [OF keeps_put [OF that] keeps_timer]) simp_all
  then have "keeps_refs {name} n ?n1" by (auto simp: keeps_give case_prod_unfold split: option.split rtsp_out.split)
  from keeps_trans [OF this Cons.IH] show ?case by simp
qed simp

lemma keeps_packets: "keeps_refs UNIV n (send_packets tcps ans outs n)"
proof (induction tcps ans outs n rule: send_packets.induct)
  case (2 tcps ans r out outs n)
  let ?n1 = "case out of
          UdpSend fd peer d \<Rightarrow> n
        | TcpSend d \<Rightarrow>
            (case tcps r of
               None \<Rightarrow> n
             | Some t \<Rightarrow>
                 (case tcp_conns n (tcp_name t) of
                    None \<Rightarrow> n
                  | Some c \<Rightarrow> give (tcp_name t) (tcp_send (ans (length outs)) d c) n))"
  have "keeps_refs UNIV n ?n1" by (auto simp: keeps_give split: option.split rtp_out.split)
  from keeps_trans [OF this 2] show ?case by simp
qed simp

lemma keeps_close:
  assumes "close_conn c s = Inr t" "tcp_conns (sys_net s) x = Some c"
  shows "keeps_refs {x} (sys_net s) (sys_net t)"
proof -
  let ?c = "disableAll (c\<lparr>tcp_state := kDisconnected\<rparr>)"
  have "sys_net t = (put_conn ?c (sys_net s))\<lparr>connections := connections (sys_net s) - {conn_name c},
      pendingFunctors := pendingFunctors (sys_net s) @ [ConnectDestroyed (conn_name c)]\<rparr>"
    using assms(1) by (auto simp: close_conn_def handleClose_def removeConnection_def disableAll_def c_assert_def rbind_eq_Inr split: if_splits)
  moreover have "keeps_refs {x} (sys_net s) (put_conn ?c (sys_net s))"
    by (rule keeps_put [OF assms(2)]) (simp_all add: tcp_of_def disableAll_def)
  ultimately show ?thesis using keeps_trans [OF _ keeps_frame] by simp
qed

lemma keeps_with_conn:
  assumes "with_conn name f s = Inr t" "\<And>c. tcp_conns (sys_net s) name = Some c \<Longrightarrow> f c s = Inr t \<Longrightarrow> keeps_refs {name} (sys_net s) (sys_net t)"
  shows "keeps_refs {name} (sys_net s) (sys_net t)"
  using assms by (auto simp: with_conn_def split: option.splits)

lemma keeps_read:
  assumes "handleRead now e r ans c s = Inr t" "tcp_conns (sys_net s) x = Some c"
  shows "keeps_refs {x} (sys_net s) (sys_net t)"
proof (cases "keyed (sys_net s)")
  case True
  then have "conn_name c = x" using assms(2) by (simp add: keyed_def)
  with assms(1) keeps_close [OF _ assms(2)] keeps_react show ?thesis
    by (auto simp: handleRead_def rbind_eq_Inr split: read_answer.splits if_splits prod.splits)
qed (simp add: keeps_refs_def)

lemma keeps_event:
  assumes "handleEventWithGuard name ev now e r ans wans s = Inr t"
  shows "keeps_refs {name} (sys_net s) (sys_net t)"
proof -
  obtain s1 s2 where s1: "(if ev_hup ev \<and> \<not> ev_in ev then with_conn name close_conn s else Inr s) = Inr s1"
    and s2: "(if ev_in ev \<or> ev_pri ev then with_conn name (handleRead now e r ans) s1 else Inr s1) = Inr s2"
    and t: "(if ev_out ev then with_conn name (write_channel name wans) s2 else Inr s2) = Inr t"
    using assms unfolding handleEventWithGuard_def rbind_eq_Inr by blast
  have "keeps_refs {name} (sys_net s) (sys_net s1)" using s1 keeps_with_conn [OF _ keeps_close] by (auto split: if_splits)
  moreover have "keeps_refs {name} (sys_net s1) (sys_net s2)" using s2 keeps_with_conn [OF _ keeps_read] by (auto split: if_splits)
  moreover have "keeps_refs {name} (sys_net s2) (sys_net t)"
  proof (cases "ev_out ev")
    case True
    then obtain c res where c: "tcp_conns (sys_net s2) name = Some c" "handleWrite wans c = Inr res" "sys_net t = give name res (sys_net s2)"
      using t by (auto simp del: split_paired_Ex simp: with_conn_def write_channel_eq_Inr split: option.splits)
    show ?thesis unfolding c(3) using keeps_give [OF c(1) tcp_of_write [OF c(2)]] by simp
  qed (use t in \<open>simp add: keeps_refs_def\<close>)
  ultimately show ?thesis using keeps_trans by blast
qed

lemma keeps_functor:
  assumes "run_functor f s = Inr t"
  shows "keeps_refs UNIV (sys_net s) (sys_net t)"
proof (cases f)
  case (ForceCloseInLoop name)
  with assms show ?thesis
    using keeps_any [OF keeps_close] by (auto simp: run_functor_def with_conn_def split: option.splits if_splits)
next
  case (ConnectDestroyed name)
  then obtain c down c' where c: "tcp_conns (sys_net s) name = Some c" "connectDestroyed c = Inr (down, c')"
    and t: "sys_net t = put_conn c' (sys_net s)"
    using assms by (auto simp: run_functor_def with_conn_def rbind_eq_Inr split: option.splits)
  have "tcp_of c' = tcp_of c"
    using c(2) by (auto simp: connectDestroyed_def channel_remove_def disableAll_def tcp_of_def c_assert_def rbind_eq_Inr split: if_splits)
  with c t keeps_put show ?thesis by simp
qed

lemma keeps_functors: "run_functors fs s = Inr t \<Longrightarrow> keeps_refs UNIV (sys_net s) (sys_net t)"
proof (induction fs arbitrary: s)
  case (Cons f fs)
  then obtain u where u: "run_functor f s = Inr u" "run_functors fs u = Inr t" by (auto simp: rbind_eq_Inr)
  show ?case by (rule keeps_trans [OF keeps_functor [OF u(1)] Cons.IH [OF u(2)]])
qed simp

lemma keeps_release: "release_refs fs n = Inr n' \<Longrightarrow> keeps_refs UNIV n n'"
proof (induction fs arbitrary: n)
  case (Cons f fs)
  have "keeps_refs UNIV n (n\<lparr>tcp_conns := (tcp_conns n)(functor_conn f := None)\<rparr>)"
    by (rule keeps_drop) (auto simp: map_le_def)
  with Cons show ?case using keeps_trans by (fastforce simp: c_assert_def split: option.splits if_splits)
qed simp

lemma keeps_pending:
  assumes "doPendingFunctors s = Inr t"
  shows "keeps_refs UNIV (sys_net s) (sys_net t)"
proof -
  let ?fs = "pendingFunctors (sys_net s)" let ?n0 = "(sys_net s)\<lparr>pendingFunctors := []\<rparr>"
  obtain u n where u: "run_functors ?fs (s\<lparr>sys_net := ?n0\<rparr>) = Inr u" "release_refs ?fs (sys_net u) = Inr n" "t = u\<lparr>sys_net := n\<rparr>"
    using assms by (auto simp: doPendingFunctors_def Let_def rbind_eq_Inr)
  have "keeps_refs UNIV (sys_net s) ?n0" by (rule keeps_frame) simp_all
  moreover have "keeps_refs UNIV ?n0 (sys_net u)" using keeps_functors [OF u(1)] by simp
  moreover have "keeps_refs UNIV (sys_net u) n" by (rule keeps_release [OF u(2)])
  ultimately have "keeps_refs UNIV (sys_net s) n" using keeps_trans by blast
  with u(3) show ?thesis by simp
qed

lemma keeps_run_timer: "keeps_refs UNIV n (run_timer t n)"
proof (cases "tcp_conns n (snd t)")
  case (Some c)
  have "keeps_refs UNIV n (put_conn (snd (forceClose c)) n)" by (rule keeps_put [OF Some]) simp_all
  moreover have "keeps_refs UNIV m (m\<lparr>pendingFunctors := x\<rparr>)" for m x by (rule keeps_frame) simp_all
  ultimately show ?thesis using Some keeps_trans by (simp add: run_timer_def case_prod_unfold)
qed (simp add: run_timer_def)

lemma keeps_timers: "keeps_refs UNIV n (handleTimers now n)"
proof -
  have "keeps_refs UNIV m (fold run_timer ts m)" for ts m
  proof (induction ts arbitrary: m)
    case (Cons t ts)
    from keeps_trans [OF keeps_run_timer [of m t] Cons.IH] show ?case by simp
  qed simp
  from keeps_trans [OF keeps_frame this] show ?thesis by (simp add: handleTimers_def getExpired_def)
qed

lemma keeps_step:
  assumes "sys_step s ev = Inr t" "\<forall>fd memory m. ev \<noteq> Accept fd memory m"
  shows "keeps_refs UNIV (sys_net s) (sys_net t)"
proof (cases ev)
  case (ChannelEvent name ev now e r ans wans)
  with assms(1) keeps_any [OF keeps_event] show ?thesis by simp
next
  case PendingFunctors
  with assms(1) keeps_pending show ?thesis by simp
next
  case (PacketTask sent ans)
  with assms(1) keeps_packets show ?thesis by (auto simp: rbind_eq_Inr)
qed (use assms keeps_timers in \<open>auto simp: rbind_eq_Inr\<close>)

section \<open>The account of the descriptors\<close>

lemma map_filter_split:
  "(\<And>k y. g k = Some y \<Longrightarrow> f k = Some y) \<Longrightarrow>
     mset (List.map_filter f ks) = mset (List.map_filter (\<lambda>k. if g k = None then f k else None) ks) + mset (List.map_filter g ks)"
  by (induction ks) (auto simp: map_filter_simps split: option.splits)

lemma conn_fds_destroyed:
  assumes "same_refs n n'"
  shows "mset (conn_fds n) = mset (destroyed_fds n n') + mset (conn_fds n')"
proof -
  have "fd_of n k = Some y" if "fd_of n' k = Some y" for k y
    using assms that unfolding same_refs_def fd_of_def tcp_of_def by fastforce
  from map_filter_split [of "fd_of n'" "fd_of n", OF this] assms show ?thesis
    by (simp add: conn_fds_def destroyed_fds_def same_refs_def)
qed

lemma map_filter_same: "(\<And>k. k \<in> set ks \<Longrightarrow> f k = g k) \<Longrightarrow> List.map_filter f ks = List.map_filter g ks"
  by (simp add: List.map_filter_def cong: filter_cong)

lemma length_map_filter: "length (List.map_filter f ks) = length (filter (\<lambda>k. f k \<noteq> None) ks)"
  by (induction ks) (auto simp: map_filter_simps split: option.splits)

lemma conn_fds_card:
  assumes "net_inv fs zs n"
  shows "length (conn_fds n) = card (dom (tcp_conns n))"
proof -
  let ?ks = "filter (\<lambda>k. fd_of n k \<noteq> None) [0..<nextConnId n]"
  note i = net_inv_parts [OF assms]
  have "inj_on (connName n) (set ?ks)"
    using connName_inj [OF i(7)] i(8) by (intro inj_onI) fastforce
  moreover have "connName n ` set ?ks = dom (tcp_conns n)"
  proof (intro equalityI subsetI)
    fix x assume "x \<in> dom (tcp_conns n)"
    with i(6) [of x] obtain k where "k < nextConnId n" "x = connName n k" "tcp_conns n (connName n k) \<noteq> None" by auto
    then show "x \<in> connName n ` set ?ks" by (simp add: fd_of_def)
  qed (auto simp: fd_of_def)
  ultimately have "card (dom (tcp_conns n)) = card (set ?ks)" using card_image by metis
  moreover have "card (set ?ks) = length ?ks" by (rule distinct_card) simp
  ultimately show ?thesis by (simp only: conn_fds_def length_map_filter)
qed

lemma accept_fds:
  assumes "sys_inv s" "newConnection fd memory m s = Inr t"
  shows "conn_fds (sys_net t) = conn_fds (sys_net s) @ [fd]"
proof -
  let ?n = "sys_net s" let ?k = "nextConnId ?n" let ?name = "connName ?n ?k"
  let ?c = "(TcpConnection_new ?name fd)\<lparr>tcp_state := kConnected, read_events := True, addedToLoop := True\<rparr>"
  note i = net_inv_parts [OF sys_inv_at_parts(1) [OF assms(1) [unfolded sys_inv_def]]]
  have t: "connName (sys_net t) = connName ?n" "nextConnId (sys_net t) = Suc ?k" "tcp_conns (sys_net t) = (tcp_conns ?n)(?name \<mapsto> ?c)"
    using assms(2) by (auto simp: newConnection_def Let_def connectEstablished_def TcpConnection_new_def)
  have "fd_of (sys_net t) k = fd_of ?n k" if "k < ?k" for k
    using connName_inj [OF i(7,8), of k] that i(8) by (auto simp: fd_of_def t)
  then have "List.map_filter (fd_of (sys_net t)) [0..<?k] = List.map_filter (fd_of ?n) [0..<?k]"
    by (intro map_filter_same) simp
  moreover have "fd_of (sys_net t) ?k = Some fd" by (simp add: fd_of_def t TcpConnection_new_def)
  ultimately show ?thesis by (simp add: conn_fds_def t map_filter_simps List.map_filter_def)
qed

definition daemon_inv :: "daemon \<Rightarrow> bool" where
  "daemon_inv d \<longleftrightarrow>
     timed_inv (dm_system d) \<and> newConnectionCallback (dm_acceptor d) \<and> 0 \<le> acceptSocket (dm_acceptor d) \<and>
     poolStarted d = started d \<and> listenning (dm_acceptor d) = started d \<and> (acceptReading (dm_acceptor d) \<longrightarrow> started d) \<and>
     (\<forall>fd \<in> set (conn_fds (sys_net (dm_system d))). 0 \<le> fd) \<and>
     fd_table {#} (dm_calls d) = Some (own_fds (dm_acceptor d) + mset (conn_fds (sys_net (dm_system d))))"

lemma own_fds_reserve:
  "fd_table (own_fds a + M) [Closed (idleFd a), Opened again, Closed again, Opened reopened] = Some (own_fds (a\<lparr>idleFd := reopened\<rparr>) + M)"
  by (simp add: own_fds_def)

lemma daemon_sys_ok:
  assumes "daemon_inv d" "sys_ok (dm_system d) e" "\<forall>fd memory m. e \<noteq> Accept fd memory m"
  shows "\<exists>d'. daemon_step d (Sys e) = Inr d' \<and> daemon_inv d'"
proof -
  note i = assms(1) [unfolded daemon_inv_def]
  have inv: "timed_inv (dm_system d)" using i by blast
  obtain s where s: "sys_step (dm_system d) e = Inr s" "timed_inv s" using timed_step [OF inv assms(2)] by blast
  let ?n = "sys_net (dm_system d)" let ?n' = "sys_net s"
  have "net_inv [] {} ?n" using inv by (simp add: timed_inv_def sys_inv_def sys_inv_at_def)
  then have "keyed ?n" by (auto simp: keyed_def net_inv_def tcp_ok_def)
  then have "same_refs ?n ?n'" using keeps_step [OF s(1) assms(3)] by (simp add: keeps_refs_def)
  note split = conn_fds_destroyed [OF this]
  have "set (conn_fds ?n) = set (destroyed_fds ?n ?n') \<union> set (conn_fds ?n')"
    using arg_cong [OF split, of set_mset] by simp
  then have pos: "\<forall>fd \<in> set (destroyed_fds ?n ?n'). 0 \<le> fd" "\<forall>fd \<in> set (conn_fds ?n'). 0 \<le> fd" using i by auto
  have "fd_table {#} (dm_calls d) = Some (mset (destroyed_fds ?n ?n') + (own_fds (dm_acceptor d) + mset (conn_fds ?n')))"
    using i split by (simp add: ac_simps)
  then have "fd_table {#} (dm_calls d @ map Closed (destroyed_fds ?n ?n')) = Some (own_fds (dm_acceptor d) + mset (conn_fds ?n'))"
    using fd_table_closed [OF pos(1)] by (simp add: fd_table_append)
  with i s pos(2) show ?thesis by (simp add: daemon_inv_def)
qed

lemma daemon_accept_ok:
  assumes "daemon_inv d" "acceptReading (dm_acceptor d)" "0 \<le> fd" "sys_ok (dm_system d) (Accept fd memory m)"
  shows "\<exists>d'. daemon_step d (Readable (Client fd) again reopened memory m) = Inr d' \<and> daemon_inv d'"
proof -
  note i = assms(1) [unfolded daemon_inv_def]
  have inv: "timed_inv (dm_system d)" using i by blast
  obtain s where s: "newConnection fd memory m (dm_system d) = Inr s" "timed_inv s"
    using timed_step [OF inv assms(4)] by auto
  have f: "conn_fds (sys_net s) = conn_fds (sys_net (dm_system d)) @ [fd]"
    using accept_fds [OF _ s(1)] inv by (simp add: timed_inv_def)
  with i s assms(2,3) show ?thesis
    by (simp add: daemon_inv_def Acceptor_handleRead_def sockets_accept_def fd_table_append)
qed

lemma daemon_step_ok:
  assumes "daemon_inv d" "daemon_ok d e"
  shows "\<exists>d'. daemon_step d e = Inr d' \<and> daemon_inv d'"
proof (cases e)
  case (Start listens)
  with assms show ?thesis by (auto simp: daemon_inv_def TcpServer_start_def Acceptor_listen_def own_fds_def)
next
  case (Sys ev)
  with assms daemon_sys_ok show ?thesis by simp
next
  case e: (Readable ans again reopened memory m)
  show ?thesis
  proof (cases ans)
    case (Client fd)
    with assms e daemon_accept_ok show ?thesis by simp
  next
    case (Refused er)
    let ?calls = "[Closed (idleFd (dm_acceptor d)), Opened again, Closed again, Opened reopened]"
    have "fd_table {#} (dm_calls d @ ?calls) =
        Some (own_fds (dm_acceptor d\<lparr>idleFd := reopened\<rparr>) + mset (conn_fds (sys_net (dm_system d))))"
      using assms(1) own_fds_reserve unfolding daemon_inv_def fd_table_append by simp
    then show ?thesis using assms e Refused
      by (auto simp: daemon_inv_def Acceptor_handleRead_def sockets_accept_def simp del: fd_table.simps)
  qed
qed

interpretation daemon: transition_system daemon_step daemon_ok daemon_inv
  by unfold_locales (rule daemon_step_ok)

lemma step_started: "daemon_step d e = Inr d' \<Longrightarrow> started d' \<longleftrightarrow> started d \<or> (\<exists>b. e = Start b)"
  by (cases e) (auto simp: TcpServer_start_def c_assert_def rbind_eq_Inr split: if_splits option.splits prod.splits)

lemma run_started: "run_steps daemon_step d es = Inr d' \<Longrightarrow> started d' \<longleftrightarrow> started d \<or> (\<exists>b. Start b \<in> set es)"
  by (induction es arbitrary: d) (auto simp: rbind_eq_Inr dest!: step_started)

lemma TcpServer_new_inv:
  assumes "server_inv r" "rtspConnMap r = Map.empty" "length addr \<le> 40" "TcpServer_new sockfd spare bound name addr r = Inr d"
  shows "daemon_inv d" "\<not> started d"
  using assms(4) timed_init [OF assms(1-3), of name]
  by (auto simp: TcpServer_new_def Acceptor_new_def setNewConnectionCallback_def daemon_inv_def own_fds_def c_assert_def
      conn_fds_def map_filter_simps fd_of_def system_init_def net_init_def rbind_eq_Inr add_mset_commute split: if_splits)

section \<open>No descriptor leaks\<close>

text \<open>
  C10: From the constructor of \<open>TcpServer\<close> on, through calls of \<open>start\<close>, accepted connections, connections refused with an error
  the code expects (with the reserve
  descriptor given up and taken again when the process has no more), and any events of the system admissible under \<open>sys_ok\<close>, nothing
  faults; in the list of the calls that \<open>Acceptor\<close>, \<open>Socket\<close> and \<open>TcpConnection\<close> make to open and close descriptors, only open ones are closed,
  and those left open are exactly the listening socket, the
  reserve if there is one, and one for each connection object that exists; and the server listens exactly if
  \<open>start\<close> has been called. The closes of \<open>RtpConnection\<close> (one of them of a descriptor it does not own) are not in the list.
\<close>

theorem descriptors_accounted:
  assumes "server_inv r" "rtspConnMap r = Map.empty" "length addr \<le> 40"
    and "TcpServer_new sockfd spare bound name addr r = Inr d" "admissible daemon_step daemon_ok d es"
  shows "\<exists>d'. run_steps daemon_step d es = Inr d' \<and>
    fd_table {#} (dm_calls d') = Some (own_fds (dm_acceptor d') + mset (conn_fds (sys_net (dm_system d')))) \<and>
    length (conn_fds (sys_net (dm_system d'))) = card (dom (tcp_conns (sys_net (dm_system d')))) \<and>
    (listenning (dm_acceptor d') \<longleftrightarrow> (\<exists>b. Start b \<in> set es))"
proof -
  note new = TcpServer_new_inv [OF assms(1-4)]
  obtain d' where d': "run_steps daemon_step d es = Inr d'" "daemon_inv d'" using daemon.run_inv [OF new(1) assms(5)] by blast
  have "net_inv [] {} (sys_net (dm_system d'))"
    using d'(2) by (simp add: daemon_inv_def timed_inv_def sys_inv_def sys_inv_at_def)
  with conn_fds_card d' run_started [OF d'(1)] new(2) show ?thesis by (simp add: daemon_inv_def)
qed

theorem descriptors_accounted_witness:
  "\<exists>d d'. TcpServer_new 3 4 True ''RtspServer'' ''0.0.0.0:554'' (snd (main_server 0)) = Inr d \<and>
    run_steps daemon_step d
      [Start True, Readable (Refused EMFILE) (- 1) 4 (RtspRequest_init METHOD_NONE channel_0 RTP_OVER_TCP) C_NONE,
       Start True, Readable (Client 9) (- 1) (- 1) (RtspRequest_init METHOD_NONE channel_0 RTP_OVER_TCP) C_NONE] = Inr d' \<and>
    fd_table {#} (dm_calls d') = Some (own_fds (dm_acceptor d') + mset (conn_fds (sys_net (dm_system d')))) \<and>
    listenning (dm_acceptor d')"
proof -
  let ?r = "snd (main_server 0)"
  obtain d where d: "TcpServer_new 3 4 True ''RtspServer'' ''0.0.0.0:554'' ?r = Inr d"
    "newConnectionCallback (dm_acceptor d)" "\<not> started d" "\<not> poolStarted d" "\<not> listenning (dm_acceptor d)"
    "nextConnId (sys_net (dm_system d)) = 1"
    by (simp add: TcpServer_new_def Acceptor_new_def setNewConnectionCallback_def system_init_def net_init_def)
  then have "admissible daemon_step daemon_ok d
      [Start True, Readable (Refused EMFILE) (- 1) 4 (RtspRequest_init METHOD_NONE channel_0 RTP_OVER_TCP) C_NONE,
       Start True, Readable (Client 9) (- 1) (- 1) (RtspRequest_init METHOD_NONE channel_0 RTP_OVER_TCP) C_NONE]"
    by (simp add: TcpServer_start_def Acceptor_listen_def Acceptor_handleRead_def sockets_accept_def split: sum.split)
  from descriptors_accounted [OF server_inv_main main_server_empty sample_addr d(1) this] d(1) show ?thesis by fastforce
qed

end
