(* ===== verification/Event_Loop.thy ===== *)
theory Event_Loop
  imports Acceptor
begin

text \<open>
  \<open>EventLoop::loop\<close> (\<open>EventLoop.cc\<close>): a turn polls, handles the events of the channels the poller reports, one after the other, and
  runs the pending functors. The poller looks at the channels once, before any of them is handled; here it is shown that
  what it reports stays true until each channel's turn comes, so that a turn never faults, and that a connection whose
  end it reports is gone when the turn is over.
\<close>

section \<open>The loop\<close>

datatype channel = AcceptChannel | TimerChannel | ConnChannel string

fun event_channel :: "daemon_event \<Rightarrow> channel option" where
  "event_channel (Readable ans again reopened memory m) = Some AcceptChannel"
| "event_channel (Sys (TimersDue now)) = Some TimerChannel"
| "event_channel (Sys (ChannelEvent name ev now e r ans wans)) = Some (ConnChannel name)"
| "event_channel e = None"

text \<open>A call of another thread (or of \<open>main\<close>, before the loop), or a packet's task, comes between two turns.\<close>

datatype loop_event = Turn "daemon_event list" | Call daemon_event

fun loop_step :: "daemon \<Rightarrow> loop_event \<Rightarrow> daemon result" where
  "loop_step d (Turn activeChannels) =
     rbind (run_steps daemon_step d activeChannels) (\<lambda>d'. daemon_step d' (Sys PendingFunctors))"
| "loop_step d (Call e) = daemon_step d e"

text \<open>The poller reports a channel at most once, and only what it may report when it is asked.\<close>

fun loop_ok :: "daemon \<Rightarrow> loop_event \<Rightarrow> bool" where
  "loop_ok d (Turn activeChannels) =
     (list_all (\<lambda>e. event_channel e \<noteq> None \<and> daemon_ok d e) activeChannels \<and> distinct (map event_channel activeChannels))"
| "loop_ok d (Call e) = (event_channel e = None \<and> e \<noteq> Sys PendingFunctors \<and> daemon_ok d e)"

section \<open>Channels do not disturb each other\<close>

definition unaffected :: "string \<Rightarrow> system \<Rightarrow> system \<Rightarrow> bool" where
  "unaffected y s t \<longleftrightarrow>
     (\<forall>c. tcp_conns (sys_net s) y = Some c \<longrightarrow>
        (\<exists>c'. tcp_conns (sys_net t) y = Some c' \<and> read_events c' = read_events c \<and> write_events c' = write_events c)) \<and>
     rtspConnMap (sys_rtsp t) y = rtspConnMap (sys_rtsp s) y \<and> inputBuffers (sys_rtsp t) y = inputBuffers (sys_rtsp s) y"

lemma unaffected_refl [simp]: "unaffected y s s"
  by (simp add: unaffected_def)

lemma unaffected_ok:
  assumes "unaffected y s t" "sys_ok s (ChannelEvent y ev now e r ans wans)"
  shows "sys_ok t (ChannelEvent y ev now e r ans wans)"
proof -
  obtain c where c: "tcp_conns (sys_net s) y = Some c" using assms(2) by (auto split: option.splits)
  then obtain c' where "tcp_conns (sys_net t) y = Some c'" "read_events c' = read_events c" "write_events c' = write_events c"
    using assms(1) unfolding unaffected_def by blast
  with assms c show ?thesis by (simp add: unaffected_def split: read_answer.splits option.splits)
qed

lemma inv_keyed: "timed_inv s \<Longrightarrow> keyed (sys_net s)"
  by (auto simp: timed_inv_def sys_inv_def sys_inv_at_def keyed_def net_inv_def tcp_ok_def)

lemma keeps_conns: "keeps_refs X n n' \<Longrightarrow> keyed n \<Longrightarrow> y \<notin> X \<Longrightarrow> tcp_conns n' y = tcp_conns n y"
  by (simp add: keeps_refs_def)

definition same_dialogue :: "string \<Rightarrow> RtspServer \<Rightarrow> RtspServer \<Rightarrow> bool" where
  "same_dialogue y r r' \<longleftrightarrow> rtspConnMap r' y = rtspConnMap r y \<and> inputBuffers r' y = inputBuffers r y"

lemma release_dialogue: "y \<noteq> name \<Longrightarrow> same_dialogue y r (snd (release_name name r))"
  by (auto simp: same_dialogue_def release_name_def destroy_conn_def split: option.splits)

lemma close_dialogue: "close_conn c s = Inr t \<Longrightarrow> conn_name c \<noteq> y \<Longrightarrow> same_dialogue y (sys_rtsp s) (sys_rtsp t)"
  using release_dialogue [of y "conn_name c"]
  by (auto simp: close_conn_def handleClose_def removeConnection_def disableAll_def conn_down_def onConnection_def tcp_of_def
      c_assert_def rbind_eq_Inr split: if_splits)

lemma message_dialogue:
  assumes "server_inv r" "onMessage e name d r = Inr (outs, r')" "name \<noteq> y"
  shows "same_dialogue y r r'"
proof -
  obtain c where c: "rtspConnMap r name = Some c" using assms(2) by (auto simp: onMessage_def split: option.splits)
  obtain buf s1 c1 where t: "touches c r s1"
    and h: "r' = s1\<lparr>rtspConnMap := (rtspConnMap s1)(name \<mapsto> c1), inputBuffers := (inputBuffers s1)(name := buf)\<rparr>"
    using onMessage_touches [OF assms(1) c assms(2)] by blast
  have "rtspConnMap s1 = rtspConnMap r" "inputBuffers s1 = inputBuffers r" using t more_eq unfolding touches_def by blast+
  with h assms(3) show ?thesis by (simp add: same_dialogue_def)
qed

lemma read_dialogue:
  "server_inv (sys_rtsp s) \<Longrightarrow> handleRead now e r ans c s = Inr t \<Longrightarrow> conn_name c \<noteq> y \<Longrightarrow> same_dialogue y (sys_rtsp s) (sys_rtsp t)"
  using close_dialogue message_dialogue
  by (auto simp: handleRead_def rbind_eq_Inr same_dialogue_def split: read_answer.splits if_splits prod.splits)

lemma event_dialogue:
  assumes "timed_inv s" "sys_ok s (ChannelEvent name ev now e r ans wans)"
    and "handleEventWithGuard name ev now e r ans wans s = Inr t" "y \<noteq> name"
  shows "same_dialogue y (sys_rtsp s) (sys_rtsp t)"
proof -
  have inv: "server_inv (sys_rtsp s)" using assms(1) by (simp add: timed_inv_def sys_inv_def sys_inv_at_def)
  obtain c where c: "tcp_conns (sys_net s) name = Some c" using assms(2) by (auto split: option.splits)
  with inv_keyed [OF assms(1)] assms(4) have nm: "conn_name c \<noteq> y" by (auto simp: keyed_def)
  have pri: "ev_hup ev \<Longrightarrow> \<not> ev_in ev \<Longrightarrow> \<not> ev_pri ev" using assms(2) c by auto
  obtain s1 s2 where s1: "(if ev_hup ev \<and> \<not> ev_in ev then with_conn name close_conn s else Inr s) = Inr s1"
    and s2: "(if ev_in ev \<or> ev_pri ev then with_conn name (handleRead now e r ans) s1 else Inr s1) = Inr s2"
    and t: "(if ev_out ev then with_conn name (write_channel name wans) s2 else Inr s2) = Inr t"
    using assms(3) unfolding handleEventWithGuard_def rbind_eq_Inr by blast
  have "sys_rtsp t = sys_rtsp s2" using t by (auto simp: with_conn_def write_channel_eq_Inr split: if_splits option.splits)
  moreover have "same_dialogue y (sys_rtsp s) (sys_rtsp s2)"
  proof (cases "ev_hup ev \<and> \<not> ev_in ev")
    case True
    then have "s2 = s1" "close_conn c s = Inr s1" using s1 s2 pri c by (simp_all add: with_conn_def)
    with close_dialogue nm show ?thesis by blast
  next
    case False
    have "s1 = s" using s1 unfolding if_not_P [OF False] by simp
    then have "s2 = s \<or> handleRead now e r ans c s = Inr s2" using s2 c by (auto simp: with_conn_def split: if_splits)
    with read_dialogue [OF inv _ nm] show ?thesis by (auto simp: same_dialogue_def)
  qed
  ultimately show ?thesis by simp
qed

lemma event_unaffected:
  assumes "timed_inv s" "sys_ok s (ChannelEvent name ev now e r ans wans)"
    and "sys_step s (ChannelEvent name ev now e r ans wans) = Inr t" "y \<noteq> name"
  shows "unaffected y s t"
proof -
  have h: "handleEventWithGuard name ev now e r ans wans s = Inr t" using assms(3) by simp
  have "tcp_conns (sys_net t) y = tcp_conns (sys_net s) y"
    using keeps_conns [OF keeps_event [OF h] inv_keyed [OF assms(1)]] assms(4) by simp
  with event_dialogue [OF assms(1,2) h assms(4)] show ?thesis by (simp add: unaffected_def same_dialogue_def)
qed

definition same_events :: "net \<Rightarrow> net \<Rightarrow> bool" where
  "same_events n n' \<longleftrightarrow>
     (\<forall>y c. tcp_conns n y = Some c \<longrightarrow>
        (\<exists>c'. tcp_conns n' y = Some c' \<and> read_events c' = read_events c \<and> write_events c' = write_events c))"

lemma run_timer_events: "keyed n \<Longrightarrow> same_events n (run_timer tm n)"
  by (auto simp: same_events_def keyed_def run_timer_def forceClose_def put_conn_def split: option.split)

lemma timers_events:
  assumes "keyed n"
  shows "same_events n (handleTimers now n)"
proof -
  have "same_events m (fold run_timer ts m)" if "keyed m" for ts m
    using that
  proof (induction ts arbitrary: m)
    case (Cons tm ts)
    have "keyed (run_timer tm m)" using keeps_run_timer Cons.prems by (simp add: keeps_refs_def)
    from Cons.IH [OF this] run_timer_events [OF Cons.prems, of tm] show ?case unfolding same_events_def by fastforce
  qed (simp add: same_events_def)
  from this [of "n\<lparr>timers := dropWhile (\<lambda>t. fst t \<le> now) (timers n)\<rparr>"] assms show ?thesis
    by (simp add: handleTimers_def getExpired_def same_events_def keyed_def)
qed

lemma accept_unaffected:
  assumes "timed_inv s" "newConnection fd memory m s = Inr t" "tcp_conns (sys_net s) y \<noteq> None"
  shows "unaffected y s t"
proof -
  let ?n = "sys_net s" let ?name = "connName ?n (nextConnId ?n)"
  note i = net_inv_parts [OF sys_inv_at_parts(1) [OF assms(1) [unfolded timed_inv_def sys_inv_def, THEN conjunct1]]]
  have "y \<noteq> ?name" using i(6) [OF assms(3)] connName_inj [OF i(7,8)] i(8) by fastforce
  with release_dialogue [of y ?name] assms(2) show ?thesis
    by (auto simp: newConnection_def Let_def connectEstablished_def TcpConnection_new_def onConnection_def tcp_of_def
        same_dialogue_def unaffected_def case_prod_unfold)
qed

text \<open>What the poller reported of a channel may still happen after another channel has been handled.\<close>

lemma channel_ok_kept:
  assumes "daemon_inv d" "daemon_ok d e" "daemon_ok d e'" "daemon_step d e = Inr d'"
    and "event_channel e \<noteq> None" "event_channel e' \<noteq> None" "event_channel e \<noteq> event_channel e'"
  shows "daemon_ok d' e'"
proof -
  let ?s = "dm_system d" let ?t = "dm_system d'"
  have inv: "timed_inv ?s" using assms(1) by (simp add: daemon_inv_def)
  have un: "unaffected y ?s ?t" if y: "event_channel e' = Some (ConnChannel y)" "tcp_conns (sys_net ?s) y \<noteq> None" for y
  proof (cases e)
    case (Readable a again reopened memory m)
    with assms(4) accept_unaffected [OF inv _ y(2)] show ?thesis
      by (auto simp: rbind_eq_Inr c_assert_eq_Inr split: option.splits)
  next
    case (Sys ev)
    with assms(5) consider name rev now en r ans wans where "ev = ChannelEvent name rev now en r ans wans" | now where "ev = TimersDue now"
      by (cases ev) auto
    then show ?thesis
    proof cases
      case 1
      with Sys assms(2,4,7) y(1) event_unaffected [OF inv] show ?thesis by (auto simp: rbind_eq_Inr)
    next
      case 2
      then show ?thesis using Sys assms(4) timers_events [OF inv_keyed [OF inv]]
        by (auto simp: rbind_eq_Inr unaffected_def same_events_def)
    qed
  qed (use assms(5) in simp)
  have fresh: "acceptReading (dm_acceptor d') = acceptReading (dm_acceptor d)" "nextConnId (sys_net ?t) = nextConnId (sys_net ?s)"
    if acc: "event_channel e' = Some AcceptChannel"
  proof -
    obtain ev where ev: "e = Sys ev" "\<forall>fd memory m. ev \<noteq> Accept fd memory m"
      using assms(2,5,7) acc by (cases e) auto
    with assms(4) obtain t where t: "sys_step ?s ev = Inr t" "dm_acceptor d' = dm_acceptor d" "?t = t" by (auto simp: rbind_eq_Inr)
    with keeps_step [OF t(1) ev(2)] inv_keyed [OF inv]
    show "acceptReading (dm_acceptor d') = acceptReading (dm_acceptor d)" "nextConnId (sys_net ?t) = nextConnId (sys_net ?s)"
      by (simp_all add: keeps_refs_def same_refs_def)
  qed
  show ?thesis
  proof (cases e')
    case (Readable a again reopened memory m)
    with assms(3) fresh show ?thesis by (auto split: accept_answer.splits)
  next
    case (Sys ev)
    with assms(6) consider name rev now en r ans wans where "ev = ChannelEvent name rev now en r ans wans" | now where "ev = TimersDue now"
      by (cases ev) auto
    then show ?thesis
    proof cases
      case 1
      then have ok: "sys_ok ?s ev" "tcp_conns (sys_net ?s) name \<noteq> None" using assms(3) Sys by (auto split: option.splits)
      have "sys_ok ?t ev" using unaffected_ok [OF un [OF _ ok(2)]] ok(1) Sys 1 by simp
      with Sys 1 show ?thesis by simp
    next
      case 2
      with Sys show ?thesis by simp
    qed
  qed (use assms(6) in simp)
qed

lemma channels_admissible:
  "daemon_inv d \<Longrightarrow> list_all (\<lambda>e. event_channel e \<noteq> None \<and> daemon_ok d e) es \<Longrightarrow> distinct (map event_channel es) \<Longrightarrow>
     admissible daemon_step daemon_ok d es"
proof (induction es arbitrary: d)
  case (Cons e es)
  then obtain d' where d': "daemon_step d e = Inr d'" "daemon_inv d'" using daemon_step_ok [of d e] by auto
  have "daemon_ok d' x" if "x \<in> set es" for x
    using channel_ok_kept [OF Cons.prems(1) _ _ d'(1), of x] Cons.prems(2,3) that by (auto simp: list_all_iff image_iff)
  then have "list_all (\<lambda>e. event_channel e \<noteq> None \<and> daemon_ok d' e) es" using Cons.prems(2) by (simp add: list_all_iff)
  from Cons.IH [OF d'(2) this] Cons.prems(2,3) d'(1) show ?case by simp
qed simp

section \<open>A turn is a run of its events\<close>

fun turn_steps :: "loop_event \<Rightarrow> daemon_event list" where
  "turn_steps (Turn es) = es @ [Sys PendingFunctors]"
| "turn_steps (Call e) = [e]"

lemma loop_step_runs: "loop_step d ev = run_steps daemon_step d (turn_steps ev)"
proof -
  have "rbind x Inr = x" for x :: "daemon result" by (cases x) simp_all
  then show ?thesis by (cases ev) (simp_all add: run_steps_append)
qed

lemma loop_run: "run_steps loop_step d es = run_steps daemon_step d (concat (map turn_steps es))"
  by (induction es arbitrary: d) (simp_all add: loop_step_runs run_steps_append)

lemma turn_admissible: "daemon_inv d \<Longrightarrow> loop_ok d ev \<Longrightarrow> admissible daemon_step daemon_ok d (turn_steps ev)"
  using channels_admissible [of d] by (cases ev) (auto simp: admissible_append split: sum.split)

lemma loop_admissible:
  "daemon_inv d \<Longrightarrow> admissible loop_step loop_ok d es \<Longrightarrow> admissible daemon_step daemon_ok d (concat (map turn_steps es))"
proof (induction es arbitrary: d)
  case (Cons ev es)
  note a = turn_admissible [OF Cons.prems(1), of ev]
  obtain t where t: "run_steps daemon_step d (turn_steps ev) = Inr t" "daemon_inv t"
    using daemon.run_inv [OF Cons.prems(1) a] Cons.prems(2) by auto
  with Cons.IH [OF t(2)] Cons.prems(2) a show ?case by (simp add: admissible_append loop_step_runs)
qed simp

section \<open>The properties of the loop\<close>

text \<open>
  C8: The event loop keeps what the handlers need: what the poller reported before the first channel was handled may still happen when each
  later channel's turn comes. So a run of turns, with calls of other threads between them, that is admissible under \<open>loop_ok\<close>, where
  each turn's events are checked only in the state its polling found, does not fault and is a run of the single events, one after the
  other, admissible under \<open>daemon_ok\<close>, to which every statement about those applies. Both exclude messages that fault by themselves, packet
  tasks that have outlived their object, and errors of \<open>accept\<close> the code does not expect, on which it aborts.
\<close>

theorem event_loop_refines_events:
  assumes "server_inv r" "rtspConnMap r = Map.empty" "length addr \<le> 40"
    and "TcpServer_new sockfd spare bound name addr r = Inr d" "admissible loop_step loop_ok d es"
  shows "\<exists>d'. run_steps loop_step d es = Inr d' \<and> run_steps daemon_step d (concat (map turn_steps es)) = Inr d' \<and>
    admissible daemon_step daemon_ok d (concat (map turn_steps es))"
proof -
  note inv = TcpServer_new_inv(1) [OF assms(1-4)]
  note a = loop_admissible [OF inv assms(5)]
  from daemon.run_inv [OF inv a] a show ?thesis by (auto simp: loop_run)
qed

definition end_reported :: "revents \<Rightarrow> read_answer \<Rightarrow> bool" where
  "end_reported ev r \<longleftrightarrow> ev_hup ev \<and> \<not> ev_in ev \<or> (ev_in ev \<or> ev_pri ev) \<and> r = Got []"

lemma end_unlinks:
  assumes "timed_inv s" "sys_ok s (ChannelEvent name ev now e r ans wans)" "end_reported ev r"
    and "sys_step s (ChannelEvent name ev now e r ans wans) = Inr t"
  shows "unlinked name t"
proof -
  note i = net_inv_parts [OF sys_inv_at_parts(1) [OF assms(1) [unfolded timed_inv_def sys_inv_def, THEN conjunct1]]]
  obtain c where c: "tcp_conns (sys_net s) name = Some c" using assms(2) by (auto split: option.splits)
  with inv_keyed [OF assms(1)] have nm: "conn_name c = name" by (simp add: keyed_def)
  have pri: "ev_hup ev \<Longrightarrow> \<not> ev_in ev \<Longrightarrow> \<not> ev_pri ev" using assms(2) c by auto
  obtain s1 s2 where s1: "(if ev_hup ev \<and> \<not> ev_in ev then with_conn name close_conn s else Inr s) = Inr s1"
    and s2: "(if ev_in ev \<or> ev_pri ev then with_conn name (handleRead now e r ans) s1 else Inr s1) = Inr s2"
    and t: "(if ev_out ev then with_conn name (write_channel name wans) s2 else Inr s2) = Inr t"
    using assms(4) unfolding sys_step.simps handleEventWithGuard_def rbind_eq_Inr by blast
  have "close_conn c s = Inr s2"
  proof (cases "ev_hup ev \<and> \<not> ev_in ev")
    case True
    with s1 s2 pri c show ?thesis by (simp add: with_conn_def)
  next
    case False
    have "s1 = s" using s1 unfolding if_not_P [OF False] by simp
    with s2 c False assms(3) show ?thesis by (auto simp: with_conn_def handleRead_def end_reported_def)
  qed
  then have "name \<notin> connections (sys_net s2)"
    using nm by (auto simp: close_conn_def removeConnection_def handleClose_def disableAll_def c_assert_def rbind_eq_Inr split: if_splits)
  then have "name \<notin> connections (sys_net t)"
    using t by (auto simp: with_conn_def write_channel_eq_Inr give_def split: if_splits option.splits)
  moreover have "phase_of (sys_net t) name \<noteq> Unborn"
    using i(6) [of name] c phase_keeps(1) [OF assms(1,2,4)] by (auto simp: phase_of_def)
  ultimately show ?thesis by (simp add: unlinked_def gone_iff)
qed

lemma daemon_stable:
  assumes "stable sys_step sys_ok timed_inv P"
  shows "stable daemon_step daemon_ok daemon_inv (\<lambda>d. P (dm_system d))"
  unfolding stable_def
proof (intro allI impI)
  fix d ev d'
  assume a: "daemon_inv d" "daemon_ok d ev" "daemon_step d ev = Inr d'" "P (dm_system d)"
  have st: "timed_inv (dm_system d)" using a(1) by (simp add: daemon_inv_def)
  have "dm_system d' = dm_system d \<or> (\<exists>e. sys_ok (dm_system d) e \<and> sys_step (dm_system d) e = Inr (dm_system d'))"
  proof (cases ev)
    case (Start b)
    with a(3) show ?thesis by (auto simp: TcpServer_start_def c_assert_eq_Inr rbind_eq_Inr split: if_splits)
  next
    case (Sys e)
    with a(2,3) show ?thesis by (auto simp: rbind_eq_Inr)
  next
    case (Readable a again reopened memory m)
    then obtain calls conn acc where h: "Acceptor_handleRead a again reopened (dm_acceptor d) = Inr (calls, conn, acc)"
      "(case conn of None \<Rightarrow> Inr (d\<lparr>dm_acceptor := acc, dm_calls := dm_calls d @ calls\<rparr>)
        | Some fd \<Rightarrow> c_assert (poolStarted d) (rbind (newConnection fd memory m (dm_system d)) (\<lambda>s.
            Inr (d\<lparr>dm_acceptor := acc, dm_calls := dm_calls d @ calls, dm_system := s\<rparr>)))) = Inr d'"
      using a(3) by (auto simp: rbind_eq_Inr)
    show ?thesis
    proof (cases conn)
      case None
      with h(2) show ?thesis by auto
    next
      case (Some fd)
      then have "sys_ok (dm_system d) (Accept fd memory m)"
        using h(1) a(2) Readable
        by (auto simp: Acceptor_handleRead_def sockets_accept_def rbind_eq_Inr split: accept_answer.splits if_splits)
      moreover have "sys_step (dm_system d) (Accept fd memory m) = Inr (dm_system d')"
        using h(2) Some by (auto simp: c_assert_eq_Inr rbind_eq_Inr)
      ultimately show ?thesis by blast
    qed
  qed
  with assms st a(4) show "P (dm_system d')" unfolding stable_def by metis
qed

lemma end_turns:
  assumes "end_reported ev r"
  shows "turns daemon_step daemon_ok daemon_inv (Sys (ChannelEvent name ev now e r ans wans)) (\<lambda>d. True) (\<lambda>d. unlinked name (dm_system d))"
  using end_unlinks [OF _ _ assms] by (auto simp: turns_def daemon_inv_def rbind_eq_Inr simp del: sys_step.simps sys_ok.simps)

lemma pending_turns:
  "turns daemon_step daemon_ok daemon_inv (Sys PendingFunctors) (\<lambda>d. unlinked name (dm_system d)) (\<lambda>d. released name (dm_system d))"
  using pending_releases by (auto simp: turns_def daemon_inv_def rbind_eq_Inr simp del: sys_step.simps)

lemma released_gone:
  assumes "timed_inv s" "released name s"
  shows "tcp_conns (sys_net s) name = None \<and> rtspConnMap (sys_rtsp s) name = None"
proof -
  have i: "net_inv [] {} (sys_net s)" "dom (rtspConnMap (sys_rtsp s)) = connections (sys_net s)"
    using assms(1) by (simp_all add: timed_inv_def sys_inv_def sys_inv_at_def)
  have "name \<notin> connections (sys_net s)" "name \<notin> functor_conn ` set (pendingFunctors (sys_net s))"
    using assms(2) by (simp_all add: released_def gone_iff)
  with i show ?thesis unfolding net_inv_def by auto
qed

text \<open>
  C9: A connection whose end the poller reports (a hang-up, or a read that finds the end of the stream) is gone when that turn of the loop is
  over, whatever else happens in the turn and before and after it: its object is destroyed, the server has forgotten it, and it stays
  so.
\<close>

theorem ended_connection_gone:
  assumes "server_inv r0" "rtspConnMap r0 = Map.empty" "length addr \<le> 40"
    and "TcpServer_new sockfd spare bound srv addr r0 = Inr d" "admissible loop_step loop_ok d (es @ Turn evs # fs)"
    and "Sys (ChannelEvent name ev now e r ans wans) \<in> set evs" "end_reported ev r"
  shows "\<exists>d'. run_steps loop_step d (es @ Turn evs # fs) = Inr d' \<and>
    tcp_conns (sys_net (dm_system d')) name = None \<and> rtspConnMap (sys_rtsp (dm_system d')) name = None"
proof -
  note inv = TcpServer_new_inv(1) [OF assms(1-4)]
  let ?e = "Sys (ChannelEvent name ev now e r ans wans)" let ?rest = "concat (map turn_steps fs)"
  obtain pre post where evs: "evs = pre @ ?e # post" using assms(6) by (meson split_list)
  let ?es = "concat (map turn_steps es) @ pre"
  have flat: "concat (map turn_steps (es @ Turn evs # fs)) = ?es @ ?e # (post @ Sys PendingFunctors # ?rest)"
    by (simp add: evs)
  have adm: "admissible daemon_step daemon_ok d (?es @ ?e # (post @ Sys PendingFunctors # ?rest))"
    using loop_admissible [OF inv assms(5)] by (simp only: flat)
  have "stable daemon_step daemon_ok daemon_inv (\<lambda>d. True)" by (simp add: stable_def)
  from daemon.run_leads [OF this end_turns [OF assms(7)] inv adm TrueI] obtain d1 where
    d1: "run_steps daemon_step d (?es @ [?e]) = Inr d1" "daemon_inv d1" "unlinked name (dm_system d1)"
      "admissible daemon_step daemon_ok d1 (post @ Sys PendingFunctors # ?rest)" by blast
  from daemon.run_leads [OF daemon_stable [OF unlinked_stable] pending_turns d1(2,4,3)] obtain d2 where
    d2: "run_steps daemon_step d1 (post @ [Sys PendingFunctors]) = Inr d2" "daemon_inv d2" "released name (dm_system d2)"
      "admissible daemon_step daemon_ok d2 ?rest" by blast
  from daemon.run_stable [OF daemon_stable [OF released_stable] d2(2,4,3)] obtain d3 where
    d3: "run_steps daemon_step d2 ?rest = Inr d3" "daemon_inv d3" "released name (dm_system d3)" by blast
  have "run_steps loop_step d (es @ Turn evs # fs) = run_steps daemon_step d ((?es @ [?e]) @ (post @ [Sys PendingFunctors]) @ ?rest)"
    unfolding loop_run flat by simp
  also have "\<dots> = Inr d3"
    unfolding run_steps_append [of _ _ "?es @ [?e]"] d1(1) rbind_simps run_steps_append [of _ _ "post @ [Sys PendingFunctors]"] d2(1)
    by (rule d3(1))
  finally show ?thesis using released_gone [of "dm_system d3" name] d3(2,3) by (simp add: daemon_inv_def)
qed

section \<open>The hypotheses can hold\<close>

definition sample_calls :: "loop_event list" where
  "sample_calls = [Call (Start True), Turn [Readable (Client 9) (- 1) (- 1) (RtspRequest_init METHOD_NONE channel_0 RTP_OVER_TCP) C_NONE]]"

definition sample_hangup :: daemon_event where
  "sample_hangup = Sys (ChannelEvent ''RtspServer-0.0.0.0:554#1'' \<lparr>ev_hup = True, ev_in = False, ev_pri = False, ev_out = False\<rparr> 0 sample_env
     ReadError (\<lambda>_. Accepted 0) WouldBlock)"

lemma no_functors: "pendingFunctors (sys_net s) = [] \<Longrightarrow> doPendingFunctors s = Inr s"
  by (simp add: doPendingFunctors_def)

lemma sample_loop:
  "\<exists>d. TcpServer_new 3 4 True ''RtspServer'' ''0.0.0.0:554'' (snd (main_server 0)) = Inr d \<and>
     admissible loop_step loop_ok d (sample_calls @ [Turn [Sys (TimersDue 0), sample_hangup]])"
proof -
  let ?s = "\<lparr>sys_net = sample_net, sys_rtsp = opened_server\<rparr>"
  obtain d where d: "TcpServer_new 3 4 True ''RtspServer'' ''0.0.0.0:554'' (snd (main_server 0)) = Inr d"
    "newConnectionCallback (dm_acceptor d)" "\<not> started d" "\<not> poolStarted d" "\<not> listenning (dm_acceptor d)"
    "dm_system d = sample_start"
    by (simp add: TcpServer_new_def Acceptor_new_def setNewConnectionCallback_def sample_start_def)
  have s: "newConnection 9 (RtspRequest_init METHOD_NONE channel_0 RTP_OVER_TCP) C_NONE sample_start = Inr ?s"
    "nextConnId (sys_net sample_start) = 1" "doPendingFunctors ?s = Inr ?s"
    using sample_accepted no_functors [of ?s]
    by (simp_all add: sample_accept_def sample_start_def system_init_def net_init_def sample_net_def)
  obtain dst where dst: "destroyed_fds sample_net sample_net = dst" by blast
  have "admissible loop_step loop_ok d (sample_calls @ [Turn [Sys (TimersDue 0), sample_hangup]])"
    using d s sample_hangup_ok unfolding sample_calls_def sample_hangup_def
    by (simp add: TcpServer_start_def Acceptor_listen_def Acceptor_handleRead_def sockets_accept_def dst
        del: sys_ok.simps(2) split: sum.split)
  with d(1) show ?thesis by blast
qed

theorem event_loop_refines_events_witness:
  "\<exists>d d'. TcpServer_new 3 4 True ''RtspServer'' ''0.0.0.0:554'' (snd (main_server 0)) = Inr d \<and>
    run_steps loop_step d (sample_calls @ [Turn [Sys (TimersDue 0), sample_hangup]]) = Inr d'"
proof -
  obtain d where d: "TcpServer_new 3 4 True ''RtspServer'' ''0.0.0.0:554'' (snd (main_server 0)) = Inr d"
    "admissible loop_step loop_ok d (sample_calls @ [Turn [Sys (TimersDue 0), sample_hangup]])"
    using sample_loop by blast
  from event_loop_refines_events [OF server_inv_main main_server_empty sample_addr d] d(1) show ?thesis by blast
qed

theorem ended_connection_gone_witness:
  "\<exists>d d'. TcpServer_new 3 4 True ''RtspServer'' ''0.0.0.0:554'' (snd (main_server 0)) = Inr d \<and>
    run_steps loop_step d (sample_calls @ [Turn [Sys (TimersDue 0), sample_hangup]]) = Inr d' \<and>
    tcp_conns (sys_net (dm_system d')) ''RtspServer-0.0.0.0:554#1'' = None"
proof -
  obtain d where d: "TcpServer_new 3 4 True ''RtspServer'' ''0.0.0.0:554'' (snd (main_server 0)) = Inr d"
    "admissible loop_step loop_ok d (sample_calls @ [Turn [Sys (TimersDue 0), sample_hangup]])"
    using sample_loop by blast
  have "end_reported \<lparr>ev_hup = True, ev_in = False, ev_pri = False, ev_out = False\<rparr> ReadError" by (simp add: end_reported_def)
  moreover have "sample_hangup \<in> set [Sys (TimersDue 0), sample_hangup]" by simp
  ultimately show ?thesis
    using ended_connection_gone [OF server_inv_main main_server_empty sample_addr d] d(1) unfolding sample_hangup_def by blast
qed

end
