(* ===== verification/Timer_Queue.thy ===== *)
theory Timer_Queue
  imports Prelude
begin

text \<open>
  The timers of the network library: \<open>src/3rdparty/muduo/net/TimerQueue.cc\<close>, \<open>Timer.h\<close>, \<open>Timer.cc\<close>. A \<open>Timer*\<close> is an address, \<open>timer_objs\<close> the objects
  that are allocated: reading a deleted one is the fault \<open>NullDeref\<close>. Times and intervals are whole microseconds. All calls come from the
  loop's thread, so \<open>runInLoop\<close> calls at once. A callback may add and cancel timers; so \<open>handleRead\<close> is three kinds
  of step, its beginning, the call of the next expired timer and its end, with \<open>addTimer\<close> and \<open>cancel\<close> in between.
\<close>

section \<open>State\<close>

record Timer =
  timer_callback :: nat
  expiration :: int
  timer_interval :: int
  timer_sequence :: nat

definition timer_repeat :: "Timer \<Rightarrow> bool" where
  "timer_repeat t \<longleftrightarrow> 0 < timer_interval t"

text \<open>\<open>Timestamp::invalid\<close> is the time 0.\<close>

definition timer_restart :: "int \<Rightarrow> Timer \<Rightarrow> Timer" where
  "timer_restart now t = t\<lparr>expiration := (if timer_repeat t then now + timer_interval t else 0)\<rparr>"

type_synonym timer_entry = "int \<times> nat"
type_synonym timer_id = "nat \<times> nat"

text \<open>
  \<open>firing\<close>, \<open>to_run\<close> and \<open>fire_time\<close> are the local variables of \<open>handleRead\<close>: the expired timers, those still to be called, and its time.
  \<open>timerfd_armed\<close> is the expiration \<open>resetTimerfd\<close> was last called with, until the descriptor has fired: it hands the kernel
  \<open>howMuchTimeFromNow\<close> of it, by which the descriptor fires at that time, but not within the next 100 microseconds.
\<close>

definition howMuchTimeFromNow :: "int \<Rightarrow> int \<Rightarrow> int \<times> int" where
  "howMuchTimeFromNow when now =
     (let microseconds = when - now;
          microseconds = (if microseconds < 100 then 100 else microseconds)
      in (microseconds div 1000000, microseconds mod 1000000 * 1000))"

lemma howMuchTimeFromNow_fires:
  "case howMuchTimeFromNow when now of (sec, nsec) \<Rightarrow>
     now + sec * 1000000 + nsec div 1000 = max when (now + 100) \<and> 0 \<le> sec \<and> 0 \<le> nsec \<and> nsec < 1000000000"
proof -
  define us where "us = max (when - now) 100"
  have h: "howMuchTimeFromNow when now = (us div 1000000, us mod 1000000 * 1000)"
    by (simp add: howMuchTimeFromNow_def us_def max_def Let_def)
  have "0 \<le> us" "now + us = max when (now + 100)" by (simp_all add: us_def max_def)
  moreover have "us div 1000000 * 1000000 + us mod 1000000 = us" by simp
  moreover have "us mod 1000000 < 1000000" "0 \<le> us mod 1000000" by simp_all
  ultimately show ?thesis unfolding h by (simp add: pos_imp_zdiv_nonneg_iff)
qed

record TimerQueue =
  tq_timers :: "timer_entry list"
  activeTimers :: "timer_id list"
  callingExpiredTimers :: bool
  cancelingTimers :: "timer_id list"
  timer_objs :: "nat \<rightharpoonup> Timer"
  numCreated :: nat
  timerfd_armed :: "int option"
  firing :: "timer_entry list"
  to_run :: "timer_entry list"
  fire_time :: int

definition TimerQueue_new :: TimerQueue where
  "TimerQueue_new =
     \<lparr>tq_timers = [], activeTimers = [], callingExpiredTimers = False, cancelingTimers = [], timer_objs = Map.empty, numCreated = 0,
      timerfd_armed = None, firing = [], to_run = [], fire_time = 0\<rparr>"

definition the_timer :: "nat \<Rightarrow> TimerQueue \<Rightarrow> Timer result" where
  "the_timer p q = (case timer_objs q p of None \<Rightarrow> Inl NullDeref | Some t \<Rightarrow> Inr t)"

text \<open>The order of \<open>std::pair\<close>, and \<open>std::set::insert\<close> of an element that is not there.\<close>

fun entry_less :: "timer_entry \<Rightarrow> timer_entry \<Rightarrow> bool" where
  "entry_less (t, p) (t', p') \<longleftrightarrow> t < t' \<or> t = t' \<and> p < p'"

definition insert_entry :: "timer_entry \<Rightarrow> timer_entry list \<Rightarrow> timer_entry list" where
  "insert_entry e es = takeWhile (\<lambda>x. entry_less x e) es @ e # dropWhile (\<lambda>x. entry_less x e) es"

definition same_size :: "TimerQueue \<Rightarrow> bool" where
  "same_size q \<longleftrightarrow> length (tq_timers q) = length (activeTimers q)"

section \<open>Operations\<close>

definition tq_insert :: "nat \<Rightarrow> TimerQueue \<Rightarrow> (bool \<times> TimerQueue) result" where
  "tq_insert p q =
     c_assert (same_size q) (rbind (the_timer p q) (\<lambda>t.
       let when = expiration t; earliestChanged = (tq_timers q = [] \<or> when < fst (hd (tq_timers q))) in
       c_assert ((when, p) \<notin> set (tq_timers q)) (c_assert ((p, timer_sequence t) \<notin> set (activeTimers q))
         (let q' = q\<lparr>tq_timers := insert_entry (when, p) (tq_timers q), activeTimers := (p, timer_sequence t) # activeTimers q\<rparr>
          in c_assert (same_size q') (Inr (earliestChanged, q'))))))"

definition tq_addTimerInLoop :: "nat \<Rightarrow> TimerQueue \<Rightarrow> TimerQueue result" where
  "tq_addTimerInLoop p q =
     rbind (tq_insert p q) (\<lambda>(earliestChanged, q1).
       if earliestChanged then rbind (the_timer p q1) (\<lambda>t. Inr (q1\<lparr>timerfd_armed := Some (expiration t)\<rparr>)) else Inr q1)"

text \<open>\<open>p\<close> is the address \<open>new\<close> returns.\<close>

definition tq_addTimer :: "nat \<Rightarrow> int \<Rightarrow> int \<Rightarrow> nat \<Rightarrow> TimerQueue \<Rightarrow> (timer_id \<times> TimerQueue) result" where
  "tq_addTimer cb when interval p q =
     (let t = \<lparr>timer_callback = cb, expiration = when, timer_interval = interval, timer_sequence = numCreated q + 1\<rparr>
      in rbind (tq_addTimerInLoop p (q\<lparr>timer_objs := (timer_objs q)(p \<mapsto> t), numCreated := numCreated q + 1\<rparr>)) (\<lambda>q1.
           rbind (the_timer p q1) (\<lambda>t. Inr ((p, timer_sequence t), q1))))"

definition tq_cancelInLoop :: "timer_id \<Rightarrow> TimerQueue \<Rightarrow> TimerQueue result" where
  "tq_cancelInLoop i q =
     c_assert (same_size q)
       (if i \<in> set (activeTimers q)
        then rbind (the_timer (fst i) q) (\<lambda>t.
          c_assert ((expiration t, fst i) \<in> set (tq_timers q))
            (let q' = q\<lparr>tq_timers := remove1 (expiration t, fst i) (tq_timers q), timer_objs := (timer_objs q)(fst i := None),
                        activeTimers := remove1 i (activeTimers q)\<rparr>
             in c_assert (same_size q') (Inr q')))
        else Inr (if callingExpiredTimers q then q\<lparr>cancelingTimers := List.insert i (cancelingTimers q)\<rparr> else q))"

fun erase_active :: "timer_entry list \<Rightarrow> TimerQueue \<Rightarrow> TimerQueue result" where
  "erase_active [] q = Inr q"
| "erase_active ((w, p) # es) q =
     rbind (the_timer p q) (\<lambda>t.
       c_assert ((p, timer_sequence t) \<in> set (activeTimers q))
         (erase_active es (q\<lparr>activeTimers := remove1 (p, timer_sequence t) (activeTimers q)\<rparr>)))"

text \<open>\<open>lower_bound\<close> of the sentry, whose pointer is the greatest there is, is the first entry later than \<open>now\<close>.\<close>

definition tq_getExpired :: "int \<Rightarrow> TimerQueue \<Rightarrow> (timer_entry list \<times> TimerQueue) result" where
  "tq_getExpired now q =
     c_assert (same_size q)
       (let expired = takeWhile (\<lambda>e. fst e \<le> now) (tq_timers q); rest = dropWhile (\<lambda>e. fst e \<le> now) (tq_timers q)
        in c_assert (rest = [] \<or> now < fst (hd rest))
             (rbind (erase_active expired (q\<lparr>tq_timers := rest\<rparr>)) (\<lambda>q1. c_assert (same_size q1) (Inr (expired, q1)))))"

fun reset_each :: "int \<Rightarrow> timer_entry list \<Rightarrow> TimerQueue \<Rightarrow> TimerQueue result" where
  "reset_each now [] q = Inr q"
| "reset_each now ((w, p) # es) q =
     rbind (the_timer p q) (\<lambda>t.
       if timer_repeat t \<and> (p, timer_sequence t) \<notin> set (cancelingTimers q)
       then rbind (tq_insert p (q\<lparr>timer_objs := (timer_objs q)(p \<mapsto> timer_restart now t)\<rparr>)) (\<lambda>(_, q1). reset_each now es q1)
       else reset_each now es (q\<lparr>timer_objs := (timer_objs q)(p := None)\<rparr>))"

definition tq_reset :: "timer_entry list \<Rightarrow> int \<Rightarrow> TimerQueue \<Rightarrow> TimerQueue result" where
  "tq_reset expired now q =
     rbind (reset_each now expired q) (\<lambda>q1.
       if tq_timers q1 = [] then Inr q1
       else rbind (the_timer (snd (hd (tq_timers q1))) q1) (\<lambda>t.
              Inr (if 0 < expiration t then q1\<lparr>timerfd_armed := Some (expiration t)\<rparr> else q1)))"

text \<open>\<open>handleRead\<close>: up to the loop of calls, one call, and the rest.\<close>

definition tq_fire :: "int \<Rightarrow> TimerQueue \<Rightarrow> TimerQueue result" where
  "tq_fire now q =
     rbind (tq_getExpired now (q\<lparr>timerfd_armed := None\<rparr>)) (\<lambda>(expired, q1).
       Inr (q1\<lparr>callingExpiredTimers := True, cancelingTimers := [], firing := expired, to_run := expired, fire_time := now\<rparr>))"

definition tq_call :: "TimerQueue \<Rightarrow> (Timer option \<times> TimerQueue) result" where
  "tq_call q =
     (case to_run q of
        [] \<Rightarrow> Inr (None, q)
      | (w, p) # es \<Rightarrow> rbind (the_timer p q) (\<lambda>t. Inr (Some t, q\<lparr>to_run := es\<rparr>)))"

definition tq_done :: "TimerQueue \<Rightarrow> TimerQueue result" where
  "tq_done q =
     rbind (tq_reset (firing q) (fire_time q) (q\<lparr>callingExpiredTimers := False\<rparr>)) (\<lambda>q1. Inr (q1\<lparr>firing := [], to_run := []\<rparr>))"

definition TimerQueue_destroy :: "TimerQueue \<Rightarrow> TimerQueue" where
  "TimerQueue_destroy q = q\<lparr>timer_objs := fold (\<lambda>e objs. objs(snd e := None)) (tq_timers q) (timer_objs q)\<rparr>"

datatype timer_event = TAdd nat int int nat | TCancel timer_id | TFire int | TCall | TDone

fun tq_step :: "TimerQueue \<Rightarrow> timer_event \<Rightarrow> TimerQueue result" where
  "tq_step q (TAdd cb when interval p) = rbind (tq_addTimer cb when interval p q) (\<lambda>(i, q1). Inr q1)"
| "tq_step q (TCancel i) = tq_cancelInLoop i q"
| "tq_step q (TFire now) = tq_fire now q"
| "tq_step q TCall = rbind (tq_call q) (\<lambda>(t, q1). Inr q1)"
| "tq_step q TDone = tq_done q"

text \<open>\<open>new\<close> returns an address that is not in use, times are later than the epoch, and the steps of \<open>handleRead\<close> come in their order.\<close>

fun tq_ok :: "TimerQueue \<Rightarrow> timer_event \<Rightarrow> bool" where
  "tq_ok q (TAdd cb when interval p) = (timer_objs q p = None \<and> 0 < when)"
| "tq_ok q (TCancel i) = True"
| "tq_ok q (TFire now) = (\<not> callingExpiredTimers q \<and> 0 < now)"
| "tq_ok q TCall = (callingExpiredTimers q \<and> to_run q \<noteq> [])"
| "tq_ok q TDone = (callingExpiredTimers q \<and> to_run q = [])"

section \<open>The invariant\<close>

definition seq_at :: "TimerQueue \<Rightarrow> nat \<Rightarrow> nat" where
  "seq_at q p = (case timer_objs q p of None \<Rightarrow> 0 | Some t \<Rightarrow> timer_sequence t)"

text \<open>Apart from the timers in the set, the ones in \<open>fs\<close> are allocated.\<close>

definition tq_core :: "timer_entry list \<Rightarrow> TimerQueue \<Rightarrow> bool" where
  "tq_core fs q \<longleftrightarrow>
     sorted_wrt entry_less (tq_timers q) \<and> distinct (map snd (tq_timers q @ fs)) \<and>
     dom (timer_objs q) = snd ` set (tq_timers q @ fs) \<and>
     (\<forall>(w, p) \<in> set (tq_timers q). 0 < w \<and> (\<forall>t. timer_objs q p = Some t \<longrightarrow> expiration t = w)) \<and>
     distinct (activeTimers q) \<and> set (activeTimers q) = (\<lambda>e. (snd e, seq_at q (snd e))) ` set (tq_timers q) \<and>
     (\<forall>p \<in> dom (timer_objs q). seq_at q p \<le> numCreated q) \<and> inj_on (seq_at q) (dom (timer_objs q))"

definition tq_inv :: "TimerQueue \<Rightarrow> bool" where
  "tq_inv q \<longleftrightarrow> tq_core (firing q) q \<and> set (to_run q) \<subseteq> set (firing q) \<and>
     (if callingExpiredTimers q then 0 < fire_time q
      else firing q = [] \<and> (tq_timers q \<noteq> [] \<longrightarrow> (\<exists>a. timerfd_armed q = Some a \<and> a \<le> fst (hd (tq_timers q)))))"

lemma core_parts:
  assumes "tq_core fs q"
  shows "sorted_wrt entry_less (tq_timers q)" "distinct (map snd (tq_timers q))" "distinct (map snd fs)"
    "snd ` set (tq_timers q) \<inter> snd ` set fs = {}" "dom (timer_objs q) = snd ` set (tq_timers q) \<union> snd ` set fs"
    "(w, p) \<in> set (tq_timers q) \<Longrightarrow> 0 < w \<and> (\<exists>t. timer_objs q p = Some t \<and> expiration t = w)"
    "distinct (activeTimers q)" "set (activeTimers q) = (\<lambda>e. (snd e, seq_at q (snd e))) ` set (tq_timers q)"
    "timer_objs q p = Some t \<Longrightarrow> timer_sequence t \<le> numCreated q"
    "timer_objs q p = Some t \<Longrightarrow> timer_objs q p' = Some t' \<Longrightarrow> timer_sequence t = timer_sequence t' \<Longrightarrow> p = p'"
proof -
  note c = assms [unfolded tq_core_def]
  show "sorted_wrt entry_less (tq_timers q)" "distinct (map snd (tq_timers q))" "distinct (map snd fs)"
    "snd ` set (tq_timers q) \<inter> snd ` set fs = {}" "distinct (activeTimers q)"
    "set (activeTimers q) = (\<lambda>e. (snd e, seq_at q (snd e))) ` set (tq_timers q)"
    using c by simp_all
  show d: "dom (timer_objs q) = snd ` set (tq_timers q) \<union> snd ` set fs" using c by (simp add: image_Un)
  show "0 < w \<and> (\<exists>t. timer_objs q p = Some t \<and> expiration t = w)" if "(w, p) \<in> set (tq_timers q)"
  proof -
    have "snd (w, p) \<in> snd ` set (tq_timers q)" by (rule imageI [OF that])
    then have "p \<in> dom (timer_objs q)" using d by simp
    then obtain t where "timer_objs q p = Some t" by blast
    moreover have "\<forall>(w, p) \<in> set (tq_timers q). 0 < w \<and> (\<forall>t. timer_objs q p = Some t \<longrightarrow> expiration t = w)" using c by simp
    ultimately show ?thesis using that by blast
  qed
  have s: "\<forall>p \<in> dom (timer_objs q). seq_at q p \<le> numCreated q" "inj_on (seq_at q) (dom (timer_objs q))" using c by blast+
  show "timer_sequence t \<le> numCreated q" if "timer_objs q p = Some t"
    using bspec [OF s(1), of p] that by (simp add: seq_at_def domI)
  show "p = p'" if "timer_objs q p = Some t" "timer_objs q p' = Some t'" "timer_sequence t = timer_sequence t'"
    using inj_onD [OF s(2), of p p'] that by (simp add: seq_at_def domI)
qed

lemma core_seqs:
  "tq_core fs q \<Longrightarrow> \<forall>p \<in> dom (timer_objs q). seq_at q p \<le> numCreated q"
  "tq_core fs q \<Longrightarrow> inj_on (seq_at q) (dom (timer_objs q))"
  unfolding tq_core_def by blast+

lemma core_entries:
  "tq_core fs q \<Longrightarrow> \<forall>(w, p) \<in> set (tq_timers q). 0 < w \<and> (\<forall>t. timer_objs q p = Some t \<longrightarrow> expiration t = w)"
  unfolding tq_core_def by blast

lemma core_size: "tq_core fs q \<Longrightarrow> same_size q"
proof -
  assume c: "tq_core fs q"
  have "inj_on (\<lambda>e. (snd e, seq_at q (snd e))) (set (tq_timers q))"
    using core_parts(2) [OF c] by (auto simp: inj_on_def distinct_map)
  then have "card (set (activeTimers q)) = card (set (tq_timers q))"
    using core_parts(8) [OF c] by (simp add: card_image)
  then show ?thesis
    using core_parts(2,7) [OF c] by (simp add: same_size_def distinct_card distinct_map)
qed

section \<open>The ordered set\<close>

lemma insert_entry_simps [simp]:
  "insert_entry e [] = [e]" "insert_entry e (x # xs) = (if entry_less x e then x # insert_entry e xs else e # x # xs)"
  by (simp_all add: insert_entry_def)

lemma set_insert_entry [simp]: "set (insert_entry e es) = insert e (set es)"
  by (induction es) auto

lemma distinct_insert_entry [simp]: "distinct (map f (insert_entry e es)) \<longleftrightarrow> f e \<notin> f ` set es \<and> distinct (map f es)"
  by (induction es) auto

lemma length_insert_entry [simp]: "length (insert_entry e es) = Suc (length es)"
  by (induction es) auto

lemma entry_less_trans: "entry_less x y \<Longrightarrow> entry_less y z \<Longrightarrow> entry_less x z"
  by (cases x; cases y; cases z) auto

lemma entry_less_total: "\<not> entry_less x y \<Longrightarrow> x \<noteq> y \<Longrightarrow> entry_less y x"
  by (cases x; cases y) auto

lemma sorted_insert_entry: "sorted_wrt entry_less es \<Longrightarrow> e \<notin> set es \<Longrightarrow> sorted_wrt entry_less (insert_entry e es)"
proof (induction es)
  case (Cons x xs)
  show ?case
  proof (cases "entry_less x e")
    case True
    with Cons show ?thesis by simp
  next
    case False
    then have "entry_less e x" using Cons.prems(2) entry_less_total [of x e] by auto
    with False Cons.prems(1) entry_less_trans [of e x] show ?thesis by simp
  qed
qed simp

lemma hd_insert_entry: "fst (hd (insert_entry e es)) = (if es = [] \<or> \<not> entry_less (hd es) e then fst e else fst (hd es))"
  by (cases es) auto

lemma entry_sorted_fst: "sorted_wrt entry_less es \<Longrightarrow> e \<in> set es \<Longrightarrow> fst (hd es) \<le> fst e"
proof (cases es)
  case (Cons x xs)
  assume "sorted_wrt entry_less es" "e \<in> set es"
  then have "e = x \<or> entry_less x e" using Cons by auto
  then show ?thesis using Cons by (cases e; cases x) auto
qed simp

section \<open>Every step keeps it\<close>

lemma seq_at_upd [simp]:
  "seq_at (q\<lparr>tq_timers := a\<rparr>) = seq_at q" "seq_at (q\<lparr>activeTimers := b\<rparr>) = seq_at q" "seq_at (q\<lparr>timerfd_armed := c\<rparr>) = seq_at q"
  "seq_at (q\<lparr>callingExpiredTimers := u\<rparr>) = seq_at q" "seq_at (q\<lparr>cancelingTimers := v\<rparr>) = seq_at q" "seq_at (q\<lparr>firing := w\<rparr>) = seq_at q"
  "seq_at (q\<lparr>to_run := x\<rparr>) = seq_at q" "seq_at (q\<lparr>fire_time := y\<rparr>) = seq_at q"
  by (simp_all add: seq_at_def fun_eq_iff)

lemma tq_insert_ok:
  assumes "tq_core ((w, p) # fs) q" "timer_objs q p = Some t" "0 < expiration t"
  shows "\<exists>q1. tq_insert p q = Inr (tq_timers q = [] \<or> expiration t < fst (hd (tq_timers q)), q1) \<and> tq_core fs q1 \<and>
    q1 = q\<lparr>tq_timers := insert_entry (expiration t, p) (tq_timers q), activeTimers := (p, timer_sequence t) # activeTimers q\<rparr>"
proof -
  note c = core_parts [OF assms(1)]
  let ?e = "(expiration t, p)"
  let ?q = "q\<lparr>tq_timers := insert_entry ?e (tq_timers q), activeTimers := (p, timer_sequence t) # activeTimers q\<rparr>"
  have p: "p \<notin> snd ` set (tq_timers q)" using c(4) by auto
  then have e: "?e \<notin> set (tq_timers q)" by force
  have a: "(p, timer_sequence t) \<notin> set (activeTimers q)" using c(8) p by auto
  have seq: "seq_at q p = timer_sequence t" using assms(2) by (simp add: seq_at_def)
  have same: "timer_objs ?q = timer_objs q" "numCreated ?q = numCreated q" "seq_at ?q = seq_at q" by simp_all
  have "tq_core fs ?q"
    unfolding tq_core_def
  proof (intro conjI)
    show "sorted_wrt entry_less (tq_timers ?q)" using sorted_insert_entry [OF c(1) e] by simp
    show "distinct (map snd (tq_timers ?q @ fs))" using c(2,3,4) p by auto
    show "dom (timer_objs ?q) = snd ` set (tq_timers ?q @ fs)" using c(5) by auto
    show "\<forall>(w, p) \<in> set (tq_timers ?q). 0 < w \<and> (\<forall>t. timer_objs ?q p = Some t \<longrightarrow> expiration t = w)"
      using c(6) assms(2,3) by fastforce
    show "distinct (activeTimers ?q)" using c(7) a by simp
    show "set (activeTimers ?q) = (\<lambda>e. (snd e, seq_at ?q (snd e))) ` set (tq_timers ?q)" using c(8) seq by simp
    show "\<forall>p \<in> dom (timer_objs ?q). seq_at ?q p \<le> numCreated ?q" "inj_on (seq_at ?q) (dom (timer_objs ?q))"
      using core_seqs [OF assms(1)] unfolding same by blast+
  qed
  moreover have "tq_insert p q = Inr (tq_timers q = [] \<or> expiration t < fst (hd (tq_timers q)), ?q)"
    using core_size [OF assms(1)] e a assms(2) by (simp add: tq_insert_def the_timer_def same_size_def Let_def)
  ultimately show ?thesis by blast
qed

lemma core_alloc:
  assumes "tq_core fs q" "timer_objs q p = None" "timer_sequence t = numCreated q + 1"
  shows "tq_core ((w, p) # fs) (q\<lparr>timer_objs := (timer_objs q)(p \<mapsto> t), numCreated := numCreated q + 1\<rparr>)" (is "tq_core _ ?q")
proof -
  note c = core_parts [OF assms(1)]
  have p: "p \<notin> snd ` set (tq_timers q)" "p \<notin> snd ` set fs" using c(5) assms(2) by (auto simp: domIff)
  then have ne: "(v, x) \<in> set (tq_timers q) \<Longrightarrow> x \<noteq> p" for v x by force
  have seq: "seq_at ?q x = (if x = p then numCreated q + 1 else seq_at q x)" for x using assms(3) by (simp add: seq_at_def)
  have le: "seq_at q x \<le> numCreated q" for x using c(9) [of x] by (simp add: seq_at_def split: option.split)
  show ?thesis
    unfolding tq_core_def
  proof (intro conjI)
    show "sorted_wrt entry_less (tq_timers ?q)" using c(1) by simp
    show "distinct (map snd (tq_timers ?q @ (w, p) # fs))" using c(2,3,4) p by auto
    show "dom (timer_objs ?q) = snd ` set (tq_timers ?q @ (w, p) # fs)" using c(5) by auto
    show "\<forall>(w, p) \<in> set (tq_timers ?q). 0 < w \<and> (\<forall>t. timer_objs ?q p = Some t \<longrightarrow> expiration t = w)"
    proof -
      have "0 < v \<and> (\<forall>u. timer_objs ?q x = Some u \<longrightarrow> expiration u = v)" if m: "(v, x) \<in> set (tq_timers q)" for v x
        using c(6) [OF m] p(1) imageI [OF m, of snd] by auto
      then show ?thesis by auto
    qed
    show "distinct (activeTimers ?q)" using c(7) by simp
    show "set (activeTimers ?q) = (\<lambda>e. (snd e, seq_at ?q (snd e))) ` set (tq_timers ?q)"
      using c(8) seq ne by (auto intro!: image_cong)
    show "\<forall>p \<in> dom (timer_objs ?q). seq_at ?q p \<le> numCreated ?q" using seq le by (auto intro: le_SucI)
    note core_seqs(2) [OF assms(1)]
    then show "inj_on (seq_at ?q) (dom (timer_objs ?q))"
      using seq le assms(2) by (auto simp: inj_on_def) (metis Suc_n_not_le_n)+
  qed
qed

lemma core_free:
  assumes "tq_core ((w, p) # fs) q"
  shows "tq_core fs (q\<lparr>timer_objs := (timer_objs q)(p := None)\<rparr>)" (is "tq_core _ ?q")
proof -
  note c = core_parts [OF assms]
  have p: "p \<notin> snd ` set (tq_timers q)" "p \<notin> snd ` set fs" using c(3,4) by auto
  then have ne: "(v, x) \<in> set (tq_timers q) \<Longrightarrow> x \<noteq> p" for v x by force
  have seq: "x \<noteq> p \<Longrightarrow> seq_at ?q x = seq_at q x" for x by (simp add: seq_at_def)
  show ?thesis
    unfolding tq_core_def
  proof (intro conjI)
    show "sorted_wrt entry_less (tq_timers ?q)" using c(1) by simp
    show "distinct (map snd (tq_timers ?q @ fs))" using c(2,3,4) p by auto
    show "dom (timer_objs ?q) = snd ` set (tq_timers ?q @ fs)" using c(5) p by (auto simp: image_Un)
    show "\<forall>(w, p) \<in> set (tq_timers ?q). 0 < w \<and> (\<forall>t. timer_objs ?q p = Some t \<longrightarrow> expiration t = w)"
      using core_entries [OF assms] by auto
    show "distinct (activeTimers ?q)" using c(7) by simp
    show "set (activeTimers ?q) = (\<lambda>e. (snd e, seq_at ?q (snd e))) ` set (tq_timers ?q)"
      using c(8) seq ne by (auto intro!: image_cong)
    note s = core_seqs [OF assms]
    show "\<forall>p \<in> dom (timer_objs ?q). seq_at ?q p \<le> numCreated ?q" using s(1) seq by auto
    show "inj_on (seq_at ?q) (dom (timer_objs ?q))" using s(2) seq by (auto simp: inj_on_def)
  qed
qed

lemma core_restart:
  assumes "tq_core ((w, p) # fs) q" "timer_objs q p = Some t" "timer_sequence t' = timer_sequence t"
  shows "tq_core ((w, p) # fs) (q\<lparr>timer_objs := (timer_objs q)(p \<mapsto> t')\<rparr>)" (is "tq_core _ ?q")
proof -
  have seq: "seq_at ?q = seq_at q" using assms(2,3) by (auto simp: seq_at_def fun_eq_iff)
  have dom: "dom (timer_objs ?q) = dom (timer_objs q)" using assms(2) by auto
  have "p \<notin> snd ` set (tq_timers q)" using core_parts(4) [OF assms(1)] by auto
  then have "0 < v \<and> (\<forall>u. timer_objs ?q x = Some u \<longrightarrow> expiration u = v)" if m: "(v, x) \<in> set (tq_timers q)" for v x
    using core_parts(6) [OF assms(1) m] imageI [OF m, of snd] by auto
  then have "\<forall>(v, x) \<in> set (tq_timers ?q). 0 < v \<and> (\<forall>u. timer_objs ?q x = Some u \<longrightarrow> expiration u = v)" by auto
  with assms(1) show ?thesis unfolding tq_core_def dom seq by (elim conjE) (intro conjI; simp)
qed

lemma core_cancel:
  assumes "tq_core fs q" "i \<in> set (activeTimers q)"
  shows "\<exists>t. timer_objs q (fst i) = Some t \<and> timer_sequence t = snd i \<and> tq_cancelInLoop i q =
      Inr (q\<lparr>tq_timers := remove1 (expiration t, fst i) (tq_timers q), timer_objs := (timer_objs q)(fst i := None),
             activeTimers := remove1 i (activeTimers q)\<rparr>) \<and>
    tq_core fs (q\<lparr>tq_timers := remove1 (expiration t, fst i) (tq_timers q), timer_objs := (timer_objs q)(fst i := None),
             activeTimers := remove1 i (activeTimers q)\<rparr>)"
proof -
  note c = core_parts [OF assms(1)]
  obtain w p where e: "(w, p) \<in> set (tq_timers q)" and i: "i = (p, seq_at q p)" using assms(2) c(8) by auto
  obtain t where t: "timer_objs q p = Some t" "expiration t = w" using c(6) [OF e] by blast
  let ?q = "q\<lparr>tq_timers := remove1 (w, p) (tq_timers q), timer_objs := (timer_objs q)(p := None), activeTimers := remove1 i (activeTimers q)\<rparr>"
  have d: "distinct (tq_timers q)" using c(2) by (simp add: distinct_map)
  have set_t: "set (tq_timers ?q) = set (tq_timers q) - {(w, p)}" using d by simp
  have "inj_on snd (set (tq_timers q))" using c(2) by (simp add: distinct_map)
  then have uniq: "v = w" if "(v, p) \<in> set (tq_timers q)" for v using inj_onD [of snd _ "(v, p)" "(w, p)"] that e by simp
  have ne: "x \<noteq> p" if "(v, x) \<in> set (tq_timers ?q)" for v x using that set_t uniq by auto
  have seq: "x \<noteq> p \<Longrightarrow> seq_at ?q x = seq_at q x" for x by (simp add: seq_at_def)
  have snds: "snd ` set (tq_timers ?q) = snd ` set (tq_timers q) - {p}"
  proof -
    have "inj_on snd (set (tq_timers q))" using c(2) by (simp add: distinct_map)
    with inj_on_image_set_diff [of snd "set (tq_timers q)" "set (tq_timers q)" "{(w, p)}"] e set_t show ?thesis by simp
  qed
  have core: "tq_core fs ?q"
    unfolding tq_core_def
  proof (intro conjI)
    show "sorted_wrt entry_less (tq_timers ?q)"
      using c(1) d by (simp add: distinct_remove1_removeAll removeAll_filter_not_eq sorted_wrt_filter)
    have "distinct (map snd (tq_timers ?q))" using c(2) by (simp add: distinct_map inj_on_diff)
    then show "distinct (map snd (tq_timers ?q @ fs))" using c(3,4) snds by auto
    have "p \<notin> snd ` set fs" using c(4) imageI [OF e, of snd] by auto
    then show "dom (timer_objs ?q) = snd ` set (tq_timers ?q @ fs)" using c(5) snds by (auto simp: image_Un)
    show "\<forall>(v, x) \<in> set (tq_timers ?q). 0 < v \<and> (\<forall>u. timer_objs ?q x = Some u \<longrightarrow> expiration u = v)"
      using core_entries [OF assms(1)] set_t by auto
    show "distinct (activeTimers ?q)" using c(7) by simp
    let ?id = "\<lambda>e. (snd e, seq_at q (snd e))"
    have "inj_on ?id (set (tq_timers q))" using \<open>inj_on snd (set (tq_timers q))\<close> by (simp add: inj_on_def)
    then have "?id ` (set (tq_timers q) - {(w, p)}) = ?id ` set (tq_timers q) - {i}"
      using inj_on_image_set_diff [of ?id "set (tq_timers q)" "set (tq_timers q)" "{(w, p)}"] e i by simp
    then have "set (activeTimers ?q) = ?id ` set (tq_timers ?q)" using c(7,8) set_t by simp
    moreover have "seq_at ?q (snd x) = seq_at q (snd x)" if "x \<in> set (tq_timers ?q)" for x
      by (rule seq) (use ne [of "fst x" "snd x"] that in simp)
    then have "?id ` set (tq_timers ?q) = (\<lambda>e. (snd e, seq_at ?q (snd e))) ` set (tq_timers ?q)" by (intro image_cong refl) simp
    ultimately show "set (activeTimers ?q) = (\<lambda>e. (snd e, seq_at ?q (snd e))) ` set (tq_timers ?q)" by (rule trans)
    note s = core_seqs [OF assms(1)]
    show "\<forall>p \<in> dom (timer_objs ?q). seq_at ?q p \<le> numCreated ?q" using s(1) seq by auto
    show "inj_on (seq_at ?q) (dom (timer_objs ?q))" using s(2) seq by (auto simp: inj_on_def)
  qed
  have "tq_cancelInLoop i q = Inr ?q"
    using core_size [OF assms(1)] core_size [OF core] assms(2) t i e
    by (simp add: tq_cancelInLoop_def the_timer_def Let_def)
  with core t i show ?thesis by (auto simp: seq_at_def)
qed

lemma erase_active_ok:
  "distinct (map snd es) \<Longrightarrow> \<forall>e \<in> set es. timer_objs q (snd e) \<noteq> None \<Longrightarrow> distinct (activeTimers q) \<Longrightarrow>
     (\<lambda>e. (snd e, seq_at q (snd e))) ` set es \<subseteq> set (activeTimers q) \<Longrightarrow>
     \<exists>as. erase_active es q = Inr (q\<lparr>activeTimers := as\<rparr>) \<and> distinct as \<and>
       set as = set (activeTimers q) - (\<lambda>e. (snd e, seq_at q (snd e))) ` set es"
proof (induction es arbitrary: q)
  case Nil
  then show ?case by (intro exI [of _ "activeTimers q"]) simp
next
  case (Cons e es)
  obtain w p where e: "e = (w, p)" by (cases e)
  obtain t where t: "timer_objs q p = Some t" using Cons.prems(2) e by auto
  then have seq: "seq_at q p = timer_sequence t" by (simp add: seq_at_def)
  let ?q = "q\<lparr>activeTimers := remove1 (p, timer_sequence t) (activeTimers q)\<rparr>"
  have "p \<notin> snd ` set es" using Cons.prems(1) e by simp
  then have "(\<lambda>e. (snd e, seq_at ?q (snd e))) ` set es \<subseteq> set (activeTimers ?q)" using Cons.prems(3,4) by auto
  from Cons.IH [of ?q, OF _ _ _ this] Cons.prems(1-3) obtain as where
    as: "erase_active es ?q = Inr (?q\<lparr>activeTimers := as\<rparr>)" "distinct as"
      "set as = set (activeTimers ?q) - (\<lambda>e. (snd e, seq_at ?q (snd e))) ` set es" by auto
  have "(p, timer_sequence t) \<in> set (activeTimers q)" using Cons.prems(4) e seq by auto
  moreover have "set as = set (activeTimers q) - (\<lambda>e. (snd e, seq_at q (snd e))) ` set (e # es)"
    using as(3) Cons.prems(3) e seq by auto
  ultimately show ?case using as(1,2) e t by (intro exI [of _ as]) (simp add: the_timer_def)
qed

lemma rest_later:
  "sorted_wrt entry_less es \<Longrightarrow> dropWhile (\<lambda>e. fst e \<le> now) es \<noteq> [] \<Longrightarrow> now < fst (hd (dropWhile (\<lambda>e. fst e \<le> now) es))"
  using hd_dropWhile [of "\<lambda>e. fst e \<le> now" es] by simp

lemma getExpired_ok:
  assumes "tq_core [] q"
  shows "\<exists>as. tq_getExpired now q = Inr (takeWhile (\<lambda>e. fst e \<le> now) (tq_timers q),
      q\<lparr>tq_timers := dropWhile (\<lambda>e. fst e \<le> now) (tq_timers q), activeTimers := as\<rparr>) \<and>
    tq_core (takeWhile (\<lambda>e. fst e \<le> now) (tq_timers q)) (q\<lparr>tq_timers := dropWhile (\<lambda>e. fst e \<le> now) (tq_timers q), activeTimers := as\<rparr>)"
proof -
  note c = core_parts [OF assms]
  let ?ex = "takeWhile (\<lambda>e. fst e \<le> now) (tq_timers q)" and ?rest = "dropWhile (\<lambda>e. fst e \<le> now) (tq_timers q)"
  obtain ex rest where er: "ex = ?ex" "rest = ?rest" by blast
  then have split: "tq_timers q = ex @ rest" by simp
  have later: "rest = [] \<or> now < fst (hd rest)" using rest_later [OF c(1), of now] er(2) by blast
  let ?q = "q\<lparr>tq_timers := rest\<rparr>"
  let ?id = "\<lambda>e. (snd e, seq_at q (snd e))"
  have d: "distinct (map snd ex)" "distinct (map snd rest)" "snd ` set ex \<inter> snd ` set rest = {}" using c(2) split by auto
  have objs: "\<forall>e \<in> set ex. timer_objs ?q (snd e) \<noteq> None"
  proof
    fix e
    assume "e \<in> set ex"
    then have "snd e \<in> dom (timer_objs q)" using c(5) split by auto
    then show "timer_objs ?q (snd e) \<noteq> None" by auto
  qed
  have sub: "(\<lambda>e. (snd e, seq_at ?q (snd e))) ` set ex \<subseteq> set (activeTimers ?q)" using c(8) split by auto
  obtain as where as: "erase_active ex ?q = Inr (?q\<lparr>activeTimers := as\<rparr>)" "distinct as"
      "set as = set (activeTimers ?q) - (\<lambda>e. (snd e, seq_at ?q (snd e))) ` set ex"
    using erase_active_ok [OF d(1) objs _ sub] c(7) by auto
  let ?r = "q\<lparr>tq_timers := rest, activeTimers := as\<rparr>"
  have core: "tq_core ex ?r"
    unfolding tq_core_def
  proof (intro conjI)
    show "sorted_wrt entry_less (tq_timers ?r)" using c(1) split by (simp add: sorted_wrt_append)
    show "distinct (map snd (tq_timers ?r @ ex))" using d by auto
    show "dom (timer_objs ?r) = snd ` set (tq_timers ?r @ ex)" using c(5) split by auto
    show "\<forall>(w, p) \<in> set (tq_timers ?r). 0 < w \<and> (\<forall>t. timer_objs ?r p = Some t \<longrightarrow> expiration t = w)"
      using core_entries [OF assms] split by auto
    show "distinct (activeTimers ?r)" using as(2) by simp
    have "set as = ?id ` (set ex \<union> set rest) - ?id ` set ex" using as(3) c(8) split by simp
    also have "\<dots> = ?id ` set rest" using d(3) by auto
    finally show "set (activeTimers ?r) = (\<lambda>e. (snd e, seq_at ?r (snd e))) ` set (tq_timers ?r)" by simp
    show "\<forall>p \<in> dom (timer_objs ?r). seq_at ?r p \<le> numCreated ?r" using core_seqs(1) [OF assms] by simp
    show "inj_on (seq_at ?r) (dom (timer_objs ?r))" using core_seqs(2) [OF assms] by simp
  qed
  have "tq_getExpired now q = Inr (ex, ?r)"
    unfolding tq_getExpired_def Let_def er [symmetric] using core_size [OF assms] core_size [OF core] as(1) later by simp
  with core show ?thesis unfolding er by blast
qed

lemma reset_each_ok:
  "tq_core es q \<Longrightarrow> 0 < now \<Longrightarrow> \<exists>q'. reset_each now es q = Inr q' \<and> tq_core [] q' \<and> numCreated q' = numCreated q \<and>
     callingExpiredTimers q' = callingExpiredTimers q \<and>
     (\<forall>p t'. timer_objs q' p = Some t' \<longrightarrow> (\<exists>t. timer_objs q p = Some t \<and> timer_sequence t' = timer_sequence t \<and>
        (p \<in> snd ` set es \<longrightarrow> (p, timer_sequence t) \<notin> set (cancelingTimers q))))"
proof (induction es arbitrary: q)
  case Nil
  then show ?case by simp
next
  case (Cons e es)
  obtain w p where e: "e = (w, p)" by (cases e)
  have "p \<in> dom (timer_objs q)" using core_parts(5) [OF Cons.prems(1)] e by auto
  then obtain t where t: "timer_objs q p = Some t" by blast
  have pe: "p \<notin> snd ` set es" using core_parts(3) [OF Cons.prems(1)] e by simp
  show ?case
  proof (cases "timer_repeat t \<and> (p, timer_sequence t) \<notin> set (cancelingTimers q)")
    case True
    let ?t = "timer_restart now t"
    let ?q = "q\<lparr>timer_objs := (timer_objs q)(p \<mapsto> ?t)\<rparr>"
    have rt: "timer_sequence ?t = timer_sequence t" "0 < expiration ?t"
      using True Cons.prems(2) by (simp_all add: timer_restart_def timer_repeat_def)
    have "tq_core ((w, p) # es) ?q" using core_restart [of w p es q t ?t] Cons.prems(1) e t rt(1) by simp
    from tq_insert_ok [OF this _ rt(2)] obtain q1 where q1: "tq_core es q1"
      "tq_insert p ?q = Inr (tq_timers ?q = [] \<or> expiration ?t < fst (hd (tq_timers ?q)), q1)"
      "q1 = ?q\<lparr>tq_timers := insert_entry (expiration ?t, p) (tq_timers ?q), activeTimers := (p, timer_sequence ?t) # activeTimers ?q\<rparr>"
      by auto
    from Cons.IH [OF q1(1) Cons.prems(2)] obtain q' where q': "reset_each now es q1 = Inr q'" "tq_core [] q'" "numCreated q' = numCreated q1"
      "callingExpiredTimers q' = callingExpiredTimers q1"
      "\<forall>p t'. timer_objs q' p = Some t' \<longrightarrow> (\<exists>t. timer_objs q1 p = Some t \<and> timer_sequence t' = timer_sequence t \<and>
        (p \<in> snd ` set es \<longrightarrow> (p, timer_sequence t) \<notin> set (cancelingTimers q1)))" by blast
    have "reset_each now (e # es) q = Inr q'" using e t True q1(2) q'(1) by (simp add: the_timer_def)
    moreover have "\<exists>t. timer_objs q x = Some t \<and> timer_sequence t' = timer_sequence t \<and>
        (x \<in> snd ` set (e # es) \<longrightarrow> (x, timer_sequence t) \<notin> set (cancelingTimers q))" if x: "timer_objs q' x = Some t'" for x t'
    proof -
      obtain u where u: "timer_objs q1 x = Some u" "timer_sequence t' = timer_sequence u"
        "x \<in> snd ` set es \<longrightarrow> (x, timer_sequence u) \<notin> set (cancelingTimers q1)" using q'(5) x by blast
      show ?thesis
      proof (cases "x = p")
        case True
        with u(1) q1(3) have "u = ?t" by simp
        with u(2) rt(1) True t \<open>timer_repeat t \<and> (p, timer_sequence t) \<notin> set (cancelingTimers q)\<close> e show ?thesis by simp
      next
        case False
        with u q1(3) e show ?thesis by simp
      qed
    qed
    ultimately show ?thesis using q'(2-4) q1(3) by auto
  next
    case False
    let ?q = "q\<lparr>timer_objs := (timer_objs q)(p := None)\<rparr>"
    have "tq_core es ?q" using core_free Cons.prems(1) e by simp
    from Cons.IH [OF this Cons.prems(2)] obtain q' where q': "reset_each now es ?q = Inr q'" "tq_core [] q'" "numCreated q' = numCreated ?q"
      "callingExpiredTimers q' = callingExpiredTimers ?q"
      "\<forall>p t'. timer_objs q' p = Some t' \<longrightarrow> (\<exists>t. timer_objs ?q p = Some t \<and> timer_sequence t' = timer_sequence t \<and>
        (p \<in> snd ` set es \<longrightarrow> (p, timer_sequence t) \<notin> set (cancelingTimers ?q)))" by blast
    have "reset_each now (e # es) q = Inr q'" using e t False q'(1) by (auto simp: the_timer_def)
    moreover have "\<exists>t. timer_objs q x = Some t \<and> timer_sequence t' = timer_sequence t \<and>
        (x \<in> snd ` set (e # es) \<longrightarrow> (x, timer_sequence t) \<notin> set (cancelingTimers q))" if x: "timer_objs q' x = Some t'" for x t'
    proof -
      obtain u where u: "timer_objs ?q x = Some u" "timer_sequence t' = timer_sequence u"
        "x \<in> snd ` set es \<longrightarrow> (x, timer_sequence u) \<notin> set (cancelingTimers ?q)" using q'(5) x by blast
      then have "x \<noteq> p" by auto
      with u e show ?thesis by simp
    qed
    ultimately show ?thesis using q'(2-4) by auto
  qed
qed

section \<open>Steps\<close>

lemma tq_core_frame [simp]:
  "tq_core fs (q\<lparr>callingExpiredTimers := a\<rparr>) = tq_core fs q" "tq_core fs (q\<lparr>cancelingTimers := b\<rparr>) = tq_core fs q"
  "tq_core fs (q\<lparr>timerfd_armed := c\<rparr>) = tq_core fs q" "tq_core fs (q\<lparr>firing := d\<rparr>) = tq_core fs q"
  "tq_core fs (q\<lparr>to_run := e\<rparr>) = tq_core fs q" "tq_core fs (q\<lparr>fire_time := t\<rparr>) = tq_core fs q"
  by (simp_all add: tq_core_def)

lemma addTimer_ok:
  assumes "tq_inv q" "timer_objs q p = None" "0 < when"
  shows "\<exists>q1 t. tq_addTimer cb when interval p q = Inr ((p, numCreated q + 1), q1) \<and> tq_inv q1 \<and>
    timer_objs q1 = (timer_objs q)(p \<mapsto> t) \<and> timer_sequence t = numCreated q + 1 \<and> numCreated q1 = numCreated q + 1 \<and>
    callingExpiredTimers q1 = callingExpiredTimers q \<and> cancelingTimers q1 = cancelingTimers q \<and> firing q1 = firing q"
proof -
  let ?t = "\<lparr>timer_callback = cb, expiration = when, timer_interval = interval, timer_sequence = numCreated q + 1\<rparr>"
  let ?q0 = "q\<lparr>timer_objs := (timer_objs q)(p \<mapsto> ?t), numCreated := numCreated q + 1\<rparr>"
  have core: "tq_core (firing q) q" using assms(1) by (simp add: tq_inv_def)
  have "tq_core ((0, p) # firing q) ?q0" by (rule core_alloc [OF core assms(2)]) simp
  moreover have "timer_objs ?q0 p = Some ?t" "0 < expiration ?t" using assms(3) by simp_all
  ultimately obtain q1 where q1: "tq_insert p ?q0 = Inr (tq_timers q = [] \<or> when < fst (hd (tq_timers q)), q1)" "tq_core (firing q) q1"
    "q1 = ?q0\<lparr>tq_timers := insert_entry (when, p) (tq_timers q), activeTimers := (p, numCreated q + 1) # activeTimers q\<rparr>"
    using tq_insert_ok [of 0 p "firing q" ?q0 ?t] by auto
  let ?early = "tq_timers q = [] \<or> when < fst (hd (tq_timers q))"
  let ?q2 = "if ?early then q1\<lparr>timerfd_armed := Some when\<rparr> else q1"
  have "tq_addTimer cb when interval p q = Inr ((p, numCreated q + 1), ?q2)"
    using q1(1,3) by (auto simp: tq_addTimer_def tq_addTimerInLoop_def the_timer_def Let_def)
  moreover have "tq_inv ?q2"
  proof -
    have "\<exists>a. timerfd_armed ?q2 = Some a \<and> a \<le> fst (hd (tq_timers ?q2))" if idle: "\<not> callingExpiredTimers q"
    proof (cases ?early)
      case True
      then show ?thesis using q1(3) by (cases "tq_timers q") auto
    next
      case False
      then obtain a where "timerfd_armed q = Some a" "a \<le> fst (hd (tq_timers q))" using idle assms(1) by (auto simp: tq_inv_def)
      then show ?thesis using False q1(3) by (auto simp: hd_insert_entry)
    qed
    then show ?thesis using assms(1) q1(2,3) by (auto simp: tq_inv_def)
  qed
  ultimately show ?thesis using q1(3) by (intro exI [of _ ?q2] exI [of _ ?t]) simp
qed

lemma cancel_ok:
  assumes "tq_inv q"
  shows "\<exists>q1. tq_cancelInLoop i q = Inr q1 \<and> tq_inv q1 \<and> numCreated q1 = numCreated q \<and> firing q1 = firing q \<and>
    callingExpiredTimers q1 = callingExpiredTimers q \<and>
    (if i \<in> set (activeTimers q) then timer_objs q1 = (timer_objs q)(fst i := None) \<and> cancelingTimers q1 = cancelingTimers q
     else timer_objs q1 = timer_objs q \<and> set (cancelingTimers q) \<subseteq> set (cancelingTimers q1) \<and>
       (callingExpiredTimers q \<longrightarrow> i \<in> set (cancelingTimers q1)))"
proof (cases "i \<in> set (activeTimers q)")
  case True
  have core: "tq_core (firing q) q" using assms by (simp add: tq_inv_def)
  obtain t :: Timer where t: "tq_cancelInLoop i q =
      Inr (q\<lparr>tq_timers := remove1 (expiration t, fst i) (tq_timers q), timer_objs := (timer_objs q)(fst i := None),
             activeTimers := remove1 i (activeTimers q)\<rparr>)"
    "tq_core (firing q) (q\<lparr>tq_timers := remove1 (expiration t, fst i) (tq_timers q), timer_objs := (timer_objs q)(fst i := None),
             activeTimers := remove1 i (activeTimers q)\<rparr>)"
    using core_cancel [OF core True] by blast
  let ?q = "q\<lparr>tq_timers := remove1 (expiration t, fst i) (tq_timers q), timer_objs := (timer_objs q)(fst i := None),
             activeTimers := remove1 i (activeTimers q)\<rparr>"
  have "\<exists>a. timerfd_armed ?q = Some a \<and> a \<le> fst (hd (tq_timers ?q))" if idle: "\<not> callingExpiredTimers q" and ne: "tq_timers ?q \<noteq> []"
  proof -
    have m: "hd (tq_timers ?q) \<in> set (tq_timers q)" using ne hd_in_set notin_set_remove1 by fastforce
    then have "tq_timers q \<noteq> []" by auto
    with idle assms obtain a where "timerfd_armed q = Some a" "a \<le> fst (hd (tq_timers q))" by (auto simp: tq_inv_def)
    with entry_sorted_fst [OF core_parts(1) [OF core] m] show ?thesis by auto
  qed
  then have "tq_inv ?q" using assms t(2) by (auto simp: tq_inv_def)
  with t(1) True show ?thesis by (intro exI [of _ ?q]) simp
next
  case False
  have core: "tq_core (firing q) q" using assms by (simp add: tq_inv_def)
  let ?q = "if callingExpiredTimers q then q\<lparr>cancelingTimers := List.insert i (cancelingTimers q)\<rparr> else q"
  have "tq_cancelInLoop i q = Inr ?q" using core_size [OF core] False by (simp add: tq_cancelInLoop_def)
  moreover have "tq_inv ?q"
  proof (cases "callingExpiredTimers q")
    case True
    then show ?thesis using assms by (simp add: tq_inv_def)
  qed (use assms in simp)
  ultimately show ?thesis using False by (intro exI [of _ ?q]) auto
qed

lemma fire_ok:
  assumes "tq_inv q" "\<not> callingExpiredTimers q" "0 < now"
  shows "\<exists>q1. tq_fire now q = Inr q1 \<and> tq_inv q1 \<and> timer_objs q1 = timer_objs q \<and> numCreated q1 = numCreated q \<and>
    callingExpiredTimers q1 \<and> to_run q1 = takeWhile (\<lambda>e. fst e \<le> now) (tq_timers q)"
proof -
  have "tq_core (firing q) q" using assms(1) unfolding tq_inv_def by blast
  moreover have "firing q = []" using assms(1,2) by (simp add: tq_inv_def)
  ultimately have core: "tq_core [] (q\<lparr>timerfd_armed := None\<rparr>)" by simp
  let ?ex = "takeWhile (\<lambda>e. fst e \<le> now) (tq_timers q)"
  let ?q1 = "\<lambda>as. q\<lparr>timerfd_armed := None, tq_timers := dropWhile (\<lambda>e. fst e \<le> now) (tq_timers q), activeTimers := as\<rparr>"
  obtain as where as: "tq_getExpired now (q\<lparr>timerfd_armed := None\<rparr>) = Inr (?ex, ?q1 as)" "tq_core ?ex (?q1 as)"
    using getExpired_ok [OF core, of now] by auto
  let ?q2 = "(?q1 as)\<lparr>callingExpiredTimers := True, cancelingTimers := [], firing := ?ex, to_run := ?ex, fire_time := now\<rparr>"
  have "tq_fire now q = Inr ?q2" using as(1) by (simp add: tq_fire_def)
  moreover have "tq_inv ?q2"
    unfolding tq_inv_def using as(2) assms(3) by (simp only: tq_core_frame) simp
  ultimately show ?thesis by (intro exI [of _ ?q2]) simp
qed

lemma done_ok:
  assumes "tq_inv q" "callingExpiredTimers q" "to_run q = []"
  shows "\<exists>q1. tq_done q = Inr q1 \<and> tq_inv q1 \<and> \<not> callingExpiredTimers q1 \<and> numCreated q1 = numCreated q \<and>
    (\<forall>p t'. timer_objs q1 p = Some t' \<longrightarrow> (\<exists>t. timer_objs q p = Some t \<and> timer_sequence t' = timer_sequence t \<and>
        (p \<in> snd ` set (firing q) \<longrightarrow> (p, timer_sequence t) \<notin> set (cancelingTimers q))))"
proof -
  let ?q = "q\<lparr>callingExpiredTimers := False\<rparr>"
  have "tq_core (firing q) ?q" "0 < fire_time q" using assms by (simp_all add: tq_inv_def)
  from reset_each_ok [OF this] obtain r where r: "reset_each (fire_time q) (firing q) ?q = Inr r" "tq_core [] r" "numCreated r = numCreated q"
    "\<not> callingExpiredTimers r" "\<forall>p t'. timer_objs r p = Some t' \<longrightarrow> (\<exists>t. timer_objs q p = Some t \<and> timer_sequence t' = timer_sequence t \<and>
        (p \<in> snd ` set (firing q) \<longrightarrow> (p, timer_sequence t) \<notin> set (cancelingTimers q)))" by auto
  show ?thesis
  proof (cases "tq_timers r")
    case Nil
    let ?r = "r\<lparr>firing := [], to_run := []\<rparr>"
    have "tq_done q = Inr ?r" using Nil r(1) by (simp add: tq_done_def tq_reset_def)
    moreover have "tq_inv ?r" using Nil r(2,4) by (simp add: tq_inv_def)
    ultimately show ?thesis using r(3-5) by (intro exI [of _ ?r]) simp
  next
    case (Cons e es)
    obtain w p where e: "e = (w, p)" by (cases e)
    then obtain t where t: "timer_objs r p = Some t" "expiration t = w" "0 < w" using core_parts(6) [OF r(2), of w p] Cons by auto
    let ?r = "r\<lparr>timerfd_armed := Some w, firing := [], to_run := []\<rparr>"
    have "tq_done q = Inr ?r" using Cons e t r(1) by (simp add: tq_done_def tq_reset_def the_timer_def)
    moreover have "tq_inv ?r" using Cons e r(2,4) by (simp add: tq_inv_def)
    ultimately show ?thesis using r(3-5) by (intro exI [of _ ?r]) simp
  qed
qed

lemma call_ok:
  assumes "tq_inv q" "to_run q \<noteq> []"
  shows "\<exists>t. tq_call q = Inr (Some t, q\<lparr>to_run := tl (to_run q)\<rparr>) \<and> tq_inv (q\<lparr>to_run := tl (to_run q)\<rparr>)"
proof -
  obtain w p es where e: "to_run q = (w, p) # es" using assms(2) by (cases "to_run q") auto
  have core: "tq_core (firing q) q" and sub: "set (to_run q) \<subseteq> set (firing q)" using assms(1) by (simp_all add: tq_inv_def)
  have "(w, p) \<in> set (firing q)" using sub e by simp
  then have "p \<in> dom (timer_objs q)" using core_parts(5) [OF core] imageI [of "(w, p)" _ snd] by auto
  then obtain t where "timer_objs q p = Some t" by blast
  then show ?thesis using e assms(1) by (auto simp: tq_call_def the_timer_def tq_inv_def)
qed

lemma tq_step_ok:
  assumes "tq_inv q" "tq_ok q e"
  shows "\<exists>q1. tq_step q e = Inr q1 \<and> tq_inv q1"
proof (cases e)
  case (TAdd cb w interval p)
  with assms addTimer_ok [of q p w cb interval] show ?thesis by fastforce
next
  case (TCancel i)
  with cancel_ok [OF assms(1), of i] show ?thesis by auto
next
  case (TFire now)
  with assms fire_ok [OF assms(1), of now] show ?thesis by auto
next
  case TCall
  with assms call_ok [OF assms(1)] show ?thesis by auto
next
  case TDone
  with assms done_ok [OF assms(1)] show ?thesis by auto
qed

interpretation timer_queue: transition_system tq_step tq_ok tq_inv
  by unfold_locales (rule tq_step_ok)

lemma tq_inv_new: "tq_inv TimerQueue_new"
  by (simp add: tq_inv_def tq_core_def TimerQueue_new_def)

section \<open>What the queue guarantees\<close>

lemma dom_fold_delete: "dom (fold (\<lambda>e objs. objs(snd e := None)) es m) = dom m - snd ` set es"
  by (induction es arbitrary: m) auto

text \<open>
  C24: The timer queue is safe: over any sequence of additions, cancellations and expirations, with callbacks that add and cancel timers themselves,
  every assertion holds and no deleted timer is read; exactly the scheduled timers and the ones being called are allocated; the
  entries are ordered and carry their timer's time; and while no callback runs and something is scheduled, the timer
  descriptor has been set for no later than the first timer's time (the kernel may be given up to 100 microseconds more), so none is
  missed; the destructor then leaves no timer allocated.
\<close>

theorem timer_queue_safe:
  assumes "admissible tq_step tq_ok TimerQueue_new es"
  shows "\<exists>q. run_steps tq_step TimerQueue_new es = Inr q \<and>
    dom (timer_objs q) = snd ` (set (tq_timers q) \<union> set (firing q)) \<and> sorted_wrt entry_less (tq_timers q) \<and>
    (\<forall>(w, p) \<in> set (tq_timers q). \<exists>t. timer_objs q p = Some t \<and> expiration t = w) \<and>
    (\<not> callingExpiredTimers q \<and> tq_timers q \<noteq> [] \<longrightarrow> (\<exists>a. timerfd_armed q = Some a \<and> (\<forall>(w, p) \<in> set (tq_timers q). a \<le> w))) \<and>
    (\<not> callingExpiredTimers q \<longrightarrow> timer_objs (TimerQueue_destroy q) = Map.empty)"
proof -
  obtain q where q: "run_steps tq_step TimerQueue_new es = Inr q" "tq_inv q"
    using timer_queue.run_inv [OF tq_inv_new assms] by blast
  have core: "tq_core (firing q) q" using q(2) unfolding tq_inv_def by blast
  note c = core_parts [OF core]
  have "\<exists>t. timer_objs q p = Some t \<and> expiration t = w" if "(w, p) \<in> set (tq_timers q)" for w p using c(6) [OF that] by blast
  moreover have "\<exists>a. timerfd_armed q = Some a \<and> (\<forall>(w, p) \<in> set (tq_timers q). a \<le> w)"
    if "\<not> callingExpiredTimers q" "tq_timers q \<noteq> []"
  proof -
    from that q(2) obtain a where a: "timerfd_armed q = Some a" "a \<le> fst (hd (tq_timers q))" by (auto simp: tq_inv_def)
    have "a \<le> w" if "(w, p) \<in> set (tq_timers q)" for w p using entry_sorted_fst [OF c(1) that] a(2) by simp
    with a(1) show ?thesis by auto
  qed
  moreover have "timer_objs (TimerQueue_destroy q) = Map.empty" if "\<not> callingExpiredTimers q"
  proof -
    have "dom (timer_objs q) = snd ` set (tq_timers q)" using that q(2) c(5) by (simp add: tq_inv_def)
    then have "dom (timer_objs (TimerQueue_destroy q)) = {}" by (simp add: TimerQueue_destroy_def dom_fold_delete)
    then show ?thesis by simp
  qed
  ultimately show ?thesis using q(1) c(1,5) by (auto simp: image_Un)
qed

text \<open>The identifier names no other timer; after \<open>cancel\<close> its timer is deleted, or will not be scheduled again.\<close>

definition id_valid :: "timer_id \<Rightarrow> TimerQueue \<Rightarrow> bool" where
  "id_valid i q \<longleftrightarrow> snd i \<le> numCreated q \<and> (\<forall>p t. timer_objs q p = Some t \<longrightarrow> timer_sequence t = snd i \<longrightarrow> p = fst i)"

definition id_cancelled :: "timer_id \<Rightarrow> TimerQueue \<Rightarrow> bool" where
  "id_cancelled i q \<longleftrightarrow> snd i \<le> numCreated q \<and> (\<forall>p t. timer_objs q p = Some t \<longrightarrow> timer_sequence t = snd i \<longrightarrow>
     p = fst i \<and> callingExpiredTimers q \<and> p \<in> snd ` set (firing q) \<and> i \<in> set (cancelingTimers q))"

definition id_dead :: "timer_id \<Rightarrow> TimerQueue \<Rightarrow> bool" where
  "id_dead i q \<longleftrightarrow> snd i \<le> numCreated q \<and> (\<forall>p t. timer_objs q p = Some t \<longrightarrow> timer_sequence t \<noteq> snd i)"

text \<open>What a step does to the allocated timers: new ones have new numbers.\<close>

lemma step_objs:
  assumes "tq_inv q" "tq_ok q e" "tq_step q e = Inr q1"
  shows "numCreated q \<le> numCreated q1"
    "timer_objs q1 p = Some t1 \<Longrightarrow> (\<exists>t. timer_objs q p = Some t \<and> timer_sequence t1 = timer_sequence t) \<or> numCreated q < timer_sequence t1"
proof -
  have "numCreated q \<le> numCreated q1 \<and> (timer_objs q1 p = Some t1 \<longrightarrow>
      (\<exists>t. timer_objs q p = Some t \<and> timer_sequence t1 = timer_sequence t) \<or> numCreated q < timer_sequence t1)"
  proof (cases e)
    case (TAdd cb w interval x)
    then have "timer_objs q x = None" "0 < w" using assms(2) by simp_all
    from addTimer_ok [OF assms(1) this, of cb interval] assms(3) TAdd obtain t where
      t: "timer_objs q1 = (timer_objs q)(x \<mapsto> t)" "timer_sequence t = numCreated q + 1" "numCreated q1 = numCreated q + 1" by auto
    then show ?thesis by (cases "p = x") auto
  next
    case (TCancel i)
    then have "tq_cancelInLoop i q = Inr q1" using assms(3) by simp
    then have "numCreated q1 = numCreated q" "timer_objs q1 = (timer_objs q)(fst i := None) \<or> timer_objs q1 = timer_objs q"
      using cancel_ok [OF assms(1), of i] by (auto split: if_splits)
    then show ?thesis by (elim disjE) (simp_all split: if_split)
  next
    case (TFire now)
    then have "\<not> callingExpiredTimers q" "0 < now" "tq_fire now q = Inr q1" using assms(2,3) by simp_all
    then have "timer_objs q1 = timer_objs q" "numCreated q1 = numCreated q" using fire_ok [OF assms(1), of now] by auto
    then show ?thesis by simp
  next
    case TCall
    then have "q1 = q\<lparr>to_run := tl (to_run q)\<rparr>" using assms(2,3) call_ok [OF assms(1)] by auto
    then show ?thesis by simp
  next
    case TDone
    with assms(2) have d: "callingExpiredTimers q" "to_run q = []" by simp_all
    obtain r where r: "tq_done q = Inr r" "numCreated r = numCreated q"
      "\<forall>p t'. timer_objs r p = Some t' \<longrightarrow> (\<exists>t. timer_objs q p = Some t \<and> timer_sequence t' = timer_sequence t \<and>
        (p \<in> snd ` set (firing q) \<longrightarrow> (p, timer_sequence t) \<notin> set (cancelingTimers q)))"
      using done_ok [OF assms(1) d] by (elim exE conjE) (rule that)
    have q1: "q1 = r" using assms(3) TDone r(1) by simp
    show ?thesis
    proof (intro conjI impI disjI1)
      show "numCreated q \<le> numCreated q1" using q1 r(2) by simp
      assume "timer_objs q1 p = Some t1"
      with r(3) q1 show "\<exists>t. timer_objs q p = Some t \<and> timer_sequence t1 = timer_sequence t" by blast
    qed
  qed
  then show "numCreated q \<le> numCreated q1"
    "timer_objs q1 p = Some t1 \<Longrightarrow> (\<exists>t. timer_objs q p = Some t \<and> timer_sequence t1 = timer_sequence t) \<or> numCreated q < timer_sequence t1"
    by blast+
qed

lemma dead_stable: "stable tq_step tq_ok tq_inv (id_dead i)"
  unfolding stable_def id_dead_def using step_objs by (metis leD le_trans)

lemma valid_stable: "stable tq_step tq_ok tq_inv (id_valid i)"
  unfolding stable_def id_valid_def using step_objs by (metis leD le_trans)

lemma cancelled_stable: "stable tq_step tq_ok tq_inv (id_cancelled i)"
  unfolding stable_def
proof (intro allI impI)
  fix q e q1
  assume a: "tq_inv q" "tq_ok q e" "tq_step q e = Inr q1" "id_cancelled i q"
  have le: "snd i \<le> numCreated q1" using step_objs(1) [OF a(1-3)] a(4) by (simp add: id_cancelled_def)
  have old: "p = fst i \<and> callingExpiredTimers q1 \<and> p \<in> snd ` set (firing q1) \<and> i \<in> set (cancelingTimers q1)"
    if t: "timer_objs q1 p = Some t" "timer_sequence t = snd i" for p t
  proof -
    have "\<not> numCreated q < timer_sequence t" using a(4) t(2) by (simp add: id_cancelled_def)
    with step_objs(2) [OF a(1-3) t(1)] obtain u where u: "timer_objs q p = Some u" "timer_sequence u = snd i" using t(2) by auto
    then have c: "p = fst i" "callingExpiredTimers q" "p \<in> snd ` set (firing q)" "i \<in> set (cancelingTimers q)"
      using a(4) by (auto simp: id_cancelled_def)
    show ?thesis
    proof (cases e)
      case (TAdd cb w interval x)
      with a(2,3) c addTimer_ok [OF a(1), of x w cb interval] show ?thesis by auto
    next
      case (TCancel j)
      with a(3) c cancel_ok [OF a(1), of j] show ?thesis by (auto split: if_splits)
    next
      case (TFire now)
      with a(2) c show ?thesis by simp
    next
      case TCall
      then have "q1 = q\<lparr>to_run := tl (to_run q)\<rparr>" using a(2,3) call_ok [OF a(1)] by auto
      with c show ?thesis by simp
    next
      case TDone
      with a(2,3) done_ok [OF a(1)] have "\<exists>v. timer_objs q p = Some v \<and> timer_sequence t = timer_sequence v \<and> (p, timer_sequence v) \<notin> set (cancelingTimers q)"
        using t(1) c(3) by auto
      with c(1,4) t(2) show ?thesis by (metis prod.collapse)
    qed
  qed
  with le show "id_cancelled i q1" by (simp add: id_cancelled_def)
qed

lemma cancel_turn: "turns tq_step tq_ok tq_inv (TCancel i) (id_valid i) (id_cancelled i)"
  unfolding turns_def
proof (intro allI impI)
  fix q q1
  assume a: "tq_inv q" "tq_ok q (TCancel i)" "tq_step q (TCancel i) = Inr q1" "id_valid i q"
  have core: "tq_core (firing q) q" using a(1) unfolding tq_inv_def by blast
  note c = core_parts [OF core]
  note k = cancel_ok [OF a(1), of i]
  have "p = fst i \<and> callingExpiredTimers q1 \<and> p \<in> snd ` set (firing q1) \<and> i \<in> set (cancelingTimers q1)"
    if t: "timer_objs q1 p = Some t" "timer_sequence t = snd i" for p t
  proof (cases "i \<in> set (activeTimers q)")
    case True
    with k a(3) have "timer_objs q1 = (timer_objs q)(fst i := None)" by auto
    with t a(4) show ?thesis by (auto simp: id_valid_def split: if_splits)
  next
    case False
    with k a(3) have q1: "timer_objs q1 = timer_objs q" "firing q1 = firing q" "callingExpiredTimers q1 = callingExpiredTimers q"
      "callingExpiredTimers q \<longrightarrow> i \<in> set (cancelingTimers q1)" by auto
    with t a(4) have p: "p = fst i" "seq_at q p = snd i" by (auto simp: id_valid_def seq_at_def)
    have "p \<notin> snd ` set (tq_timers q)" using False c(8) p by force
    then have f: "p \<in> snd ` set (firing q)" using c(5) t(1) q1(1) by (metis UnE domI)
    then have "callingExpiredTimers q" using a(1) by (auto simp: tq_inv_def split: if_splits)
    with p f q1 show ?thesis by simp
  qed
  moreover have "snd i \<le> numCreated q1" using k a(3,4) by (auto simp: id_valid_def)
  ultimately show "id_cancelled i q1" by (simp add: id_cancelled_def)
qed

lemma fire_turn: "turns tq_step tq_ok tq_inv (TFire now) (id_cancelled i) (id_dead i)"
  unfolding turns_def
proof (intro allI impI)
  fix q q1
  assume a: "tq_inv q" "tq_ok q (TFire now)" "tq_step q (TFire now) = Inr q1" "id_cancelled i q"
  from a(2) have "id_dead i q" using a(4) by (auto simp: id_cancelled_def id_dead_def)
  with a dead_stable [of i] show "id_dead i q1" unfolding stable_def by blast
qed

text \<open>
  C20: A cancelled timer is not called any more: once \<open>cancel\<close> has been called with the identifier \<open>addTimer\<close> returned, at whatever
  moment (before or after the timer has run, between two expirations or inside a callback, be it its own), no expiration that
  begins later calls it, whatever timers are added, at whatever addresses, cancelled and called in between; one-shot or periodic.
\<close>

theorem cancelled_timer_never_runs:
  assumes "admissible tq_step tq_ok TimerQueue_new (es0 @ TAdd cb w interval p # es1 @ TCancel i # es2 @ TFire now # es3)"
    and "run_steps tq_step TimerQueue_new es0 = Inr q0" "tq_addTimer cb w interval p q0 = Inr (i, q1)"
    and "run_steps tq_step TimerQueue_new (es0 @ TAdd cb w interval p # es1 @ TCancel i # es2 @ TFire now # es3) = Inr q"
    and "tq_call q = Inr (Some t, q')"
  shows "timer_sequence t \<noteq> snd i"
proof -
  have adm: "admissible tq_step tq_ok TimerQueue_new es0" "admissible tq_step tq_ok q0 (TAdd cb w interval p # es1 @ TCancel i # es2 @ TFire now # es3)"
    using assms(1,2) by (simp_all add: admissible_append)
  have q0: "tq_inv q0" by (rule timer_queue.run_result_inv [OF tq_inv_new adm(1) assms(2)])
  have ok: "timer_objs q0 p = None" "0 < w" using adm(2) by simp_all
  obtain tm where q1: "i = (p, numCreated q0 + 1)" "tq_inv q1" "timer_objs q1 = (timer_objs q0)(p \<mapsto> tm)" "timer_sequence tm = numCreated q0 + 1"
    "numCreated q1 = numCreated q0 + 1" using addTimer_ok [OF q0 ok, of cb interval] assms(3) by auto
  have le: "timer_sequence u \<le> numCreated q0" if "timer_objs q0 x = Some u" for x u
    using core_parts(9) that q0 unfolding tq_inv_def by blast
  have "id_valid i q1" using q1 le by (fastforce simp: id_valid_def)
  moreover have adm1: "admissible tq_step tq_ok q1 (es1 @ TCancel i # es2 @ TFire now # es3)" using adm(2) assms(3) by simp
  ultimately obtain q2 where q2: "run_steps tq_step q1 (es1 @ [TCancel i]) = Inr q2" "tq_inv q2" "id_cancelled i q2"
    "admissible tq_step tq_ok q2 (es2 @ TFire now # es3)"
    using timer_queue.run_leads [OF valid_stable cancel_turn q1(2)] by blast
  obtain q3 where q3: "run_steps tq_step q2 (es2 @ [TFire now]) = Inr q3" "tq_inv q3" "id_dead i q3" "admissible tq_step tq_ok q3 es3"
    using timer_queue.run_leads [OF cancelled_stable fire_turn q2(2,4,3)] by blast
  obtain q4 where q4: "run_steps tq_step q3 es3 = Inr q4" "tq_inv q4" "id_dead i q4"
    using timer_queue.run_stable [OF dead_stable q3(2,4,3)] by blast
  have "q = q4" using assms(2-4) q2(1) q3(1) q4(1) by (auto simp: run_steps_append rbind_eq_Inr)
  then have "id_dead i q" using q4(3) by simp
  moreover obtain x where "timer_objs q x = Some t"
    using assms(5) by (auto simp: tq_call_def the_timer_def rbind_eq_Inr split: list.splits option.splits)
  ultimately show ?thesis by (auto simp: id_dead_def)
qed

section \<open>Sample runs\<close>

theorem timer_queue_safe_witness:
  "\<exists>q. run_steps tq_step TimerQueue_new [TAdd 1 50 0 100, TAdd 2 30 20 200, TFire 40, TCall, TCancel (100, 1), TDone] = Inr q \<and>
    dom (timer_objs q) = snd ` (set (tq_timers q) \<union> set (firing q))"
proof -
  have "admissible tq_step tq_ok TimerQueue_new [TAdd 1 50 0 100, TAdd 2 30 20 200, TFire 40, TCall, TCancel (100, 1), TDone]"
    by code_simp
  from timer_queue_safe [OF this] show ?thesis by blast
qed

theorem cancelled_timer_never_runs_witness:
  "\<exists>q t q'. run_steps tq_step TimerQueue_new [TAdd 1 50 10 100, TAdd 2 50 20 200, TCancel (100, 1), TFire 60] = Inr q \<and>
    tq_call q = Inr (Some t, q') \<and> timer_sequence t \<noteq> 1"
proof -
  let ?es = "[] @ TAdd 1 50 10 100 # [TAdd 2 50 20 200] @ TCancel (100, 1) # [] @ TFire 60 # []"
  have a: "admissible tq_step tq_ok TimerQueue_new ?es" by code_simp
  obtain q1 where q1: "tq_addTimer 1 50 10 100 TimerQueue_new = Inr ((100, 1), q1)"
    using addTimer_ok [OF tq_inv_new, of 100 50 1 10] by (auto simp: TimerQueue_new_def)
  obtain q where q: "run_steps tq_step TimerQueue_new ?es = Inr q" "tq_inv q"
    using timer_queue.run_inv [OF tq_inv_new a] by blast
  have "case run_steps tq_step TimerQueue_new ?es of Inl f \<Rightarrow> False | Inr q \<Rightarrow> to_run q \<noteq> []" by code_simp
  with q have "to_run q \<noteq> []" by simp
  from call_ok [OF q(2) this] obtain t q' where t: "tq_call q = Inr (Some t, q')" by blast
  have "run_steps tq_step TimerQueue_new [] = Inr TimerQueue_new" by simp
  from cancelled_timer_never_runs [OF a this q1 q(1) t] q(1) t show ?thesis by auto
qed

end
