(* ===== verification/Timer_Refinement.thy ===== *)
theory Timer_Refinement
  imports Timer_Queue Tcp_Server "HOL-Library.Multiset"
begin

text \<open>
  The timers of the system, a list of times and connections in \<open>Tcp_Server\<close>, are what the timer queue of
  \<open>TimerQueue.cc\<close> holds: adding a one-shot timer, taking the expired ones out and finishing their calls correspond. Timers of equal time are called in
  the order of their addresses, which the list does not know; so both are compared as multisets.
\<close>

text \<open>\<open>names\<close>: the connection each callback is for.\<close>

definition tq_entry :: "(nat \<Rightarrow> string) \<Rightarrow> TimerQueue \<Rightarrow> timer_entry \<Rightarrow> int \<times> string" where
  "tq_entry names q e = (fst e, names (case timer_objs q (snd e) of None \<Rightarrow> 0 | Some t \<Rightarrow> timer_callback t))"

definition tq_view :: "(nat \<Rightarrow> string) \<Rightarrow> TimerQueue \<Rightarrow> timer_entry list \<Rightarrow> (int \<times> string) multiset" where
  "tq_view names q es = image_mset (tq_entry names q) (mset es)"

definition one_shot :: "TimerQueue \<Rightarrow> bool" where
  "one_shot q \<longleftrightarrow> (\<forall>p t. timer_objs q p = Some t \<longrightarrow> \<not> timer_repeat t)"

lemma mset_insert_entry [simp]: "mset (insert_entry e es) = add_mset e (mset es)"
  by (induction es) auto

lemma tq_view_same:
  assumes "\<And>e. e \<in> set es \<Longrightarrow> timer_objs q' (snd e) = timer_objs q (snd e)"
  shows "tq_view names q' es = tq_view names q es"
  using assms by (auto simp: tq_view_def tq_entry_def intro!: image_mset_cong)

lemma view_filter:
  "sorted (map fst (es :: (int \<times> 'a) list)) \<Longrightarrow> takeWhile (\<lambda>e. fst e \<le> now) es = filter (\<lambda>e. fst e \<le> now) es \<and>
     dropWhile (\<lambda>e. fst e \<le> now) es = filter (\<lambda>e. \<not> fst e \<le> now) es"
proof (induction es)
  case (Cons e es)
  show ?case
  proof (cases "fst e \<le> now")
    case True
    with Cons show ?thesis by simp
  next
    case False
    then have "\<forall>x \<in> set es. \<not> fst x \<le> now" using Cons.prems by fastforce
    with False show ?thesis by (simp add: filter_empty_conv)
  qed
qed simp

lemma entries_sorted: "sorted_wrt entry_less es \<Longrightarrow> sorted (map fst es)"
proof (induction es)
  case (Cons e es)
  then have "fst e \<le> fst x" if "x \<in> set es" for x using that by (cases e; cases x) fastforce
  with Cons show ?case by simp
qed simp

lemma tq_add_view:
  assumes "tq_inv q" "timer_objs q p = None" "0 < w"
  shows "\<exists>i q1. tq_addTimer cb w 0 p q = Inr (i, q1) \<and> tq_inv q1 \<and>
    tq_view names q1 (tq_timers q1) = add_mset (w, names cb) (tq_view names q (tq_timers q)) \<and> (one_shot q \<longrightarrow> one_shot q1)"
proof -
  let ?t = "\<lparr>timer_callback = cb, expiration = w, timer_interval = 0, timer_sequence = numCreated q + 1\<rparr>"
  obtain i q1 where q1: "tq_addTimer cb w 0 p q = Inr (i, q1)" "tq_inv q1" using addTimer_ok [OF assms, of cb 0] by blast
  then have e: "tq_timers q1 = insert_entry (w, p) (tq_timers q)" "timer_objs q1 = (timer_objs q)(p \<mapsto> ?t)"
    by (auto simp: tq_addTimer_def tq_addTimerInLoop_def tq_insert_def the_timer_def Let_def rbind_eq_Inr c_assert_eq_Inr split: if_splits)
  have "tq_core (firing q) q" using assms(1) unfolding tq_inv_def by blast
  from core_parts(5) [OF this] assms(2) have "p \<notin> snd ` set (tq_timers q)" by auto
  then have "tq_view names q1 (tq_timers q) = tq_view names q (tq_timers q)" using e(2) by (intro tq_view_same) auto
  moreover have "tq_entry names q1 (w, p) = (w, names cb)" using e(2) by (simp add: tq_entry_def)
  ultimately have "tq_view names q1 (tq_timers q1) = add_mset (w, names cb) (tq_view names q (tq_timers q))"
    using e(1) by (simp add: tq_view_def)
  moreover have "one_shot q \<longrightarrow> one_shot q1" using e(2) by (auto simp: one_shot_def timer_repeat_def)
  ultimately show ?thesis using q1 by blast
qed

lemma tq_fire_view:
  assumes "tq_inv q" "\<not> callingExpiredTimers q" "0 < now"
  shows "\<exists>q1. tq_fire now q = Inr q1 \<and> tq_inv q1 \<and> timer_objs q1 = timer_objs q \<and> callingExpiredTimers q1 \<and>
    to_run q1 = filter (\<lambda>e. fst e \<le> now) (tq_timers q) \<and> tq_timers q1 = filter (\<lambda>e. \<not> fst e \<le> now) (tq_timers q)"
proof -
  obtain q1 where q1: "tq_fire now q = Inr q1" "tq_inv q1" "timer_objs q1 = timer_objs q" "callingExpiredTimers q1" "to_run q1 = takeWhile (\<lambda>e. fst e \<le> now) (tq_timers q)"
    using fire_ok [OF assms] by blast
  have "tq_core [] (q\<lparr>timerfd_armed := None\<rparr>)"
  proof -
    have "tq_core (firing q) q" using assms(1) unfolding tq_inv_def by blast
    moreover have "firing q = []" using assms(1,2) by (simp add: tq_inv_def)
    ultimately show ?thesis by simp
  qed
  from getExpired_ok [OF this, of now] q1(1) have "tq_timers q1 = dropWhile (\<lambda>e. fst e \<le> now) (tq_timers q)"
    by (auto simp: tq_fire_def)
  moreover have "tq_core (firing q) q" using assms(1) unfolding tq_inv_def by blast
  then have "sorted (map fst (tq_timers q))" by (intro entries_sorted core_parts(1))
  ultimately show ?thesis using q1 view_filter by auto
qed

lemma reset_one_shot:
  "one_shot q \<Longrightarrow> reset_each now es q = Inr q' \<Longrightarrow>
     tq_timers q' = tq_timers q \<and> (\<forall>p. p \<notin> snd ` set es \<longrightarrow> timer_objs q' p = timer_objs q p) \<and> one_shot q'"
proof (induction es arbitrary: q)
  case (Cons e es)
  obtain w p where e: "e = (w, p)" by (cases e)
  obtain t where t: "timer_objs q p = Some t" using Cons.prems(2) e by (auto simp: the_timer_def rbind_eq_Inr split: option.splits)
  then have "\<not> timer_repeat t" using Cons.prems(1) by (simp add: one_shot_def)
  let ?q = "q\<lparr>timer_objs := (timer_objs q)(p := None)\<rparr>"
  have "reset_each now es ?q = Inr q'" using Cons.prems(2) e t \<open>\<not> timer_repeat t\<close> by (simp add: the_timer_def)
  moreover have "one_shot ?q" using Cons.prems(1) by (auto simp: one_shot_def)
  ultimately have "tq_timers q' = tq_timers ?q \<and> (\<forall>p. p \<notin> snd ` set es \<longrightarrow> timer_objs q' p = timer_objs ?q p) \<and> one_shot q'"
    using Cons.IH by blast
  with e show ?case by auto
qed simp

lemma tq_done_fields:
  assumes "tq_done q = Inr q1"
  shows "\<exists>r. reset_each (fire_time q) (firing q) (q\<lparr>callingExpiredTimers := False\<rparr>) = Inr r \<and>
    tq_timers q1 = tq_timers r \<and> timer_objs q1 = timer_objs r"
proof (cases "reset_each (fire_time q) (firing q) (q\<lparr>callingExpiredTimers := False\<rparr>)")
  case (Inl f)
  with assms show ?thesis by (simp add: tq_done_def tq_reset_def)
next
  case (Inr r)
  with assms show ?thesis
    by (cases "the_timer (snd (hd (tq_timers r))) r") (auto simp: tq_done_def tq_reset_def split: if_splits)
qed

lemma tq_done_view:
  assumes "tq_inv q" "callingExpiredTimers q" "to_run q = []" "one_shot q"
  shows "\<exists>q1. tq_done q = Inr q1 \<and> tq_inv q1 \<and> \<not> callingExpiredTimers q1 \<and> one_shot q1 \<and> tq_view names q1 (tq_timers q1) = tq_view names q (tq_timers q)"
proof -
  obtain q1 where q1: "tq_done q = Inr q1" "tq_inv q1" "\<not> callingExpiredTimers q1"
    using done_ok [OF assms(1-3)] by (elim exE conjE) (rule that; assumption)
  obtain r where r: "reset_each (fire_time q) (firing q) (q\<lparr>callingExpiredTimers := False\<rparr>) = Inr r"
    "tq_timers q1 = tq_timers r" "timer_objs q1 = timer_objs r"
    using tq_done_fields [OF q1(1)] by blast
  have "one_shot (q\<lparr>callingExpiredTimers := False\<rparr>)" using assms(4) by (simp add: one_shot_def)
  from reset_one_shot [OF this r(1)] have s: "tq_timers r = tq_timers q" "\<And>p. p \<notin> snd ` set (firing q) \<Longrightarrow> timer_objs r p = timer_objs q p"
    "one_shot r" by auto
  have core: "tq_core (firing q) q" using assms(1) unfolding tq_inv_def by blast
  have "timer_objs q1 (snd e) = timer_objs q (snd e)" if "e \<in> set (tq_timers q)" for e
    using s(2) [of "snd e"] r(3) core_parts(4) [OF core] that by auto
  then have "tq_view names q1 (tq_timers q) = tq_view names q (tq_timers q)" by (rule tq_view_same)
  then have "tq_view names q1 (tq_timers q1) = tq_view names q (tq_timers q)" using r(2) s(1) by simp
  moreover have "one_shot q1" using s(3) r(3) by (simp add: one_shot_def)
  ultimately show ?thesis using q1 by blast
qed

lemma tq_calls:
  "tq_inv q \<Longrightarrow> run_steps tq_step q (replicate (length (to_run q)) TCall) = Inr (q\<lparr>to_run := []\<rparr>) \<and> tq_inv (q\<lparr>to_run := []\<rparr>)"
proof (induction "to_run q" arbitrary: q)
  case Nil
  have "q\<lparr>to_run := []\<rparr> = q" using Nil.hyps by simp
  then have "tq_inv (q\<lparr>to_run := []\<rparr>)" using Nil.prems by (rule ssubst)
  then show ?case by (simp flip: Nil.hyps)
next
  case (Cons e es)
  let ?q = "q\<lparr>to_run := es\<rparr>"
  have e: "to_run q \<noteq> []" "tl (to_run q) = es" "length (to_run q) = Suc (length es)" using Cons.hyps(2) by (simp_all flip: Cons.hyps(2))
  with call_ok [OF Cons.prems e(1)] have "tq_step q TCall = Inr ?q" "tq_inv ?q" by auto
  with Cons.hyps(1) [of ?q] e(3) show ?case by simp
qed

text \<open>
  C25: The list of timers the system keeps and the timer queue of the code agree: if they hold the same timers, all one-shot and none being called, then
  adding one to both leaves them with the same timers, and an expiration calls the same timers, those that are due, and, its calls done,
  leaves both with the same timers.
\<close>

theorem timers_refine_queue:
  assumes "tq_inv q" "\<not> callingExpiredTimers q" "one_shot q" "mset (timers n) = tq_view names q (tq_timers q)" "sorted (map fst (timers n))"
  shows "(\<forall>p w cb. timer_objs q p = None \<and> 0 < w \<longrightarrow> (\<exists>i q1. tq_addTimer cb w 0 p q = Inr (i, q1) \<and> tq_inv q1 \<and> one_shot q1 \<and>
      mset (timers (addTimer w (names cb) n)) = tq_view names q1 (tq_timers q1) \<and> sorted (map fst (timers (addTimer w (names cb) n))))) \<and>
    (\<forall>now > 0. \<exists>q1 q2. tq_fire now q = Inr q1 \<and> mset (fst (getExpired now n)) = tq_view names q1 (to_run q1) \<and>
      run_steps tq_step q1 (replicate (length (to_run q1)) TCall @ [TDone]) = Inr q2 \<and> tq_inv q2 \<and> \<not> callingExpiredTimers q2 \<and> one_shot q2 \<and>
      mset (timers (snd (getExpired now n))) = tq_view names q2 (tq_timers q2) \<and> sorted (map fst (timers (snd (getExpired now n)))))"
proof (intro conjI allI impI)
  fix p cb and w :: int
  assume "timer_objs q p = None \<and> 0 < w"
  then obtain i q1 where "tq_addTimer cb w 0 p q = Inr (i, q1)" "tq_inv q1" "one_shot q1"
    "tq_view names q1 (tq_timers q1) = add_mset (w, names cb) (tq_view names q (tq_timers q))"
    using tq_add_view [OF assms(1), of p w cb names] assms(3) by blast
  with assms(4,5) show "\<exists>i q1. tq_addTimer cb w 0 p q = Inr (i, q1) \<and> tq_inv q1 \<and> one_shot q1 \<and>
      mset (timers (addTimer w (names cb) n)) = tq_view names q1 (tq_timers q1) \<and> sorted (map fst (timers (addTimer w (names cb) n)))"
    by (simp add: addTimer_def sorted_insort_key)
next
  fix now :: int
  assume now: "0 < now"
  obtain q1 where q1: "tq_fire now q = Inr q1" "tq_inv q1" "timer_objs q1 = timer_objs q" "callingExpiredTimers q1"
    "to_run q1 = filter (\<lambda>e. fst e \<le> now) (tq_timers q)" "tq_timers q1 = filter (\<lambda>e. \<not> fst e \<le> now) (tq_timers q)"
    using tq_fire_view [OF assms(1,2) now] by blast
  have one: "one_shot (q1\<lparr>to_run := []\<rparr>)" using assms(3) q1(3) by (simp add: one_shot_def)
  obtain q2 where q2: "tq_done (q1\<lparr>to_run := []\<rparr>) = Inr q2" "tq_inv q2" "\<not> callingExpiredTimers q2" "one_shot q2"
    "tq_view names q2 (tq_timers q2) = tq_view names (q1\<lparr>to_run := []\<rparr>) (tq_timers q1)"
    using tq_done_view [of "q1\<lparr>to_run := []\<rparr>" names, OF _ _ _ one] tq_calls [OF q1(2)] q1(4) by auto
  have run: "run_steps tq_step q1 (replicate (length (to_run q1)) TCall @ [TDone]) = Inr q2"
    using tq_calls [OF q1(2)] q2(1) by (simp add: run_steps_append)
  have view: "tq_view names q1 es = tq_view names q es" "tq_view names (q1\<lparr>to_run := []\<rparr>) es = tq_view names q es" for es
    using q1(3) by (auto intro!: tq_view_same)
  have part: "mset (filter (\<lambda>e. P (fst e)) (timers n)) = tq_view names q (filter (\<lambda>e. P (fst e)) (tq_timers q))" for P
  proof -
    have "mset (filter (\<lambda>e. P (fst e)) (timers n)) = filter_mset (\<lambda>e. P (fst e)) (tq_view names q (tq_timers q))"
      by (simp flip: assms(4))
    then show ?thesis by (simp add: tq_view_def filter_mset_image_mset tq_entry_def comp_def)
  qed
  note g = view_filter [OF assms(5), of now]
  show "\<exists>q1 q2. tq_fire now q = Inr q1 \<and> mset (fst (getExpired now n)) = tq_view names q1 (to_run q1) \<and>
      run_steps tq_step q1 (replicate (length (to_run q1)) TCall @ [TDone]) = Inr q2 \<and> tq_inv q2 \<and> \<not> callingExpiredTimers q2 \<and> one_shot q2 \<and>
      mset (timers (snd (getExpired now n))) = tq_view names q2 (tq_timers q2) \<and> sorted (map fst (timers (snd (getExpired now n))))"
    using q1(1,5,6) q2(2-5) run view part [of "\<lambda>t. t \<le> now"] part [of "\<lambda>t. \<not> t \<le> now"] g sorted_map_dropWhile [OF assms(5), of "\<lambda>t. fst t \<le> now"]
    by - (rule exI [of _ q1], rule exI [of _ q2], simp add: getExpired_def)
qed

theorem timers_refine_queue_witness:
  "\<exists>q q1. tq_inv q \<and> tq_fire 60 q = Inr q1 \<and> tq_view (\<lambda>_. ''RtspServer-0.0.0.0:554#1'') q1 (to_run q1) = {#(50, ''RtspServer-0.0.0.0:554#1'')#}"
proof -
  let ?names = "\<lambda>_. ''RtspServer-0.0.0.0:554#1''"
  let ?n = "addTimer 50 ''RtspServer-0.0.0.0:554#1'' (net_init ''RtspServer'' ''0.0.0.0:554'')"
  have new: "timer_objs TimerQueue_new 100 = None" "(0::int) < 50" "one_shot TimerQueue_new" "tq_view ?names TimerQueue_new (tq_timers TimerQueue_new) = {#}"
    "\<not> callingExpiredTimers TimerQueue_new"
    by (simp_all add: TimerQueue_new_def one_shot_def tq_view_def)
  from tq_add_view [OF tq_inv_new new(1,2), of 1 ?names] new(3,4) obtain i q where q: "tq_addTimer 1 50 0 100 TimerQueue_new = Inr (i, q)"
    "tq_inv q" "tq_view ?names q (tq_timers q) = {#(50, ''RtspServer-0.0.0.0:554#1'')#}" "one_shot q" by auto
  have "\<not> callingExpiredTimers q" using addTimer_ok [OF tq_inv_new new(1,2), of 1 0] q(1) new(5) by auto
  moreover have n: "timers ?n = [(50, ''RtspServer-0.0.0.0:554#1'')]" by (simp add: addTimer_def net_init_def)
  then have "mset (timers ?n) = tq_view ?names q (tq_timers q)" "sorted (map fst (timers ?n))" using q(3) by simp_all
  ultimately obtain q1 where q1: "tq_fire 60 q = Inr q1" "mset (fst (getExpired 60 ?n)) = tq_view ?names q1 (to_run q1)"
    using timers_refine_queue [OF q(2) _ q(4), of ?n ?names, THEN conjunct2, THEN spec, of 60] by auto
  have "mset (fst (getExpired 60 ?n)) = {#(50, ''RtspServer-0.0.0.0:554#1'')#}" using n by (simp add: getExpired_def)
  with q1 q(2) show ?thesis by auto
qed

end
