(* ===== verification/Spec2Isabelle.thy ===== *)
theory Spec2Isabelle
  imports Teardown Server_Faults Server_Rtcp File_Playback Session_Directory Session_Description Rtsp_Parser Ring_Buffer System_Theorems Event_Loop Timer_Refinement
begin

text \<open>
  A verification of RtspServer, an RTSP server that streams an H.264 file over RTP
  (\<open>src/src/\<close>), with the part of the muduo network library it runs on (\<open>src/3rdparty/muduo/\<close>).

  THE PROGRAM. \<open>main\<close> (\<open>rtsp_h264file.cc\<close>) makes a server with one media session and starts a thread that reads the
  file picture by picture (\<open>h264_file.cc\<close>) and pushes each to the server. muduo's loop accepts
  connections and hands the server their bytes. A connection (\<open>rtsp_connection.cc\<close>) parses requests
  (\<open>rtsp_message.cc\<close>), answers them, and makes its client a viewer of a session (\<open>media_session.cc\<close>) through its
  RTP side (\<open>rtp_connection.cc\<close>). A pushed frame is cut into RTP packets (\<open>h264_source.cc\<close>); the session posts a
  copy of each to every viewer, and the loop sends them, interleaved in the RTSP connection or over UDP.

  WHERE EACH PART IS. Definitions keep the code's names; \<open>X_new\<close> or \<open>X_init\<close> is a constructor, \<open>X_destroy\<close> a destructor.
  \<^item> \<open>Prelude\<close>: words of the C++ integer types, faults (\<open>fault\<close>, \<open>'a result = fault + 'a\<close>), C arrays, bytes and characters, and
    \<open>transition_system\<close>, the locale behind every statement over runs. \<open>CString\<close>: the \<open>sscanf\<close>, \<open>printf\<close>
    and \<open>snprintf\<close> formats the program uses.
  \<^item> \<open>Byte_Queue\<close> (locales \<open>byte_queue\<close>, \<open>int_codec\<close>) and \<open>Buffer\<close>: \<open>net/Buffer.h\<close>, \<open>Buffer.cc\<close>, \<open>Endian.h\<close>.
    \<open>Fifo\<close> (locale \<open>bounded_fifo\<close>) and \<open>Ring_Buffer\<close>: \<open>media/ring_buffer.h\<close>.
  \<^item> \<open>H264_File\<close>: \<open>h264_file.cc\<close>. \<open>Rtp\<close>: \<open>media.h\<close>, \<open>rtp.h\<close>. \<open>H264_Source\<close>: \<open>h264_source.cc\<close>, \<open>media_source.h\<close>.
  \<^item> \<open>Rtp_Connection\<close> and \<open>Rtp_Delivery\<close>: \<open>rtp_connection.cc\<close>; \<open>Media_Session\<close>, \<open>Media_Delivery\<close>, \<open>Session_Description\<close>:
    \<open>media_session.cc\<close>, \<open>address.h\<close>.
  \<^item> \<open>Rtsp_Message\<close> (parser), \<open>Rtsp_Reply\<close> (replies and the client's requests): \<open>rtsp_message.cc\<close>; their lemmas are in
    \<open>Rtsp_Parse_Lemmas\<close>, \<open>Rtsp_Requests\<close>, \<open>Rtsp_Replies\<close>, \<open>Rtsp_Parser\<close>.
  \<^item> \<open>Rtsp\<close>: the base class of \<open>rtsp.h\<close> and the tables of sessions; \<open>Session_Directory\<close> (locale \<open>session_lookup\<close>): their contract.
    \<open>Rtsp_Connection\<close>: \<open>rtsp_connection.cc\<close>. \<open>Rtsp_Server\<close>: \<open>rtsp_server.cc\<close>. \<open>Rtsp_H264file\<close>: \<open>rtsp_h264file.cc\<close>.
  \<^item> \<open>Server_Invariant\<close>, \<open>Server_Run\<close>: the server as a transition system; \<open>Rtsp_Dialogue\<close>, \<open>Viewer_Dialogue\<close>, \<open>Frame_Delivery\<close>,
    \<open>File_Playback\<close>, \<open>Server_Properties\<close>, \<open>Teardown\<close>, \<open>Server_Faults\<close>, \<open>Server_Rtcp\<close>: what follows for it.
  \<^item> \<open>Tcp_Connection\<close>: \<open>net/TcpConnection.cc\<close> with \<open>Channel\<close>; \<open>Tcp_Server\<close>: \<open>net/TcpServer.cc\<close>, \<open>Channel.cc\<close>, and what the program uses of
    \<open>EventLoop.cc\<close> and \<open>TimerQueue.cc\<close> (one-shot timers in a list), put together with the server in the record \<open>system\<close>; \<open>Network_Safety\<close>, \<open>System_Run\<close>,
    \<open>System_Properties\<close>, \<open>System_Leads\<close>, \<open>System_Theorems\<close>: invariant, simulation of the server, progress and the properties.
  \<^item> \<open>Acceptor\<close>: \<open>net/Acceptor.cc\<close>, the \<open>accept\<close> of \<open>SocketsOps.cc\<close>, \<open>TcpServer\<close>'s constructor and \<open>start\<close>, around \<open>system\<close> in the record
    \<open>daemon\<close>, with the list of descriptors opened and closed; \<open>Event_Loop\<close>: the turns of \<open>EventLoop::loop\<close> over it.
  \<^item> \<open>Timer_Queue\<close>: the whole of \<open>net/TimerQueue.cc\<close>, \<open>Timer.cc\<close>, with its two sets, its heap objects and re-entrant callbacks; \<open>Timer_Refinement\<close>:
    that the system's list of timers is that queue.

  STATE AND EFFECTS. An object is a record, a shared or weak pointer the number or name of the object, a container of
  pointers a map or list of those. An operation takes the state to the new one; what it sends, opens or closes is in its
  result. A null dereference, an access outside an array and a failing assertion are the fault \<open>Inl\<close>: the model is of a build with
  assertions (a release build, with \<open>NDEBUG\<close>, goes on where one fails). What the kernel,
  the clock, the random device and uninitialised memory answer are arguments. An operation that takes a mutex is one step, and so is
  \<open>pushFrame\<close>, which takes several in a row; threads interleave as sequences of steps.

  WHAT RUNS ARE SPOKEN OF. \<open>server_ok\<close> excludes, of the server's runs, those with a message that faults by itself (\<open>message_faults\<close>: the
  parser overruns an array, an RTCP packet has not arrived in full, a command needs a DESCRIBE first) and those in which
  a packet task is run whose object is gone. Both do occur in the program, and have theorems of their own. \<open>sys_ok\<close>, \<open>daemon_ok\<close> and \<open>loop_ok\<close>
  exclude the same, and what kernel and poller do not do; \<open>daemon_ok\<close> also excludes the errors of \<open>accept\<close> on which the code aborts.

  WHAT THE LEMMAS SHOW.
  \<^item> Data: the buffer is a byte queue, the ring buffer a bounded queue, integers survive the network order.
  \<^item> Wire formats: packets carry the frame (\<open>reassembles\<close>: a receiver of RFC 3984 gets it if its first byte is a NAL header of type
    1 to 23; the frames of the file begin with their start code, which has type 0), requests are parsed to what the client wrote, replies
    read back, the session description equals its reference, the file is handed out piece by piece.
  \<^item> Server: the invariant over any admissible run, exactly which messages fault, a request that comes alone is answered, dialogue and
    playback end to end, isolation of clients, silence after TEARDOWN, bounds of the input.
  \<^item> System: in admissible runs no assertion of the connections and the server of the network library fails; they are admissible runs of the
    server, so the assumption \<open>server_ok\<close> makes on the origin of messages is proved; the output of a connection is a stream while its peer has not
    gone; a client that leaves is released, by stages each step keeps (\<open>doomed\<close>, \<open>closing\<close>, \<open>unlinked\<close>, \<open>released\<close>).
  \<^item> Acceptor and loop: each descriptor accepted is closed once, with its connection; handling one channel leaves what the poller
    reported of the others true (\<open>unaffected\<close>), so turns refine runs of single events; a connection that has ended goes within its turn.
    The account is of the acceptor's and the connections' own calls: those of \<open>RtpConnection\<close>, one of which closes a socket it does not own,
    are in \<open>Rtp_Delivery\<close>.
  \<^item> Timer queue: its assertions hold, no deleted timer is used and none leaks, a cancelled timer is not called again.
  \<^item> Faults: the errors of the code, each with the situation it happens in.

  BOUNDS. \<open>run_loop\<close> runs the given number of tasks; \<open>drain\<close> gives it the length of the queue, which is what one turn of the loop takes.
  The port loop \<open>udp_try\<close> has the code's limit of attempts. \<open>fu_loop\<close> and the scans of the file terminate on measures, with no fuel.
  A playback pass needs at most as many calls as the file has bytes. \<open>nextConnId\<close> stays below \<open>2 ^ 31\<close> by
  assumption (\<open>sys_ok\<close>): the code's \<open>int\<close> would overflow; and the address printed in a connection's name has at most 40
  characters, so that the name fits its 64. \<open>rtspConnMap\<close> is empty and the server invariant holds when a run of the system starts, as
  it does in \<open>main\<close>.

  NOT MODELLED. Of muduo: pollers, socket options and addresses, which only wrap system calls; logging; threads and thread pools (the
  program runs one loop); wake-ups and \<open>quit\<close>, which it does not call; the write-complete and high-water-mark callbacks and the HTTP, RPC and client
  parts, which it does not use; \<open>~TcpServer\<close>, since \<open>main\<close> does not leave the loop. Of the program: output on the console, the
  40 ms sleep, and \<open>vector::capacity\<close>. A channel reports to the poller only what it asked for and a hang-up (\<open>sys_ok\<close>); error events are only logged
  by the code and change nothing. The closures of packet tasks run through \<open>PacketTask\<close>, one at a time, apart from the functors of connections:
  any order of the two is a run of the model.
\<close>

end
